(* ===== verification/Go_Prelude.thy ===== *)
theory Go_Prelude
  imports Complex_Main "HOL-Library.AList"
begin

text \<open>
  Shared vocabulary of the development: Go's error values and the three ways a Go call can
  end, 64-bit signed arithmetic, the clock, and generic facts on lists and association lists.

  A Go call ends with a value (\<open>Ok\<close>), with a non-nil \<open>error\<close> (\<open>Err\<close>), or with a run-time
  panic (\<open>Panic\<close>): a slice out of range is the panic the modelled code can reach.
\<close>

section \<open>Collections of rules\<close>

named_theorems go_string \<open>facts about the string library\<close>
named_theorems go_time \<open>constants of the time package\<close>

section \<open>Errors and results\<close>

text \<open>
  \<open>NewErr\<close> is \<^verbatim>\<open>errors.New\<close> and \<^verbatim>\<open>fmt.Errorf\<close> without \<^verbatim>\<open>%w\<close>. \<open>WrapErr a e b\<close> is
  \<^verbatim>\<open>fmt.Errorf("a%wb", e)\<close>. \<open>TenantErr\<close> is the struct \<^verbatim>\<open>TenantError\<close> of
  tenantkit/errors.go with its fields Query, Tables and Err.
\<close>

datatype go_error =
    NewErr string
  | WrapErr string go_error string
  | TenantErr string "string list" go_error

datatype 'a res = Ok 'a | Err go_error | Panic

fun res_bind :: "'a res \<Rightarrow> ('a \<Rightarrow> 'b res) \<Rightarrow> 'b res" where
  "res_bind (Ok x) f = f x"
| "res_bind (Err e) f = Err e"
| "res_bind Panic f = Panic"

lemma res_bind_Ok_iff: "res_bind m f = Ok y \<longleftrightarrow> (\<exists>x. m = Ok x \<and> f x = Ok y)"
  by (cases m) auto

lemma res_bind_assoc: "res_bind (res_bind m f) g = res_bind m (\<lambda>x. res_bind (f x) g)"
  by (cases m) auto

text \<open>\<^verbatim>\<open>errors.Is\<close>: the error itself or one it wraps.\<close>

fun error_is :: "go_error \<Rightarrow> go_error \<Rightarrow> bool" where
  "error_is (NewErr m) t = (NewErr m = t)"
| "error_is (WrapErr a e b) t = (WrapErr a e b = t \<or> error_is e t)"
| "error_is (TenantErr q ts e) t = (TenantErr q ts e = t \<or> error_is e t)"

lemma error_is_refl [simp]: "error_is e e"
  by (cases e) auto

section \<open>64-bit signed integers\<close>

text \<open>
  Go's \<^verbatim>\<open>int\<close> and \<^verbatim>\<open>int64\<close> wrap around in two's complement. Values are kept as \<open>int\<close>, in range
  \<open>in_i64\<close>; every addition whose overflow the code does not exclude is written \<open>add64\<close>.
\<close>

definition max_i64 :: int where
  "max_i64 = 9223372036854775807"

definition min_i64 :: int where
  "min_i64 = - 9223372036854775808"

definition in_i64 :: "int \<Rightarrow> bool" where
  "in_i64 x \<longleftrightarrow> min_i64 \<le> x \<and> x \<le> max_i64"

definition wrap64 :: "int \<Rightarrow> int" where
  "wrap64 x = (x + 9223372036854775808) mod 18446744073709551616 - 9223372036854775808"

definition add64 :: "int \<Rightarrow> int \<Rightarrow> int" where
  "add64 x y = wrap64 (x + y)"

definition sub64 :: "int \<Rightarrow> int \<Rightarrow> int" where
  "sub64 x y = wrap64 (x - y)"

lemmas i64_defs = in_i64_def max_i64_def min_i64_def

lemma wrap64_in_range [simp]: "in_i64 (wrap64 x)"
  using pos_mod_bound [of 18446744073709551616 "x + 9223372036854775808"]
    pos_mod_sign [of 18446744073709551616 "x + 9223372036854775808"]
  by (simp add: wrap64_def i64_defs)

lemma wrap64_id [simp]: "in_i64 x \<Longrightarrow> wrap64 x = x"
  by (simp add: wrap64_def i64_defs)

lemma add64_exact [simp]: "in_i64 (x + y) \<Longrightarrow> add64 x y = x + y"
  by (simp add: add64_def)

lemma sub64_exact [simp]: "in_i64 (x - y) \<Longrightarrow> sub64 x y = x - y"
  by (simp add: sub64_def)

lemma add64_in_range [simp]: "in_i64 (add64 x y)"
  by (simp add: add64_def)

text \<open>The sum of two values in range is off by at most one multiple of \<open>2 ^ 64\<close>.\<close>

lemma add64_overflow:
  assumes "in_i64 x" and "in_i64 y" and "max_i64 < x + y"
  shows "add64 x y = x + y - 18446744073709551616"
proof -
  have "(x + y + 9223372036854775808) mod 18446744073709551616 =
        (x + y + 9223372036854775808 - 18446744073709551616) mod 18446744073709551616"
    by (rule minus_mod_self2 [symmetric])
  also have "\<dots> = x + y + 9223372036854775808 - 18446744073709551616"
    using assms by (intro mod_pos_pos_trivial) (auto simp: i64_defs)
  finally show ?thesis
    by (simp add: add64_def wrap64_def)
qed

section \<open>Time\<close>

text \<open>
  A \<^verbatim>\<open>time.Time\<close> is an \<open>int\<close> of nanoseconds and a \<^verbatim>\<open>time.Duration\<close> an \<open>int\<close> of nanoseconds.
  \<^verbatim>\<open>time.Now()\<close> is never called inside a definition: each reading a method takes is an argument.
\<close>

definition nanosecond :: int where [go_time]: "nanosecond = 1"
definition millisecond :: int where [go_time]: "millisecond = 1000000"
definition second :: int where [go_time]: "second = 1000000000"
definition minute :: int where [go_time]: "minute = 60 * 1000000000"
definition hour :: int where [go_time]: "hour = 3600 * 1000000000"

section \<open>Lists and association lists\<close>

lemma map_of_AList_update: "map_of (AList.update k v al) = (map_of al)(k \<mapsto> v)"
  by (induction al) auto

lemma map_of_AList_delete: "map_of (AList.delete k al) = (map_of al)(k := None)"
  by (induction al) auto

lemma length_AList_update:
  "length (AList.update k v al) = (if k \<in> fst ` set al then length al else Suc (length al))"
  by (induction al) auto

lemma set_AList_update_subset: "set (AList.update k v al) \<subseteq> insert (k, v) (set al)"
  by (induction al) auto

lemma map_of_filter_keys:
  "distinct (map fst al) \<Longrightarrow>
     map_of (filter (\<lambda>(k, v). P v) al) k =
       (case map_of al k of Some v \<Rightarrow> if P v then Some v else None | None \<Rightarrow> None)"
  by (induction al) (auto simp: map_of_eq_None_iff split: option.splits dest: map_of_SomeD)

lemma take_append_length [simp]: "take (length xs) (xs @ ys) = xs"
  by simp

end
