(* ===== verification/Go_Strings.thy ===== *)
theory Go_Strings
  imports Go_Prelude "HOL-Library.Char_ord"
begin

text \<open>
  The functions of Go's package \<^verbatim>\<open>strings\<close> (and \<^verbatim>\<open>strconv\<close>, \<^verbatim>\<open>fmt.Sprintf("%d")\<close>) that the code
  uses. A Go string is a sequence of bytes, and so is a \<open>string\<close> here. The case mappings and
  the white space test are those of ASCII text, Go's own fast path; a byte from 128 up is
  mapped to itself. \<^verbatim>\<open>strings.Index\<close> returns \<open>None\<close> for \<open>-1\<close>.
\<close>

section \<open>Characters\<close>

abbreviation code :: "char \<Rightarrow> nat" where
  "code c \<equiv> of_char c"

definition is_lower :: "char \<Rightarrow> bool" where
  "is_lower c \<longleftrightarrow> 97 \<le> code c \<and> code c \<le> 122"

definition is_upper :: "char \<Rightarrow> bool" where
  "is_upper c \<longleftrightarrow> 65 \<le> code c \<and> code c \<le> 90"

definition is_digit :: "char \<Rightarrow> bool" where
  "is_digit c \<longleftrightarrow> 48 \<le> code c \<and> code c \<le> 57"

definition is_space :: "char \<Rightarrow> bool" where
  "is_space c \<longleftrightarrow> code c = 32 \<or> 9 \<le> code c \<and> code c \<le> 13"

definition up_char :: "char \<Rightarrow> char" where
  "up_char c = (if is_lower c then char_of (code c - 32) else c)"

definition low_char :: "char \<Rightarrow> char" where
  "low_char c = (if is_upper c then char_of (code c + 32) else c)"

section \<open>The string functions\<close>

definition to_upper :: "string \<Rightarrow> string" where
  "to_upper s = map up_char s"

definition to_lower :: "string \<Rightarrow> string" where
  "to_lower s = map low_char s"

definition equal_fold :: "string \<Rightarrow> string \<Rightarrow> bool" where
  "equal_fold s t \<longleftrightarrow> to_lower s = to_lower t"

definition has_prefix :: "string \<Rightarrow> string \<Rightarrow> bool" where
  "has_prefix s p \<longleftrightarrow> take (length p) s = p"

definition has_suffix :: "string \<Rightarrow> string \<Rightarrow> bool" where
  "has_suffix s p \<longleftrightarrow> length p \<le> length s \<and> drop (length s - length p) s = p"

definition trim_prefix :: "string \<Rightarrow> string \<Rightarrow> string" where
  "trim_prefix s p = (if has_prefix s p then drop (length p) s else s)"

definition trim_suffix :: "string \<Rightarrow> string \<Rightarrow> string" where
  "trim_suffix s p = (if has_suffix s p then take (length s - length p) s else s)"

text \<open>\<^verbatim>\<open>strings.Index(s, p)\<close>: the position of the first occurrence.\<close>

fun str_index :: "string \<Rightarrow> string \<Rightarrow> nat option" where
  "str_index [] p = (if p = [] then Some 0 else None)"
| "str_index (c # s) p =
     (if has_prefix (c # s) p then Some 0 else map_option Suc (str_index s p))"

text \<open>\<^verbatim>\<open>strings.LastIndex(s, sep)\<close> for a separator of one byte.\<close>

fun last_index :: "string \<Rightarrow> char \<Rightarrow> nat option" where
  "last_index [] c = None"
| "last_index (x # s) c =
     (case last_index s c of Some i \<Rightarrow> Some (Suc i)
      | None \<Rightarrow> if x = c then Some 0 else None)"

definition contains :: "string \<Rightarrow> string \<Rightarrow> bool" where
  "contains s p \<longleftrightarrow> str_index s p \<noteq> None"

text \<open>\<^verbatim>\<open>strings.Count(s, c)\<close> for a substring of one byte.\<close>

definition count_char :: "string \<Rightarrow> char \<Rightarrow> nat" where
  "count_char s c = length (filter (\<lambda>x. x = c) s)"

definition trim_by :: "(char \<Rightarrow> bool) \<Rightarrow> string \<Rightarrow> string" where
  "trim_by P s = rev (dropWhile P (rev (dropWhile P s)))"

definition trim_space :: "string \<Rightarrow> string" where
  "trim_space s = trim_by is_space s"

text \<open>\<^verbatim>\<open>strings.Trim(s, cutset)\<close>.\<close>

definition trim_chars :: "string \<Rightarrow> string \<Rightarrow> string" where
  "trim_chars s cutset = trim_by (\<lambda>c. c \<in> set cutset) s"

text \<open>\<^verbatim>\<open>strings.Split(s, sep)\<close> for a separator of one byte; never empty.\<close>

fun split_by :: "(char \<Rightarrow> bool) \<Rightarrow> string \<Rightarrow> string list" where
  "split_by P [] = [[]]"
| "split_by P (c # s) =
     (if P c then [] # split_by P s
      else case split_by P s of [] \<Rightarrow> [[c]] | w # ws \<Rightarrow> (c # w) # ws)"

definition split_char :: "string \<Rightarrow> char \<Rightarrow> string list" where
  "split_char s sep = split_by (\<lambda>c. c = sep) s"

text \<open>\<^verbatim>\<open>strings.Fields\<close>: the non-empty pieces between white space.\<close>

definition str_fields :: "string \<Rightarrow> string list" where
  "str_fields s = filter (\<lambda>w. w \<noteq> []) (split_by is_space s)"

text \<open>\<^verbatim>\<open>strings.Replace(s, c, new, 1)\<close> for a substring of one byte.\<close>

fun replace_first :: "string \<Rightarrow> char \<Rightarrow> string \<Rightarrow> string" where
  "replace_first [] c new = []"
| "replace_first (x # s) c new = (if x = c then new @ s else x # replace_first s c new)"

text \<open>\<^verbatim>\<open>strings.Join\<close>.\<close>

fun str_join :: "string list \<Rightarrow> string \<Rightarrow> string" where
  "str_join [] sep = []"
| "str_join [w] sep = w"
| "str_join (w # v # ws) sep = w @ sep @ str_join (v # ws) sep"

text \<open>A slice expression \<^verbatim>\<open>s[i:j]\<close>: a panic unless \<open>i \<le> j \<le> len(s)\<close>.\<close>

definition go_slice :: "'a list \<Rightarrow> nat \<Rightarrow> nat \<Rightarrow> 'a list res" where
  "go_slice s i j = (if i \<le> j \<and> j \<le> length s then Ok (take (j - i) (drop i s)) else Panic)"

section \<open>Decimal numbers\<close>

definition digit_char :: "nat \<Rightarrow> char" where
  "digit_char d = ''0123456789'' ! d"

definition digit_val :: "char \<Rightarrow> nat" where
  "digit_val c = code c - 48"

fun nat_str :: "nat \<Rightarrow> string" where
  "nat_str n = (if n < 10 then [digit_char n] else nat_str (n div 10) @ [digit_char (n mod 10)])"

declare nat_str.simps [simp del]

definition int_str :: "int \<Rightarrow> string" where
  "int_str i = (if i < 0 then ''-'' @ nat_str (nat (- i)) else nat_str (nat i))"

definition digits_val :: "string \<Rightarrow> nat" where
  "digits_val ds = foldl (\<lambda>n d. 10 * n + digit_val d) 0 ds"


section \<open>Code equations on the bits of a byte\<close>

lemma is_lower_code [code]:
  "is_lower (Char b0 b1 b2 b3 b4 b5 b6 b7) \<longleftrightarrow>
     \<not> b7 \<and> b6 \<and> b5 \<and> (b0 \<or> b1 \<or> b2 \<or> b3 \<or> b4) \<and> \<not> (b4 \<and> b3 \<and> (b2 \<or> b1 \<and> b0))"
  by (cases b0; cases b1; cases b2; cases b3; cases b4; cases b5; cases b6; cases b7)
    (simp_all add: is_lower_def)

lemma is_upper_code [code]:
  "is_upper (Char b0 b1 b2 b3 b4 b5 b6 b7) \<longleftrightarrow>
     \<not> b7 \<and> b6 \<and> \<not> b5 \<and> (b0 \<or> b1 \<or> b2 \<or> b3 \<or> b4) \<and> \<not> (b4 \<and> b3 \<and> (b2 \<or> b1 \<and> b0))"
  by (cases b0; cases b1; cases b2; cases b3; cases b4; cases b5; cases b6; cases b7)
    (simp_all add: is_upper_def)

lemma is_digit_code [code]:
  "is_digit (Char b0 b1 b2 b3 b4 b5 b6 b7) \<longleftrightarrow>
     \<not> b7 \<and> \<not> b6 \<and> b5 \<and> b4 \<and> \<not> (b3 \<and> (b2 \<or> b1))"
  by (cases b0; cases b1; cases b2; cases b3; cases b4; cases b5; cases b6; cases b7)
    (simp_all add: is_digit_def)

lemma is_space_code [code]:
  "is_space (Char b0 b1 b2 b3 b4 b5 b6 b7) \<longleftrightarrow>
     \<not> b7 \<and> \<not> b6 \<and> \<not> b4 \<and>
     (b5 \<and> \<not> b3 \<and> \<not> b2 \<and> \<not> b1 \<and> \<not> b0 \<or> \<not> b5 \<and> b3 \<and> (b0 \<or> b1 \<or> b2) \<and> \<not> (b2 \<and> b1))"
  by (cases b0; cases b1; cases b2; cases b3; cases b4; cases b5; cases b6; cases b7)
    (simp_all add: is_space_def)

lemma up_char_code [code]:
  "up_char (Char b0 b1 b2 b3 b4 b5 b6 b7) =
     (if is_lower (Char b0 b1 b2 b3 b4 b5 b6 b7) then Char b0 b1 b2 b3 b4 False b6 b7
      else Char b0 b1 b2 b3 b4 b5 b6 b7)"
  by (cases b0; cases b1; cases b2; cases b3; cases b4; cases b5; cases b6; cases b7)
    (simp_all add: up_char_def is_lower_code char_of_def bit_0)

lemma low_char_code [code]:
  "low_char (Char b0 b1 b2 b3 b4 b5 b6 b7) =
     (if is_upper (Char b0 b1 b2 b3 b4 b5 b6 b7) then Char b0 b1 b2 b3 b4 True b6 b7
      else Char b0 b1 b2 b3 b4 b5 b6 b7)"
  by (cases b0; cases b1; cases b2; cases b3; cases b4; cases b5; cases b6; cases b7)
    (simp_all add: low_char_def is_upper_code char_of_def bit_0)

lemmas char_code = is_lower_code is_upper_code is_digit_code is_space_code up_char_code low_char_code

section \<open>Facts: case mapping\<close>

lemma code_char_of [simp]: "n < 256 \<Longrightarrow> code (char_of (n::nat)) = n"
  by (simp only: of_char_of mod_less)

lemma code_eq_iff: "code c = (code d :: nat) \<longleftrightarrow> c = d"
  by simp

lemma code_up_char: "code (up_char c) = (if is_lower c then code c - 32 else (code c :: nat))"
proof (cases "is_lower c")
  case True
  then have "code c - 32 < (256::nat)" unfolding is_lower_def by arith
  with True show ?thesis by (simp only: up_char_def code_char_of if_True)
qed (simp add: up_char_def)

lemma code_low_char: "code (low_char c) = (if is_upper c then code c + 32 else (code c :: nat))"
proof (cases "is_upper c")
  case True
  then have "code c + 32 < (256::nat)" by (simp add: is_upper_def)
  with True show ?thesis by (simp only: low_char_def code_char_of if_True)
qed (simp add: low_char_def)

lemma is_upper_up_char: "is_lower c \<Longrightarrow> is_upper (up_char c)"
  unfolding is_upper_def code_up_char by (simp add: is_lower_def; arith)

lemma is_lower_low_char: "is_upper c \<Longrightarrow> is_lower (low_char c)"
  unfolding is_lower_def code_low_char by (simp add: is_upper_def)

lemma upper_not_lower: "is_upper c \<Longrightarrow> \<not> is_lower c"
  by (simp add: is_upper_def is_lower_def)

lemma up_char_fix [simp]: "\<not> is_lower c \<Longrightarrow> up_char c = c"
  by (simp add: up_char_def)

lemma low_char_fix [simp]: "\<not> is_upper c \<Longrightarrow> low_char c = c"
  by (simp add: low_char_def)

lemma not_lower_up_char [simp]: "\<not> is_lower (up_char c)"
  by (cases "is_lower c") (auto dest: is_upper_up_char upper_not_lower)

lemma not_upper_low_char [simp]: "\<not> is_upper (low_char c)"
  by (cases "is_upper c") (auto dest: is_lower_low_char upper_not_lower)

lemma is_space_not_letter: "is_space c \<Longrightarrow> \<not> is_lower c \<and> \<not> is_upper c"
  by (auto simp: is_space_def is_lower_def is_upper_def)

lemma is_space_up_char [simp]: "is_space (up_char c) = is_space c"
  by (cases "is_lower c") (auto dest: is_space_not_letter is_upper_up_char)

lemma is_space_low_char [simp]: "is_space (low_char c) = is_space c"
  by (cases "is_upper c") (auto dest: is_space_not_letter is_lower_low_char)

lemma up_char_idem [simp]: "up_char (up_char c) = up_char c"
  by simp

lemma low_char_idem [simp]: "low_char (low_char c) = low_char c"
  by simp

lemma low_up_char [simp]: "low_char (up_char c) = low_char c"
proof (cases "is_lower c")
  case True
  have "code (low_char (up_char c)) = code c - 32 + (32::nat)"
    using True by (simp only: code_low_char code_up_char is_upper_up_char if_True)
  also have "\<dots> = code c" using True unfolding is_lower_def by arith
  finally show ?thesis using True upper_not_lower by (auto simp: low_char_def [of c])
qed simp

lemma up_low_char [simp]: "up_char (low_char c) = up_char c"
proof (cases "is_upper c")
  case True
  have "code (up_char (low_char c)) = code c + 32 - (32::nat)"
    using True by (simp only: code_low_char code_up_char is_lower_low_char if_True)
  also have "\<dots> = code c" by simp
  finally show ?thesis using True upper_not_lower by (auto simp: up_char_def [of c])
qed simp

text \<open>A byte that is no letter is not made nor unmade by the case mappings.\<close>

lemma up_char_eq_iff: "\<not> is_lower d \<Longrightarrow> \<not> is_upper d \<Longrightarrow> up_char c = d \<longleftrightarrow> c = d"
  by (cases "is_lower c") (auto dest: is_upper_up_char)

lemma low_char_eq_iff: "\<not> is_lower d \<Longrightarrow> \<not> is_upper d \<Longrightarrow> low_char c = d \<longleftrightarrow> c = d"
  by (cases "is_upper c") (auto dest: is_lower_low_char)

lemma length_to_upper [simp]: "length (to_upper s) = length s"
  by (simp add: to_upper_def)

lemma length_to_lower [simp]: "length (to_lower s) = length s"
  by (simp add: to_lower_def)

lemma to_upper_append [simp]: "to_upper (s @ t) = to_upper s @ to_upper t"
  by (simp add: to_upper_def)

lemma to_lower_append [simp]: "to_lower (s @ t) = to_lower s @ to_lower t"
  by (simp add: to_lower_def)

lemma to_upper_take: "to_upper (take n s) = take n (to_upper s)"
  by (simp add: to_upper_def take_map)

lemma to_upper_drop: "to_upper (drop n s) = drop n (to_upper s)"
  by (simp add: to_upper_def drop_map)

lemma to_upper_idem [simp]: "to_upper (to_upper s) = to_upper s"
  by (simp add: to_upper_def)

lemma to_lower_idem [simp]: "to_lower (to_lower s) = to_lower s"
  by (simp add: to_lower_def)

lemma to_lower_to_upper [simp]: "to_lower (to_upper s) = to_lower s"
  by (simp add: to_upper_def to_lower_def)

lemma to_upper_to_lower [simp]: "to_upper (to_lower s) = to_upper s"
  by (simp add: to_upper_def to_lower_def)

lemma to_upper_Nil [simp]: "to_upper [] = []"
  by (simp add: to_upper_def)

lemma to_lower_Nil [simp]: "to_lower [] = []"
  by (simp add: to_lower_def)

lemma to_upper_eq_Nil [simp]: "to_upper s = [] \<longleftrightarrow> s = []"
  by (simp add: to_upper_def)

lemma to_lower_eq_Nil [simp]: "to_lower s = [] \<longleftrightarrow> s = []"
  by (simp add: to_lower_def)

section \<open>Facts: prefixes and the first occurrence\<close>

lemma has_prefix_iff: "has_prefix s p \<longleftrightarrow> (\<exists>t. s = p @ t)"
  by (metis append_eq_conv_conj append_take_drop_id has_prefix_def)

lemma has_prefix_append [simp]: "has_prefix (p @ t) p"
  by (simp add: has_prefix_def)

lemma has_prefix_Nil [simp]: "has_prefix s []"
  by (simp add: has_prefix_def)

lemma has_prefix_Cons [simp]: "has_prefix (c # s) (d # p) \<longleftrightarrow> c = d \<and> has_prefix s p"
  by (simp add: has_prefix_def)

lemma has_prefix_Nil_Cons [simp]: "has_prefix [] (d # p) \<longleftrightarrow> False"
  by (simp add: has_prefix_def)

lemma has_prefix_length: "has_prefix s p \<Longrightarrow> length p \<le> length s"
  by (auto simp: has_prefix_iff)

lemma has_prefix_extend: "has_prefix s p \<Longrightarrow> has_prefix (s @ t) p"
  by (auto simp: has_prefix_iff)

lemma has_suffix_iff: "has_suffix s p \<longleftrightarrow> (\<exists>t. s = t @ p)"
  by (metis append_take_drop_id diff_le_self has_suffix_def append_eq_conv_conj
      length_append le_add2 add_diff_cancel_right')

lemma has_suffix_append [simp]: "has_suffix (t @ p) p"
  by (auto simp: has_suffix_iff)

lemma trim_suffix_append [simp]: "trim_suffix (t @ p) p = t"
  by (simp add: trim_suffix_def)

lemma trim_prefix_append [simp]: "trim_prefix (p @ t) p = t"
  by (simp add: trim_prefix_def)

text \<open>\<open>str_index\<close> is the least position at which the pattern is a prefix of the rest.\<close>

lemma str_index_SomeD:
  "str_index s p = Some i \<Longrightarrow>
     i + length p \<le> length s \<and> has_prefix (drop i s) p \<and> (\<forall>j<i. \<not> has_prefix (drop j s) p)"
proof (induction s p arbitrary: i rule: str_index.induct)
  case (1 p)
  then show ?case by (simp split: if_splits)
next
  case (2 c s p)
  show ?case
  proof (cases "has_prefix (c # s) p")
    case True
    with 2 show ?thesis by (auto dest: has_prefix_length)
  next
    case False
    with "2.prems" obtain k where k: "str_index s p = Some k" "i = Suc k" by auto
    from "2.IH" [OF False k(1)] False k(2) show ?thesis
      by (auto simp: less_Suc_eq_0_disj)
  qed
qed

lemma str_index_NoneD: "str_index s p = None \<Longrightarrow> \<not> has_prefix (drop j s) p"
proof (induction s p arbitrary: j rule: str_index.induct)
  case (1 p)
  then show ?case by (cases p) auto
next
  case (2 c s p)
  then show ?case by (cases j) (auto split: if_splits)
qed

lemma str_index_eqI:
  assumes "has_prefix (drop i s) p" and "\<And>j. j < i \<Longrightarrow> \<not> has_prefix (drop j s) p"
  shows "str_index s p = Some i"
proof (cases "str_index s p")
  case None
  with assms(1) show ?thesis by (auto dest: str_index_NoneD)
next
  case (Some k)
  note k = str_index_SomeD [OF this]
  with assms have "\<not> i < k" "\<not> k < i" by blast+
  with Some show ?thesis by simp
qed

lemma str_index_length: "str_index s p = Some i \<Longrightarrow> i + length p \<le> length s"
  by (blast dest: str_index_SomeD)

lemma str_index_split:
  assumes "str_index s p = Some i"
  shows "s = take i s @ p @ drop (i + length p) s"
proof -
  from str_index_SomeD [OF assms] obtain t where "drop i s = p @ t"
    by (auto simp: has_prefix_iff)
  then show ?thesis
    by (metis append_take_drop_id append_eq_conv_conj drop_drop add.commute)
qed

lemma str_index_None_iff: "str_index s p = None \<longleftrightarrow> (\<forall>j. \<not> has_prefix (drop j s) p)"
  by (metis not_None_eq str_index_NoneD str_index_SomeD)

lemma contains_iff: "contains s p \<longleftrightarrow> (\<exists>a b. s = a @ p @ b)"
proof
  assume "contains s p"
  then obtain i where "str_index s p = Some i" by (auto simp: contains_def)
  from str_index_split [OF this] show "\<exists>a b. s = a @ p @ b" by blast
next
  assume "\<exists>a b. s = a @ p @ b"
  then obtain a b where "s = a @ p @ b" by blast
  then have "has_prefix (drop (length a) s) p" by simp
  then have "str_index s p \<noteq> None" using str_index_NoneD by blast
  then show "contains s p" by (simp add: contains_def)
qed

lemma not_contains_iff: "str_index s p = None \<longleftrightarrow> \<not> contains s p"
  by (simp add: contains_def)

lemma contains_middle: "contains t p \<Longrightarrow> contains (a @ t @ b) p"
  by (metis append.assoc contains_iff)

text \<open>
  The main tool of the rewriter's proofs: where a text has no occurrence of the pattern, not
  even one that starts in it and runs into the pattern itself, the first occurrence is the
  pattern written after it.
\<close>

lemma str_index_here:
  assumes "str_index (a @ butlast p) p = None" and "p \<noteq> []"
  shows "str_index (a @ p @ b) p = Some (length a)"
proof (rule str_index_eqI)
  show "has_prefix (drop (length a) (a @ p @ b)) p" by simp
next
  fix j assume j: "j < length a"
  show "\<not> has_prefix (drop j (a @ p @ b)) p"
  proof
    assume pre: "has_prefix (drop j (a @ p @ b)) p"
    have len: "length p \<le> length (drop j (a @ butlast p))"
      using j assms(2) by (cases p rule: rev_cases) auto
    have "a @ p @ b = (a @ butlast p) @ [last p] @ b"
      using assms(2) by simp
    then have "drop j (a @ p @ b) = drop j (a @ butlast p) @ [last p] @ b"
      using j by (simp only: drop_append) simp
    with pre have "take (length p) (drop j (a @ butlast p) @ [last p] @ b) = p"
      by (simp only: has_prefix_def)
    with len have "has_prefix (drop j (a @ butlast p)) p"
      by (simp add: has_prefix_def)
    with assms(1) show False by (auto dest: str_index_NoneD)
  qed
qed

lemma str_index_take_None:
  "str_index s p = Some i \<Longrightarrow> p \<noteq> [] \<Longrightarrow> str_index (take i s) p = None"
proof -
  assume a: "str_index s p = Some i" and p: "p \<noteq> []"
  have "\<not> has_prefix (drop j (take i s)) p" for j
  proof
    assume "has_prefix (drop j (take i s)) p"
    then obtain t where t: "drop j (take i s) = p @ t" by (auto simp: has_prefix_iff)
    with p have "j < i" by (cases "j < i") auto
    have "drop j s = drop j (take i s @ drop i s)" by simp
    also have "\<dots> = (p @ t) @ drop (j - length (take i s)) (drop i s)"
      by (simp only: drop_append t)
    finally have "has_prefix (drop j s) p" by simp
    with \<open>j < i\<close> str_index_SomeD [OF a] show False by blast
  qed
  then show ?thesis by (simp add: str_index_None_iff)
qed

text \<open>The same after a separator the pattern does not contain.\<close>

lemma str_index_after_sep:
  assumes "\<not> contains a p" "x \<notin> set p" "p \<noteq> []"
  shows "str_index ((a @ [x]) @ p @ b) p = Some (Suc (length a))"
proof -
  have "\<not> has_prefix (drop j ((a @ [x]) @ butlast p)) p" for j
  proof
    assume "has_prefix (drop j ((a @ [x]) @ butlast p)) p"
    then obtain t where t: "drop j (a @ x # butlast p) = p @ t" by (auto simp: has_prefix_iff)
    show False
    proof (cases "j + length p \<le> length a")
      case True
      have "take (length p) (drop j (a @ x # butlast p)) = p" unfolding t by simp
      moreover have "length p - (length a - j) = 0" using True by simp
      ultimately have "take (length p) (drop j a) = p" using True by simp
      then have "has_prefix (drop j a) p" by (simp add: has_prefix_def)
      then show False using assms(1) str_index_NoneD [of a p j] by (auto simp: contains_def)
    next
      case False
      have p: "0 < length p" using assms(3) by simp
      have "length (drop j (a @ x # butlast p)) = length a + length p - j" using p by simp
      then have "length p + length t = length a + length p - j" unfolding t by simp
      then have j: "j \<le> length a" using p by linarith
      have "p @ t = drop j a @ x # butlast p" using t j by simp
      then have "(p @ t) ! (length a - j) = x" using j by (simp add: nth_append)
      moreover have k: "length a - j < length p" using False j p by linarith
      ultimately have "p ! (length a - j) = x" by (simp add: nth_append)
      then show False using assms(2) nth_mem [OF k] by simp
    qed
  qed
  then have "str_index ((a @ [x]) @ butlast p) p = None" by (simp add: str_index_None_iff)
  from str_index_here [OF this assms(3)] show ?thesis by simp
qed

lemma contains_sep:
  assumes "contains (a @ x # b) p" "x \<notin> set p"
  shows "contains a p \<or> contains b p"
proof -
  obtain u v where "a @ x # b = u @ p @ v" using assms(1) by (auto simp: contains_iff)
  then consider w where "a = u @ w" "w @ x # b = p @ v" | w where "a @ w = u" "x # b = w @ p @ v"
    by (auto simp: append_eq_append_conv2)
  then show ?thesis
  proof cases
    case 1
    then consider y where "w = p @ y" | y where "p = w @ y" "x # b = y @ v"
      by (auto simp: append_eq_append_conv2)
    then show ?thesis
    proof cases
      case 1
      with \<open>a = u @ w\<close> show ?thesis by (auto simp: contains_iff)
    next
      case 2
      then have "y = []" using assms(2) by (cases y) auto
      with 2 \<open>a = u @ w\<close> show ?thesis by (auto simp: contains_iff intro: exI [of _ "[]"])
    qed
  next
    case 2
    then show ?thesis
    proof (cases w)
      case Nil
      then have "p = []" using 2(2) assms(2) by (cases p) auto
      then show ?thesis unfolding contains_iff by auto
    next
      case (Cons y w')
      then have "b = w' @ p @ v" using 2(2) by simp
      then show ?thesis by (auto simp: contains_iff)
    qed
  qed
qed

lemma contains_take: "contains (take n s) p \<Longrightarrow> contains s p"
  using contains_middle [of "take n s" p "[]" "drop n s"] by simp

lemma str_index_to_upper_split:
  assumes "str_index (to_upper s) p = Some i"
  shows "take (i + length p) s = take i s @ take (length p) (drop i s)"
    "to_upper (take (length p) (drop i s)) = p"
proof -
  show "take (i + length p) s = take i s @ take (length p) (drop i s)" by (rule take_add)
  show "to_upper (take (length p) (drop i s)) = p"
    using str_index_SomeD [OF assms] by (simp add: to_upper_take to_upper_drop has_prefix_def)
qed

section \<open>Facts: trimming, counting, splitting\<close>

lemma count_char_append [simp]: "count_char (s @ t) c = count_char s c + count_char t c"
  by (simp add: count_char_def)

lemma count_char_Nil [simp]: "count_char [] c = 0"
  by (simp add: count_char_def)

lemma count_char_Cons [simp]: "count_char (x # s) c = (if x = c then Suc (count_char s c) else count_char s c)"
  by (simp add: count_char_def)

lemma count_char_0_iff: "count_char s c = 0 \<longleftrightarrow> c \<notin> set s"
  by (induction s) auto

lemma trim_by_decomp:
  "\<exists>a b. s = a @ trim_by P s @ b \<and> (\<forall>c\<in>set a. P c) \<and> (\<forall>c\<in>set b. P c)"
proof -
  let ?t = "dropWhile P s"
  have 1: "s = takeWhile P s @ ?t" by simp
  have "rev ?t = takeWhile P (rev ?t) @ dropWhile P (rev ?t)" by simp
  then have 2: "?t = trim_by P s @ rev (takeWhile P (rev ?t))"
    unfolding trim_by_def by (metis rev_append rev_rev_ident)
  from 1 2 have "s = takeWhile P s @ trim_by P s @ rev (takeWhile P (rev ?t))" by metis
  moreover have "\<forall>c\<in>set (takeWhile P s). P c" by (meson set_takeWhileD)
  moreover have "\<forall>c\<in>set (rev (takeWhile P (rev ?t))). P c"
    by (metis set_rev set_takeWhileD)
  ultimately show ?thesis by blast
qed

lemma count_char_trim: "\<not> P c \<Longrightarrow> count_char (trim_by P s) c = count_char s c"
proof -
  assume n: "\<not> P c"
  obtain a b where s: "s = a @ trim_by P s @ b" and "\<forall>c\<in>set a. P c" "\<forall>c\<in>set b. P c"
    using trim_by_decomp by blast
  with n have "count_char a c = 0" "count_char b c = 0" by (auto simp: count_char_0_iff)
  then show ?thesis by (subst (2) s) simp
qed

lemma set_trim_by: "set (trim_by P s) \<subseteq> set s"
  by (auto simp: trim_by_def dest!: set_dropWhileD)

lemma trim_by_id:
  "s = [] \<or> \<not> P (hd s) \<and> \<not> P (last s) \<Longrightarrow> trim_by P s = s"
proof (cases s)
  case (Cons x t)
  assume "s = [] \<or> \<not> P (hd s) \<and> \<not> P (last s)"
  with Cons have "\<not> P x" "\<not> P (last s)" by auto
  with Cons have "dropWhile P s = s" by simp
  moreover have "dropWhile P (rev s) = rev s"
    using \<open>\<not> P (last s)\<close> by (cases s rule: rev_cases) simp_all
  ultimately show ?thesis by (simp add: trim_by_def)
qed (simp add: trim_by_def)

lemma trim_by_append_left: "\<forall>c\<in>set a. P c \<Longrightarrow> trim_by P (a @ s) = trim_by P s"
  by (simp add: trim_by_def)

lemma trim_by_append_right:
  assumes "\<forall>c\<in>set b. P c" shows "trim_by P (s @ b) = trim_by P s"
proof (cases "\<forall>c\<in>set s. P c")
  case True
  then have "dropWhile P (s @ b) = []" "dropWhile P s = []"
    using assms by auto
  then show ?thesis by (simp only: trim_by_def)
next
  case False
  then show ?thesis using assms by (auto simp: trim_by_def dropWhile_append)
qed

lemma trim_by_hd_last:
  assumes ne: "trim_by P s \<noteq> []"
  shows "\<not> P (hd (trim_by P s)) \<and> \<not> P (last (trim_by P s))"
proof
  let ?t = "dropWhile P s"
  have t: "?t = trim_by P s @ rev (takeWhile P (rev ?t))"
    by (metis rev_append rev_rev_ident takeWhile_dropWhile_id trim_by_def)
  with ne have "hd ?t = hd (trim_by P s)" "?t \<noteq> []"
    by (metis hd_append2, metis append_is_Nil_conv)
  then show "\<not> P (hd (trim_by P s))" by (metis hd_dropWhile)
  have "dropWhile P (rev ?t) \<noteq> []" using ne by (simp add: trim_by_def)
  then have "\<not> P (hd (dropWhile P (rev ?t)))" by (rule hd_dropWhile)
  then show "\<not> P (last (trim_by P s))" by (simp add: trim_by_def last_rev)
qed

lemma trim_by_idem [simp]: "trim_by P (trim_by P s) = trim_by P s"
  by (metis trim_by_hd_last trim_by_id)

lemma split_by_not_Nil [simp]: "split_by P s \<noteq> []"
  by (induction s) (auto split: list.splits)

lemma split_char_not_Nil [simp]: "split_char s c \<noteq> []"
  by (simp add: split_char_def)

lemma str_join_Cons: "ws \<noteq> [] \<Longrightarrow> str_join (w # ws) sep = w @ sep @ str_join ws sep"
  by (cases ws) auto

lemma str_join_split_char: "str_join (split_char s c) [c] = s"
proof (unfold split_char_def, induction s)
  case Nil
  then show ?case by simp
next
  case (Cons x s)
  obtain w ws where ws: "split_by (\<lambda>x. x = c) s = w # ws"
    by (metis list.exhaust split_by_not_Nil)
  with Cons show ?case by (cases ws) auto
qed

lemma split_by_no_sep: "w \<in> set (split_by P s) \<Longrightarrow> \<forall>c\<in>set w. \<not> P c"
  by (induction s arbitrary: w) (fastforce split: if_splits list.splits)+

lemma split_by_none: "\<forall>c\<in>set s. \<not> P c \<Longrightarrow> split_by P s = [s]"
  by (induction s) auto

lemma split_by_append_sep:
  "\<forall>c\<in>set s. \<not> P c \<Longrightarrow> P x \<Longrightarrow> split_by P (s @ x # t) = s # split_by P t"
  by (induction s) auto

section \<open>Facts: decimal numbers\<close>

lemma less_10_cases: "(d::nat) < 10 \<Longrightarrow> d \<in> {0, 1, 2, 3, 4, 5, 6, 7, 8, 9}"
  by auto

lemma is_digit_digit_char [simp]: "d < 10 \<Longrightarrow> is_digit (digit_char d)"
  by (drule less_10_cases) (auto simp: is_digit_def digit_char_def)

lemma digit_val_digit_char [simp]: "d < 10 \<Longrightarrow> digit_val (digit_char d) = d"
  by (drule less_10_cases) (auto simp: digit_val_def digit_char_def)

lemma digits_val_snoc: "digits_val (ds @ [d]) = 10 * digits_val ds + digit_val d"
  by (simp add: digits_val_def)

lemma nat_str_not_Nil [simp]: "nat_str n \<noteq> []"
  by (subst nat_str.simps) simp

lemma nat_str_digits: "c \<in> set (nat_str n) \<Longrightarrow> is_digit c"
proof (induction n rule: nat_str.induct)
  case (1 n)
  then show ?case by (cases "n < 10") (auto simp: nat_str.simps [of n])
qed

lemma digits_val_nat_str [simp]: "digits_val (nat_str n) = n"
proof (induction n rule: nat_str.induct)
  case (1 n)
  show ?case
  proof (cases "n < 10")
    case True
    then show ?thesis by (simp add: nat_str.simps [of n] digits_val_def)
  next
    case False
    with 1 show ?thesis by (simp add: nat_str.simps [of n] digits_val_snoc)
  qed
qed

lemma nat_str_inject [simp]: "nat_str m = nat_str n \<longleftrightarrow> m = n"
  by (metis digits_val_nat_str)

section \<open>Facts: one byte\<close>

lemma str_index_char: "x \<notin> set a \<Longrightarrow> str_index (a @ x # b) [x] = Some (length a)"
  by (induction a) auto

lemma str_index_charD:
  "str_index s [x] = Some p \<Longrightarrow> s = take p s @ x # drop (Suc p) s \<and> x \<notin> set (take p s)"
proof (induction s arbitrary: p)
  case (Cons c s)
  then show ?case by (cases "x = c") auto
qed simp

lemma replace_first_here: "x \<notin> set a \<Longrightarrow> replace_first (a @ x # b) x new = a @ new @ b"
  by (induction a) auto

text \<open>Two parts around a colon determine each other.\<close>

lemma colon_split: "CHR '':'' \<notin> set a \<Longrightarrow> CHR '':'' \<notin> set b \<Longrightarrow> a @ CHR '':'' # x = b @ CHR '':'' # y \<Longrightarrow> a = b \<and> x = y"
proof (induction a arbitrary: b)
  case Nil
  then show ?case by (cases b) auto
next
  case (Cons c a)
  then show ?case by (cases b) auto
qed

text \<open>The line breaks and tabs of a raw string literal that goes over several lines.\<close>

definition newline_tabs :: "nat \<Rightarrow> string" where
  "newline_tabs n = CHR 0x0A # replicate n (CHR 0x09)"

end
