(* ===== verification/Tenant_Domain.thy ===== *)
theory Tenant_Domain
  imports Go_Strings
begin

text \<open>
  The package \<^verbatim>\<open>domain\<close>: the tenant identifier (tenant_id.go), the tenant context
  (context.go) and how it travels in a Go \<^verbatim>\<open>context.Context\<close>, and the sentinel errors
  (errors.go). A Go context is the map of its keys; a key is the pair of its Go type and its
  text, so two packages' keys with the same text differ, as they do in Go.
\<close>

section \<open>Sentinel errors (domain/errors.go)\<close>

definition ErrInvalidContext :: go_error where
  "ErrInvalidContext = NewErr ''invalid tenant context''"

definition ErrMissingTenantID :: go_error where
  "ErrMissingTenantID = NewErr ''missing tenant ID in context''"

definition ErrMissingUserID :: go_error where
  "ErrMissingUserID = NewErr ''missing user ID in context''"

definition ErrMissingRequestID :: go_error where
  "ErrMissingRequestID = NewErr ''missing request ID in context''"

definition ErrQuotaExceeded :: go_error where
  "ErrQuotaExceeded = NewErr ''quota exceeded''"

definition ErrInvalidTenantID :: go_error where
  "ErrInvalidTenantID = NewErr ''invalid tenant ID: must be 1-255 characters, alphanumeric with dashes, underscores, and dots''"

section \<open>The tenant identifier (domain/tenant_id.go)\<close>

record tenant_id =
  tid_value :: string

text \<open>The character class \<^verbatim>\<open>[a-zA-Z0-9._-]\<close>.\<close>

definition id_char :: "char \<Rightarrow> bool" where
  "id_char c \<longleftrightarrow> is_lower c \<or> is_upper c \<or> is_digit c \<or> c \<in> set ''._-''"

definition validateTenantID :: "string \<Rightarrow> go_error option" where
  "validateTenantID ident =
     (if length ident < 1 \<or> length ident > 255 then Some ErrInvalidTenantID
      else if \<not> list_all id_char ident then Some ErrInvalidTenantID
      else None)"

definition NewTenantID :: "string \<Rightarrow> tenant_id res" where
  "NewTenantID ident =
     (case validateTenantID ident of
        Some err \<Rightarrow> Err err
      | None \<Rightarrow> Ok \<lparr>tid_value = to_lower ident\<rparr>)"

definition tenant_id_Equal :: "tenant_id \<Rightarrow> tenant_id \<Rightarrow> bool" where
  "tenant_id_Equal t u \<longleftrightarrow> tid_value t = tid_value u"

section \<open>The tenant context (domain/context.go)\<close>

record dcontext =
  dc_tenantID :: tenant_id
  dc_userID :: string
  dc_requestID :: string
  dc_timestamp :: int

definition NewContext :: "string \<Rightarrow> string \<Rightarrow> string \<Rightarrow> int \<Rightarrow> dcontext res" where
  "NewContext tenantID userID requestID now =
     (case NewTenantID tenantID of
        Err e \<Rightarrow> Err e
      | Panic \<Rightarrow> Panic
      | Ok tid \<Rightarrow>
          if userID = [] then Err ErrMissingUserID
          else if requestID = [] then Err ErrMissingRequestID
          else Ok \<lparr>dc_tenantID = tid, dc_userID = userID,
                   dc_requestID = requestID, dc_timestamp = now\<rparr>)"

definition WithUser :: "dcontext \<Rightarrow> string \<Rightarrow> int \<Rightarrow> dcontext res" where
  "WithUser c userID now =
     (if userID = [] then Err ErrMissingUserID
      else Ok (c\<lparr>dc_userID := userID, dc_timestamp := now\<rparr>))"

section \<open>Go contexts\<close>

datatype ctx_key = DomainKey string | TenantkitKey string | SqlxKey string | OtherKey string

datatype ctx_val = CtxString string | CtxBool bool | CtxTenant dcontext | CtxOther nat

type_synonym go_ctx = "ctx_key \<rightharpoonup> ctx_val"

definition background :: go_ctx where
  "background = Map.empty"

definition WithValue :: "go_ctx \<Rightarrow> ctx_key \<Rightarrow> ctx_val \<Rightarrow> go_ctx" where
  "WithValue ctx k v = ctx(k \<mapsto> v)"

definition TenantContextKey :: ctx_key where
  "TenantContextKey = DomainKey ''tenant_context''"

text \<open>\<open>None\<close> is a nil context.\<close>

definition FromGoContext :: "go_ctx option \<Rightarrow> dcontext res" where
  "FromGoContext ctx =
     (case ctx of
        None \<Rightarrow> Err ErrInvalidContext
      | Some m \<Rightarrow>
         (case m TenantContextKey of
            None \<Rightarrow> Err ErrInvalidContext
          | Some (CtxTenant tc) \<Rightarrow>
              if tid_value (dc_tenantID tc) = [] then Err ErrMissingTenantID else Ok tc
          | Some _ \<Rightarrow> Err ErrInvalidContext))"

definition ToGoContext :: "dcontext \<Rightarrow> go_ctx \<Rightarrow> go_ctx" where
  "ToGoContext c ctx = WithValue ctx TenantContextKey (CtxTenant c)"

section \<open>Identifiers\<close>

text \<open>What \<open>NewTenantID\<close> promises of every identifier it returns.\<close>

definition valid_id :: "string \<Rightarrow> bool" where
  "valid_id s \<longleftrightarrow> 1 \<le> length s \<and> length s \<le> 255 \<and> list_all id_char s \<and> list_all (\<lambda>c. \<not> is_upper c) s"

lemma valid_id_no_colon: "valid_id t \<Longrightarrow> CHR '':'' \<notin> set t"
proof
  assume "valid_id t" "CHR '':'' \<in> set t"
  then have "id_char CHR '':''" by (auto simp: valid_id_def list_all_iff)
  moreover have "\<not> id_char CHR '':''" by code_simp
  ultimately show False by simp
qed

lemma NewTenantID_Ok_iff:
  "NewTenantID ident = Ok t \<longleftrightarrow>
     1 \<le> length ident \<and> length ident \<le> 255 \<and> list_all id_char ident \<and> t = \<lparr>tid_value = to_lower ident\<rparr>"
  by (auto simp: NewTenantID_def validateTenantID_def Suc_le_eq)

lemma NewTenantID_cases:
  "NewTenantID ident = Err ErrInvalidTenantID \<or> (\<exists>t. NewTenantID ident = Ok t)"
  by (auto simp: NewTenantID_def validateTenantID_def)

lemma id_char_low_char [simp]: "id_char (low_char c) = id_char c"
  by (cases "is_upper c") (auto simp: id_char_def is_lower_low_char)

lemma list_all_id_char_lower: "list_all id_char (to_lower s) = list_all id_char s"
  by (induction s) (auto simp: to_lower_def)

lemma no_upper_to_lower: "list_all (\<lambda>c. \<not> is_upper c) (to_lower s)"
  by (induction s) (auto simp: to_lower_def)

lemma to_lower_id: "list_all (\<lambda>c. \<not> is_upper c) s \<Longrightarrow> to_lower s = s"
  by (induction s) (auto simp: to_lower_def)

lemma NewTenantID_valid: "NewTenantID ident = Ok t \<Longrightarrow> valid_id (tid_value t)"
  by (auto simp: NewTenantID_Ok_iff valid_id_def list_all_id_char_lower no_upper_to_lower)

lemma NewTenantID_of_valid: "valid_id s \<Longrightarrow> NewTenantID s = Ok \<lparr>tid_value = s\<rparr>"
  by (auto simp: NewTenantID_Ok_iff valid_id_def to_lower_id)

lemma NewContext_Ok_iff:
  "NewContext t u r now = Ok c \<longleftrightarrow>
     (\<exists>tid. NewTenantID t = Ok tid \<and> u \<noteq> [] \<and> r \<noteq> [] \<and>
        c = \<lparr>dc_tenantID = tid, dc_userID = u, dc_requestID = r, dc_timestamp = now\<rparr>)"
  by (auto simp: NewContext_def split: res.splits)

lemma NewContext_no_panic: "NewContext t u r now \<noteq> Panic"
  using NewTenantID_cases [of t] by (auto simp: NewContext_def split: res.splits)

lemma FromGoContext_Ok_iff:
  "FromGoContext ctx = Ok tc \<longleftrightarrow>
     (\<exists>m. ctx = Some m \<and> m TenantContextKey = Some (CtxTenant tc)) \<and> tid_value (dc_tenantID tc) \<noteq> []"
  by (auto simp: FromGoContext_def split: option.splits ctx_val.splits)

lemma FromGoContext_ToGoContext:
  "tid_value (dc_tenantID c) \<noteq> [] \<Longrightarrow> FromGoContext (Some (ToGoContext c ctx)) = Ok c"
  by (simp add: FromGoContext_Ok_iff ToGoContext_def WithValue_def)

lemma NewContext_tenant_nonempty:
  "NewContext t u r now = Ok c \<Longrightarrow> tid_value (dc_tenantID c) \<noteq> []"
  by (auto simp: NewContext_Ok_iff NewTenantID_Ok_iff)


section \<open>Properties\<close>

text \<open>
  C40. What \<^verbatim>\<open>NewTenantID\<close> accepts, as its own comment, its error and its pattern have it: an accepted
  identifier is the given one in lower case, 1 to 255 letters, digits, dots, dashes and underscores, and
  is its own normal form: accepting it again changes nothing. The comment on the type is narrower (up to 100
  characters, dashes only) and does not describe the code.
\<close>

theorem tenant_id_normal_form:
  assumes "NewTenantID ident = Ok t"
  shows "valid_id (tid_value t) \<and> tid_value t = to_lower ident \<and> NewTenantID (tid_value t) = Ok t"
  using assms NewTenantID_valid [OF assms] NewTenantID_of_valid [of "tid_value t"]
  by (auto simp: NewTenantID_Ok_iff)

lemma tenant_id_normal_form_witness: "NewTenantID ''acme-eu.1'' = Ok \<lparr>tid_value = ''acme-eu.1''\<rparr>"
proof -
  have "NewTenantID ''Acme-EU.1'' = Ok \<lparr>tid_value = ''acme-eu.1''\<rparr>" by code_simp
  from tenant_id_normal_form [OF this] show ?thesis unfolding tenant_id.simps by blast
qed

text \<open>
  A tenant context built by \<^verbatim>\<open>NewContext\<close> and stored in a Go context is read back as it was,
  whatever the context held before.
\<close>

theorem context_round_trip:
  assumes "NewContext tenantID userID requestID now = Ok c"
  shows "FromGoContext (Some (ToGoContext c ctx)) = Ok c"
  by (rule FromGoContext_ToGoContext [OF NewContext_tenant_nonempty [OF assms]])

lemma context_round_trip_witness:
  "\<exists>c. NewContext ''Acme'' ''u1'' ''r1'' 5 = Ok c \<and> FromGoContext (Some (ToGoContext c background)) = Ok c"
proof -
  have "NewContext ''Acme'' ''u1'' ''r1'' 5 =
      Ok \<lparr>dc_tenantID = \<lparr>tid_value = ''acme''\<rparr>, dc_userID = ''u1'', dc_requestID = ''r1'', dc_timestamp = 5\<rparr>"
    by code_simp
  from context_round_trip [OF this, of background] this show ?thesis by blast
qed

end
