(* ===== verification/Tenant_Context.thy ===== *)
theory Tenant_Context
  imports Tenant_Domain
begin

text \<open>
  tenantkit/context.go: the tenant of a context and the bypass flag; tenantkit/errors.go: the
  core package's errors. \<open>GetTenant\<close> reads the key set by \<open>WithTenant\<close> first and falls back to
  the domain context that the HTTP middleware stores.
\<close>

section \<open>Errors (tenantkit/errors.go)\<close>

definition ErrMissingTenant :: go_error where
  "ErrMissingTenant = NewErr ''tenantkit: tenant context required for this query''"

definition truncate_query :: "string \<Rightarrow> nat \<Rightarrow> string" where
  "truncate_query s maxLen = (if length s \<le> maxLen then s else take maxLen s @ ''...'')"

text \<open>
  The text of an error; \<^verbatim>\<open>%v\<close> prints a slice of strings between brackets, separated by spaces.
\<close>

fun error_string :: "go_error \<Rightarrow> string" where
  "error_string (NewErr m) = m"
| "error_string (WrapErr a e b) = a @ error_string e @ b"
| "error_string (TenantErr q ts e) =
     ''tenantkit: '' @ error_string e @ '' (query: '' @ truncate_query q 100 @
       '', tables: ['' @ str_join ts '' '' @ ''])''"

text \<open>\<open>Unwrap\<close> of a \<open>TenantError\<close> returns its Err.\<close>

fun TenantError_Unwrap :: "go_error \<Rightarrow> go_error option" where
  "TenantError_Unwrap (TenantErr q ts e) = Some e"
| "TenantError_Unwrap _ = None"

section \<open>The context (tenantkit/context.go)\<close>

definition tenantIDKey :: ctx_key where
  "tenantIDKey = TenantkitKey ''tenantkit_tenant_id''"

definition bypassKey :: ctx_key where
  "bypassKey = TenantkitKey ''tenantkit_bypass''"

definition WithTenant :: "go_ctx \<Rightarrow> string \<Rightarrow> go_ctx" where
  "WithTenant ctx tenantID = WithValue ctx tenantIDKey (CtxString tenantID)"

text \<open>The fallback branch: the domain context set by the middleware.\<close>

definition domain_tenant :: "go_ctx \<Rightarrow> string \<times> bool" where
  "domain_tenant ctx =
     (case FromGoContext (Some ctx) of
        Ok tc \<Rightarrow> (let ident = tid_value (dc_tenantID tc) in (ident, ident \<noteq> []))
      | _ \<Rightarrow> ([], False))"

definition GetTenant :: "go_ctx \<Rightarrow> string \<times> bool" where
  "GetTenant ctx =
     (case ctx tenantIDKey of
        Some (CtxString tenantID) \<Rightarrow>
          if tenantID \<noteq> [] then (tenantID, True) else domain_tenant ctx
      | _ \<Rightarrow> domain_tenant ctx)"

definition WithoutTenantFiltering :: "go_ctx \<Rightarrow> go_ctx" where
  "WithoutTenantFiltering ctx = WithValue ctx bypassKey (CtxBool True)"

definition shouldBypass :: "go_ctx \<Rightarrow> bool" where
  "shouldBypass ctx = (case ctx bypassKey of Some (CtxBool bypass) \<Rightarrow> bypass | _ \<Rightarrow> False)"

lemmas ctx_defs = WithTenant_def WithoutTenantFiltering_def WithValue_def tenantIDKey_def
  bypassKey_def TenantContextKey_def ToGoContext_def

section \<open>Facts\<close>

text \<open>The three keys are different, so each setter leaves the other two readings alone.\<close>

lemma keys_distinct [simp]:
  "tenantIDKey \<noteq> bypassKey" "bypassKey \<noteq> tenantIDKey"
  "tenantIDKey \<noteq> TenantContextKey" "TenantContextKey \<noteq> tenantIDKey"
  "bypassKey \<noteq> TenantContextKey" "TenantContextKey \<noteq> bypassKey"
  by (simp_all add: ctx_defs)

lemma WithValue_apply [simp]: "WithValue ctx k v k' = (if k' = k then Some v else ctx k')"
  by (simp add: WithValue_def)

lemma FromGoContext_WithValue_other:
  "k \<noteq> TenantContextKey \<Longrightarrow> FromGoContext (Some (WithValue ctx k v)) = FromGoContext (Some ctx)"
  by (simp add: FromGoContext_def)

lemma GetTenant_WithTenant: "t \<noteq> [] \<Longrightarrow> GetTenant (WithTenant ctx t) = (t, True)"
  by (simp add: GetTenant_def WithTenant_def)

lemma domain_tenant_other:
  "k \<noteq> TenantContextKey \<Longrightarrow> domain_tenant (WithValue ctx k v) = domain_tenant ctx"
  by (simp add: domain_tenant_def FromGoContext_WithValue_other)

lemma domain_tenant_ToGoContext:
  "tid_value (dc_tenantID c) \<noteq> [] \<Longrightarrow>
     domain_tenant (ToGoContext c ctx) = (tid_value (dc_tenantID c), True)"
  by (simp add: domain_tenant_def FromGoContext_ToGoContext)

lemma ToGoContext_other [simp]: "k \<noteq> TenantContextKey \<Longrightarrow> ToGoContext c ctx k = ctx k"
  by (simp add: ToGoContext_def)

lemma GetTenant_ToGoContext:
  "ctx tenantIDKey = None \<Longrightarrow> tid_value (dc_tenantID c) \<noteq> [] \<Longrightarrow>
     GetTenant (ToGoContext c ctx) = (tid_value (dc_tenantID c), True)"
  by (simp add: GetTenant_def domain_tenant_ToGoContext)

lemma GetTenant_ok_nonempty: "GetTenant ctx = (t, ok) \<Longrightarrow> ok \<longleftrightarrow> t \<noteq> []"
  by (auto simp: GetTenant_def domain_tenant_def Let_def FromGoContext_Ok_iff
      split: option.splits ctx_val.splits if_splits res.splits)

lemma GetTenant_bypass: "GetTenant (WithoutTenantFiltering ctx) = GetTenant ctx"
  by (simp add: GetTenant_def WithoutTenantFiltering_def domain_tenant_other
      split: option.splits ctx_val.splits)

lemma shouldBypass_WithTenant [simp]: "shouldBypass (WithTenant ctx t) = shouldBypass ctx"
  by (simp add: shouldBypass_def WithTenant_def)

lemma shouldBypass_ToGoContext [simp]: "shouldBypass (ToGoContext c ctx) = shouldBypass ctx"
  by (simp add: shouldBypass_def ToGoContext_def)

lemma shouldBypass_without [simp]: "shouldBypass (WithoutTenantFiltering ctx)"
  by (simp add: shouldBypass_def WithoutTenantFiltering_def)


section \<open>Properties\<close>

text \<open>
  Where the tenant comes from: a tenant set by \<^verbatim>\<open>WithTenant\<close> wins over the one a middleware
  stored; without it the middleware's counts; the bypass changes neither.
\<close>

theorem tenant_precedence:
  assumes "t \<noteq> []" "tid_value (dc_tenantID c) \<noteq> []" "ctx tenantIDKey = None"
  shows "GetTenant (WithTenant (ToGoContext c ctx) t) = (t, True) \<and>
    GetTenant (ToGoContext c (WithTenant ctx t)) = (t, True) \<and>
    GetTenant (ToGoContext c ctx) = (tid_value (dc_tenantID c), True) \<and>
    GetTenant (WithoutTenantFiltering (ToGoContext c ctx)) = (tid_value (dc_tenantID c), True) \<and>
    shouldBypass (WithTenant (ToGoContext c ctx) t) = shouldBypass ctx"
  using assms GetTenant_ToGoContext [of ctx c]
  by (simp add: GetTenant_WithTenant GetTenant_bypass) (simp add: GetTenant_def WithTenant_def)

lemma tenant_precedence_witness:
  "GetTenant (WithTenant (ToGoContext \<lparr>dc_tenantID = \<lparr>tid_value = ''globex''\<rparr>, dc_userID = ''u'', dc_requestID = ''r'',
     dc_timestamp = 0\<rparr> background) ''acme'') = (''acme'', True)"
  using tenant_precedence [of "''acme''" "\<lparr>dc_tenantID = \<lparr>tid_value = ''globex''\<rparr>, dc_userID = ''u'',
      dc_requestID = ''r'', dc_timestamp = 0\<rparr>" background]
  by (simp add: background_def)

end
