(* ===== verification/System_Detector.thy ===== *)
theory System_Detector
  imports Go_Strings
begin

text \<open>
  tenantkit/system_detector.go: the statements that bypass tenant filtering (DDL, DCL, health
  checks, catalog queries).
\<close>

record detector =
  det_prefixes :: "string list"
  det_exactMatch :: "string list"
  det_substrings :: "string list"

definition NewSystemQueryDetector :: detector where
  "NewSystemQueryDetector =
     \<lparr>det_prefixes =
        [''ALTER '', ''CREATE '', ''DROP '', ''TRUNCATE '',
         ''GRANT '', ''REVOKE '',
         ''SHOW '', ''DESCRIBE '', ''EXPLAIN '',
         ''SET '',
         ''VACUUM '', ''ANALYZE '', ''REINDEX ''],
      det_exactMatch =
        [''SELECT 1'', ''SELECT NOW()'', ''SELECT VERSION()'', ''SELECT CURRENT_TIMESTAMP''],
      det_substrings =
        [''pg_catalog'', ''pg_tables'', ''pg_stat'',
         ''mysql.'', ''mysql.user'', ''mysql.db'',
         ''information_schema'',
         ''sys.'', ''sys.databases'',
         ''performance_schema'']\<rparr>"

definition IsSystemQuery :: "detector \<Rightarrow> string \<Rightarrow> bool" where
  "IsSystemQuery d query =
     (if query = [] then False
      else let normalized = trim_space query;
               upper = to_upper normalized;
               lower = to_lower normalized
           in if list_ex (\<lambda>exact. upper = exact) (det_exactMatch d) then True
              else if list_ex (\<lambda>pre. has_prefix upper pre) (det_prefixes d) then True
              else list_ex (\<lambda>sub. contains lower sub) (det_substrings d))"

section \<open>Facts\<close>

text \<open>A detector none of whose patterns is empty does not look at the empty text.\<close>

definition det_ok :: "detector \<Rightarrow> bool" where
  "det_ok d \<longleftrightarrow> [] \<notin> set (det_prefixes d) \<and> [] \<notin> set (det_exactMatch d) \<and> [] \<notin> set (det_substrings d)"

lemma det_ok_new: "det_ok NewSystemQueryDetector"
  by (simp add: det_ok_def NewSystemQueryDetector_def)

lemma IsSystemQuery_trim_empty:
  "det_ok d \<Longrightarrow> trim_space q = [] \<Longrightarrow> \<not> IsSystemQuery d q"
  by (auto simp: IsSystemQuery_def det_ok_def list_ex_iff has_prefix_def contains_def Let_def)

lemma trim_space_upper: "trim_space (to_upper s) = to_upper (trim_space s)"
  by (simp add: trim_space_def trim_by_def to_upper_def dropWhile_map rev_map comp_def)

lemma trim_space_lower: "trim_space (to_lower s) = to_lower (trim_space s)"
  by (simp add: trim_space_def trim_by_def to_lower_def dropWhile_map rev_map comp_def)

lemma IsSystemQuery_trim:
  assumes "det_ok d"
  shows "IsSystemQuery d (trim_space q) = IsSystemQuery d q"
proof (cases "trim_space q = []")
  case True
  then show ?thesis
    using IsSystemQuery_trim_empty [OF assms, of q] by (simp add: IsSystemQuery_def)
next
  case False
  then have "q \<noteq> []" by (auto simp: trim_space_def trim_by_def)
  with False show ?thesis by (simp add: IsSystemQuery_def trim_space_def)
qed

lemma IsSystemQuery_upper: "IsSystemQuery d (to_upper q) = IsSystemQuery d q"
  by (simp add: IsSystemQuery_def trim_space_upper Let_def)

lemma IsSystemQuery_lower: "IsSystemQuery d (to_lower q) = IsSystemQuery d q"
  by (simp add: IsSystemQuery_def trim_space_lower Let_def)

lemma IsSystemQuery_pad:
  assumes "det_ok d" "\<forall>c\<in>set a. is_space c" "\<forall>c\<in>set b. is_space c"
  shows "IsSystemQuery d (a @ q @ b) = IsSystemQuery d q"
proof -
  have "trim_space (a @ q @ b) = trim_space q"
    using assms(2,3) by (simp add: trim_space_def trim_by_append_left trim_by_append_right)
  then show ?thesis by (metis IsSystemQuery_trim [OF assms(1)])
qed


section \<open>Properties\<close>

text \<open>No data statement starts like a system statement.\<close>

lemma has_prefix_take: "has_prefix s p \<Longrightarrow> m \<le> length p \<Longrightarrow> take m p = take m s"
  by (auto simp: has_prefix_iff)

lemma has_prefix_both:
  assumes "has_prefix s p" "has_prefix s q"
  shows "take (min (length p) (length q)) p = take (min (length p) (length q)) q"
  using has_prefix_take [OF assms(1), of "min (length p) (length q)"]
    has_prefix_take [OF assms(2), of "min (length p) (length q)"] by simp

lemma dml_not_system_prefix:
  assumes "has_prefix u kw" "kw \<in> set [''SELECT '', ''INSERT '', ''UPDATE '', ''DELETE '']"
    "pre \<in> set (det_prefixes NewSystemQueryDetector)"
  shows "\<not> has_prefix u pre"
proof
  assume "has_prefix u pre"
  from has_prefix_both [OF assms(1) this] assms(2,3) show False
    by (auto simp: NewSystemQueryDetector_def)
qed

text \<open>
  A data statement is taken for a system query exactly if it is one of the four health checks
  or mentions a catalog name anywhere in its text, whatever its letters' case and the white space
  around it.
\<close>

theorem system_query_iff:
  assumes "has_prefix (to_upper (trim_space q)) kw"
    "kw \<in> set [''SELECT '', ''INSERT '', ''UPDATE '', ''DELETE '']"
    "\<forall>c \<in> set a. is_space c" "\<forall>c \<in> set b. is_space c"
  shows "IsSystemQuery NewSystemQueryDetector (a @ q @ b) \<longleftrightarrow>
    to_upper (trim_space q) \<in> set (det_exactMatch NewSystemQueryDetector) \<or>
    (\<exists>name \<in> set (det_substrings NewSystemQueryDetector). contains (to_lower (trim_space q)) name)"
proof -
  have "q \<noteq> []" using assms(1,2) by (auto simp: trim_space_def trim_by_def)
  moreover have "\<not> list_ex (has_prefix (to_upper (trim_space q))) (det_prefixes NewSystemQueryDetector)"
    using dml_not_system_prefix [OF assms(1,2)] by (auto simp: list_ex_iff)
  ultimately have "IsSystemQuery NewSystemQueryDetector q \<longleftrightarrow>
      to_upper (trim_space q) \<in> set (det_exactMatch NewSystemQueryDetector) \<or>
      (\<exists>name \<in> set (det_substrings NewSystemQueryDetector). contains (to_lower (trim_space q)) name)"
    by (auto simp: IsSystemQuery_def Let_def list_ex_iff)
  then show ?thesis using IsSystemQuery_pad [OF det_ok_new assms(3,4)] by simp
qed

lemma system_query_iff_witness:
  "IsSystemQuery NewSystemQueryDetector ''  select * from users where note = 7 '' \<longleftrightarrow> False"
proof -
  let ?q = "''select * from users where note = 7''"
  have p: "has_prefix (to_upper (trim_space ?q)) ''SELECT ''" by code_simp
  have k: "''SELECT '' \<in> set [''SELECT '', ''INSERT '', ''UPDATE '', ''DELETE '']" by simp
  have s: "\<forall>c \<in> set ''  ''. is_space c" "\<forall>c \<in> set '' ''. is_space c" by code_simp+
  have e: "to_upper (trim_space ?q) \<notin> set (det_exactMatch NewSystemQueryDetector)"
    "list_ex (contains (to_lower (trim_space ?q))) (det_substrings NewSystemQueryDetector) = False"
    by code_simp+
  show ?thesis using system_query_iff [OF p k s] e by (simp add: list_ex_iff)
qed

end
