(* ===== verification/Go_Regexp.thy ===== *)
theory Go_Regexp
  imports Go_Strings
begin

text \<open>
  Go's package \<^verbatim>\<open>regexp\<close>, as far as the code uses it: patterns over bytes with character classes,
  sequence, alternation, greedy repetition, capturing groups, word boundaries and the end of
  the text, matched leftmost-first (the first alternative in the order of the pattern that
  leads to a match wins), and \<^verbatim>\<open>FindAllStringSubmatch\<close>.

  A position is the byte before it and the text after it. A matcher returns the positions it
  can stop at, in the order of preference, each with its captured groups; a position reached
  a second time is dropped, which cannot change the first match that goes on to succeed.
\<close>

section \<open>Patterns\<close>

datatype rx =
    Cls "char \<Rightarrow> bool"      \<comment> \<open>one byte of a class\<close>
  | Seq rx rx
  | Alt rx rx               \<comment> \<open>\<^verbatim>\<open>a|b\<close>, and \<^verbatim>\<open>a?\<close> as \<open>Alt a Eps\<close>\<close>
  | Star rx                 \<comment> \<open>greedy \<^verbatim>\<open>a*\<close>\<close>
  | Eps
  | Grp nat rx              \<comment> \<open>capturing group number n\<close>
  | WordB                   \<comment> \<open>\<^verbatim>\<open>\b\<close>\<close>
  | EndText                 \<comment> \<open>\<^verbatim>\<open>$\<close>\<close>

definition Opt :: "rx \<Rightarrow> rx" where
  "Opt r = Alt r Eps"

definition Plus :: "rx \<Rightarrow> rx" where
  "Plus r = Seq r (Star r)"

fun Lit :: "string \<Rightarrow> rx" where
  "Lit [] = Eps"
| "Lit [c] = Cls (\<lambda>x. x = c)"
| "Lit (c # s) = Seq (Cls (\<lambda>x. x = c)) (Lit s)"

fun Cat :: "rx list \<Rightarrow> rx" where
  "Cat [] = Eps"
| "Cat [r] = r"
| "Cat (r # rs) = Seq r (Cat rs)"

fun Alts :: "rx list \<Rightarrow> rx" where
  "Alts [] = Cls (\<lambda>_. False)"
| "Alts [r] = r"
| "Alts (r # rs) = Alt r (Alts rs)"

text \<open>\<^verbatim>\<open>\w\<close> and \<^verbatim>\<open>\s\<close>; the latter is \<^verbatim>\<open>[\t\n\f\r ]\<close>.\<close>

definition word_char :: "char \<Rightarrow> bool" where
  "word_char c \<longleftrightarrow> is_lower c \<or> is_upper c \<or> is_digit c \<or> c = CHR ''_''"

definition re_space :: "char \<Rightarrow> bool" where
  "re_space c \<longleftrightarrow> code c \<in> {9, 10, 12, 13, 32 :: nat}"

lemma re_space_code [code]:
  "re_space (Char b0 b1 b2 b3 b4 b5 b6 b7) \<longleftrightarrow>
     is_space (Char b0 b1 b2 b3 b4 b5 b6 b7) \<and> \<not> (b3 \<and> \<not> b2 \<and> b1 \<and> b0)"
  by (cases b0; cases b1; cases b2; cases b3; cases b4; cases b5; cases b6; cases b7)
    (simp_all add: re_space_def is_space_code)

abbreviation W :: rx where "W \<equiv> Cls word_char"
abbreviation S :: rx where "S \<equiv> Cls re_space"

section \<open>Matching\<close>

type_synonym pos = "char option \<times> string"
type_synonym caps = "(nat \<times> string) list"

definition is_word :: "char option \<Rightarrow> bool" where
  "is_word c = (case c of None \<Rightarrow> False | Some x \<Rightarrow> word_char x)"

definition next_char :: "string \<Rightarrow> char option" where
  "next_char s = (case s of [] \<Rightarrow> None | c # _ \<Rightarrow> Some c)"

definition at_boundary :: "pos \<Rightarrow> bool" where
  "at_boundary p \<longleftrightarrow> is_word (fst p) \<noteq> is_word (next_char (snd p))"

text \<open>Drop a position that occurred before; two positions of one text are told apart by the
  length of the rest.\<close>

fun dedup :: "nat list \<Rightarrow> (pos \<times> caps) list \<Rightarrow> (pos \<times> caps) list" where
  "dedup seen [] = []"
| "dedup seen ((p, c) # ms) =
     (if length (snd p) \<in> set seen then dedup seen ms
      else (p, c) # dedup (length (snd p) # seen) ms)"

definition bind_matches ::
  "(pos \<times> caps) list \<Rightarrow> (pos \<Rightarrow> (pos \<times> caps) list) \<Rightarrow> (pos \<times> caps) list" where
  "bind_matches ms f = dedup [] (concat (map (\<lambda>(p, c). map (\<lambda>(q, d). (q, c @ d)) (f p)) ms))"

text \<open>
  A repetition tries one more round first and stopping last: the positions it can stop at are
  those of a depth-first walk, each after the ones reached from it. A round must consume a
  byte; the positions already walked (\<open>seen\<close>) are not walked again. The fuel bounds the depth
  of the walk by the length of the text.
\<close>

fun star_walk ::
  "nat \<Rightarrow> (pos \<Rightarrow> (pos \<times> caps) list) \<Rightarrow> nat list \<Rightarrow> (pos \<times> caps) list
     \<Rightarrow> (pos \<times> caps) list \<times> nat list" where
  "star_walk 0 f seen ms = ([], seen)"
| "star_walk (Suc n) f seen [] = ([], seen)"
| "star_walk (Suc n) f seen ((p, c) # ms) =
     (if length (snd p) \<in> set seen then star_walk (Suc n) f seen ms
      else let (rs1, seen1) =
                 star_walk n f seen
                   (map (\<lambda>(q, d). (q, c @ d))
                      (filter (\<lambda>(q, d). length (snd q) < length (snd p)) (f p)));
               (rs2, seen2) = star_walk (Suc n) f (length (snd p) # seen1) ms
           in (rs1 @ (p, c) # rs2, seen2))"

definition star_matches :: "(pos \<Rightarrow> (pos \<times> caps) list) \<Rightarrow> pos \<Rightarrow> (pos \<times> caps) list" where
  "star_matches f p = fst (star_walk (Suc (length (snd p))) f [] [(p, [])])"

fun matches :: "rx \<Rightarrow> pos \<Rightarrow> (pos \<times> caps) list" where
  "matches (Cls P) p =
     (case snd p of [] \<Rightarrow> [] | c # s \<Rightarrow> if P c then [((Some c, s), [])] else [])"
| "matches (Seq a b) p = bind_matches (matches a p) (matches b)"
| "matches (Alt a b) p = dedup [] (matches a p @ matches b p)"
| "matches (Star a) p = star_matches (matches a) p"
| "matches Eps p = [(p, [])]"
| "matches (Grp n a) p =
     map (\<lambda>(q, c). (q, (n, take (length (snd p) - length (snd q)) (snd p)) # c)) (matches a p)"
| "matches WordB p = (if at_boundary p then [(p, [])] else [])"
| "matches EndText p = (if snd p = [] then [(p, [])] else [])"

definition first_match :: "rx \<Rightarrow> pos \<Rightarrow> (pos \<times> caps) option" where
  "first_match r p = (case matches r p of [] \<Rightarrow> None | m # _ \<Rightarrow> Some m)"

text \<open>
  \<^verbatim>\<open>FindAllStringSubmatch(s, -1)\<close>: the leftmost match, then on from its end (none of the
  patterns matches the empty text); the result is each match's list of captured groups. The
  second argument counts the bytes a match at this place has already consumed.
\<close>

fun find_from :: "rx \<Rightarrow> nat \<Rightarrow> char option \<Rightarrow> string \<Rightarrow> caps list" where
  "find_from r skip c [] =
     (if skip = 0 then (case first_match r (c, []) of None \<Rightarrow> [] | Some (q, cs) \<Rightarrow> [cs]) else [])"
| "find_from r skip c (x # s) =
     (if 0 < skip then find_from r (skip - 1) (Some x) s
      else case first_match r (c, x # s) of
             None \<Rightarrow> find_from r 0 (Some x) s
           | Some (q, cs) \<Rightarrow> cs # find_from r (length s - length (snd q)) (Some x) s)"

definition find_all :: "rx \<Rightarrow> string \<Rightarrow> caps list" where
  "find_all r s = find_from r 0 None s"

text \<open>A group that took no part in the match is the empty string.\<close>

definition grp :: "caps \<Rightarrow> nat \<Rightarrow> string" where
  "grp cs n = (case map_of (rev cs) n of Some w \<Rightarrow> w | None \<Rightarrow> [])"

text \<open>\<^verbatim>\<open>MatchString\<close> and the first match of \<^verbatim>\<open>FindStringSubmatch\<close>.\<close>

definition find_first :: "rx \<Rightarrow> string \<Rightarrow> caps option" where
  "find_first r s = (case find_all r s of [] \<Rightarrow> None | m # _ \<Rightarrow> Some m)"

section \<open>The fuel is enough\<close>

text \<open>
  A walk needs as much fuel as the longest rest it starts from, and one more: any more gives the same.
\<close>

lemma star_walk_fuel:
  assumes "\<forall>(p, c) \<in> set ms. length (snd p) < n" "\<forall>(p, c) \<in> set ms. length (snd p) < m"
  shows "star_walk n f seen ms = star_walk m f seen ms"
  using assms
proof (induction n f seen ms arbitrary: m rule: star_walk.induct)
  case (1 f seen ms)
  then have "ms = []" by (cases ms) auto
  then show ?case by (cases m) simp_all
next
  case (2 n f seen)
  then show ?case by (cases m) simp_all
next
  case (3 n f seen p c ms)
  have "length (snd p) < m" using "3.prems"(2) by simp
  then obtain k where m: "m = Suc k" by (cases m) auto
  let ?inner = "map (\<lambda>(q, d). (q, c @ d)) (filter (\<lambda>(q, d). length (snd q) < length (snd p)) (f p))"
  show ?case
  proof (cases "length (snd p) \<in> set seen")
    case True
    then show ?thesis using "3.IH"(1) [OF True, of m] "3.prems" by (simp add: m)
  next
    case False
    have i: "star_walk n f seen ?inner = star_walk k f seen ?inner"
      using "3.prems" m by (intro "3.IH"(2) [OF False]) auto
    obtain rs seen1 where s: "star_walk k f seen ?inner = (rs, seen1)" by (cases "star_walk k f seen ?inner")
    have "star_walk (Suc n) f (length (snd p) # seen1) ms = star_walk m f (length (snd p) # seen1) ms"
      using "3.prems" i s by (intro "3.IH"(3) [OF False _ refl]) auto
    then show ?thesis using i s False by (simp add: m)
  qed
qed

lemma star_matches_fuel:
  "length (snd p) < n \<Longrightarrow> star_matches f p = fst (star_walk n f [] [(p, [])])"
  unfolding star_matches_def by (rule arg_cong [of _ _ fst], rule star_walk_fuel) simp_all

end
