(* ===== verification/Table_Extractor.thy ===== *)
theory Table_Extractor
  imports Go_Regexp
begin

text \<open>
  tenantkit/table_extractor.go: the names of the tables a query mentions, by six patterns over
  the query with its white space collapsed and its letters lowered. The map of names is a list
  without duplicates, in the order of insertion; Go's iteration order over it is arbitrary, so
  the development only speaks of the set of the names.
\<close>

text \<open>\<^verbatim>\<open>regexp.MustCompile(`\s+`).ReplaceAllString(query, " ")\<close>.\<close>

fun collapse_space :: "string \<Rightarrow> string" where
  "collapse_space [] = []"
| "collapse_space (c # s) =
     (if re_space c
      then (case s of
              d # _ \<Rightarrow> if re_space d then collapse_space s else CHR '' '' # collapse_space s
            | [] \<Rightarrow> '' '')
      else c # collapse_space s)"

definition table_name_rx :: rx where
  \<comment> \<open>\<^verbatim>\<open>(?:(\w+)\.)?(\w+)\<close>\<close>
  "table_name_rx = Seq (Opt (Seq (Grp 1 (Plus W)) (Lit ''.''))) (Grp 2 (Plus W))"

definition alias_rx :: rx where
  \<comment> \<open>\<^verbatim>\<open>(?:\s+(?:as\s+)?(\w+))?\<close>\<close>
  "alias_rx = Opt (Cat [Plus S, Opt (Seq (Lit ''as'') (Plus S)), Grp 3 (Plus W)])"

definition fromPattern :: rx where
  "fromPattern = Cat [WordB, Lit ''from'', Plus S, table_name_rx, alias_rx]"

definition joinPattern :: rx where
  "joinPattern =
     Cat [WordB,
          Opt (Alts [Seq (Lit ''inner'') (Plus S), Seq (Lit ''left'') (Plus S),
                     Seq (Lit ''right'') (Plus S), Seq (Lit ''outer'') (Plus S),
                     Seq (Lit ''cross'') (Plus S)]),
          Lit ''join'', Plus S, table_name_rx, alias_rx]"

definition insertPattern :: rx where
  "insertPattern = Cat [WordB, Lit ''insert'', Plus S, Lit ''into'', Plus S, table_name_rx]"

definition updatePattern :: rx where
  "updatePattern = Cat [WordB, Lit ''update'', Plus S, table_name_rx]"

definition deletePattern :: rx where
  "deletePattern = Cat [WordB, Lit ''delete'', Plus S, Lit ''from'', Plus S, table_name_rx]"

definition commaPattern :: rx where
  "commaPattern =
     Cat [WordB, Lit ''from'', Plus S,
          Grp 1 (Plus (Cat [Plus W, Opt (Seq (Lit ''.'') (Plus W)), Star S,
                            Opt (Cat [Lit ''as'', Plus S, Plus W]), Opt (Lit '',''), Star S])),
          Alts [Seq (Plus S) (Lit ''where''), Seq (Plus S) (Lit ''order''),
                Seq (Plus S) (Lit ''group''), Seq (Plus S) (Lit ''limit''), EndText]]"

text \<open>The names one pattern finds: group 2 of every match.\<close>

definition pattern_tables :: "rx \<Rightarrow> string \<Rightarrow> string list" where
  "pattern_tables r lower = map (\<lambda>cs. grp cs 2) (find_all r lower)"

text \<open>\<^verbatim>\<open>^(?:(\w+)\.)?(\w+)\<close> on one part of the comma-separated list.\<close>

definition part_table :: "string \<Rightarrow> string list" where
  "part_table part =
     (case first_match table_name_rx (None, trim_space part) of
        None \<Rightarrow> [] | Some (q, cs) \<Rightarrow> [grp cs 2])"

definition comma_tables :: "string \<Rightarrow> string list" where
  "comma_tables lower =
     (case find_first commaPattern lower of
        None \<Rightarrow> []
      | Some cs \<Rightarrow> concat (map part_table (split_char (grp cs 1) CHR '','')))"

definition normalize_query :: "string \<Rightarrow> string" where
  "normalize_query query = to_lower (collapse_space (trim_space query))"

definition ExtractTables :: "string \<Rightarrow> string list res" where
  "ExtractTables query =
     (if trim_space query = [] then Ok []
      else let lower = normalize_query query
           in Ok (remdups
                (pattern_tables fromPattern lower
                 @ pattern_tables joinPattern lower
                 @ pattern_tables insertPattern lower
                 @ pattern_tables updatePattern lower
                 @ pattern_tables deletePattern lower
                 @ comma_tables lower)))"

end
