(* ===== verification/Interceptor.thy ===== *)
theory Interceptor
  imports Tenant_Context System_Detector Table_Extractor
begin

text \<open>
  tenantkit/interceptor.go: the configuration and the decision whether a query is filtered
  (the two-rule system). The logger of the configuration only writes debug output and is left
  out.
\<close>

record config =
  TenantTables :: "string list"
  TenantColumn :: string

datatype decision_reason =
  ReasonSystemQuery | ReasonExplicitBypass | ReasonNoTenantTables | ReasonTenantTableAccess

record decision =
  RequiresFiltering :: bool
  Reason :: "decision_reason option"
  TenantID :: string
  ExtractedTables :: "string list"
  DecisionTenantTables :: "string list"

record interceptor =
  icpt_config :: config
  systemDetector :: detector
  tenantTableMap :: "string set"

definition NewInterceptor :: "config \<Rightarrow> interceptor res" where
  "NewInterceptor cfg =
     (if TenantTables cfg = [] then Err (NewErr ''tenantkit: TenantTables cannot be empty'')
      else let cfg = (if TenantColumn cfg = [] then cfg\<lparr>TenantColumn := ''tenant_id''\<rparr> else cfg)
           in Ok \<lparr>icpt_config = cfg,
                  systemDetector = NewSystemQueryDetector,
                  tenantTableMap = set (map to_lower (TenantTables cfg))\<rparr>)"

definition no_decision :: decision where
  "no_decision = \<lparr>RequiresFiltering = False, Reason = None, TenantID = [],
                  ExtractedTables = [], DecisionTenantTables = []\<rparr>"

definition ShouldFilter :: "interceptor \<Rightarrow> go_ctx \<Rightarrow> string \<Rightarrow> decision res" where
  "ShouldFilter i ctx query =
     (if IsSystemQuery (systemDetector i) query
      then Ok (no_decision\<lparr>Reason := Some ReasonSystemQuery\<rparr>)
      else if shouldBypass ctx
      then Ok (no_decision\<lparr>Reason := Some ReasonExplicitBypass\<rparr>)
      else case ExtractTables query of
        Err err \<Rightarrow> Err (TenantErr query [] (WrapErr ''failed to extract tables: '' err []))
      | Panic \<Rightarrow> Panic
      | Ok tables \<Rightarrow>
          let d = no_decision\<lparr>ExtractedTables := tables\<rparr> in
          if tables = [] then Ok (d\<lparr>Reason := Some ReasonNoTenantTables\<rparr>)
          else let tenantTables = filter (\<lambda>t. to_lower t \<in> tenantTableMap i) tables;
                   d = d\<lparr>DecisionTenantTables := tenantTables\<rparr> in
               if tenantTables = [] then Ok (d\<lparr>Reason := Some ReasonNoTenantTables\<rparr>)
               else case GetTenant ctx of (tenantID, ok) \<Rightarrow>
                 if \<not> ok \<or> tenantID = [] then Err (TenantErr query tenantTables ErrMissingTenant)
                 else Ok (d\<lparr>RequiresFiltering := True, TenantID := tenantID,
                            Reason := Some ReasonTenantTableAccess\<rparr>))"

section \<open>Facts\<close>

lemma ExtractTables_Ok: "\<exists>ts. ExtractTables q = Ok ts"
  by (simp add: ExtractTables_def Let_def)

definition tables_of :: "string \<Rightarrow> string list" where
  "tables_of q = (case ExtractTables q of Ok ts \<Rightarrow> ts | _ \<Rightarrow> [])"

lemma ExtractTables_tables_of: "ExtractTables q = Ok (tables_of q)"
  using ExtractTables_Ok [of q] by (auto simp: tables_of_def)

text \<open>The tenant tables a query touches, as the interceptor sees them.\<close>

definition touched :: "interceptor \<Rightarrow> string \<Rightarrow> string list" where
  "touched i q = filter (\<lambda>t. to_lower t \<in> tenantTableMap i) (tables_of q)"

text \<open>The decision, branch by branch.\<close>

lemma ShouldFilter_system:
  "IsSystemQuery (systemDetector i) q \<Longrightarrow>
     ShouldFilter i ctx q = Ok (no_decision\<lparr>Reason := Some ReasonSystemQuery\<rparr>)"
  by (simp add: ShouldFilter_def)

lemma ShouldFilter_bypass:
  "\<not> IsSystemQuery (systemDetector i) q \<Longrightarrow> shouldBypass ctx \<Longrightarrow>
     ShouldFilter i ctx q = Ok (no_decision\<lparr>Reason := Some ReasonExplicitBypass\<rparr>)"
  by (simp add: ShouldFilter_def)

lemma ShouldFilter_untouched:
  "\<not> IsSystemQuery (systemDetector i) q \<Longrightarrow> \<not> shouldBypass ctx \<Longrightarrow> touched i q = [] \<Longrightarrow>
     ShouldFilter i ctx q =
       Ok (no_decision\<lparr>ExtractedTables := tables_of q, Reason := Some ReasonNoTenantTables\<rparr>)"
  by (simp add: ShouldFilter_def ExtractTables_tables_of touched_def no_decision_def Let_def)

lemma ShouldFilter_missing:
  "\<not> IsSystemQuery (systemDetector i) q \<Longrightarrow> \<not> shouldBypass ctx \<Longrightarrow> touched i q \<noteq> [] \<Longrightarrow>
     \<not> snd (GetTenant ctx) \<Longrightarrow>
     ShouldFilter i ctx q = Err (TenantErr q (touched i q) ErrMissingTenant)"
  by (auto simp: ShouldFilter_def ExtractTables_tables_of touched_def Let_def split: prod.splits)

lemma ShouldFilter_required:
  "\<not> IsSystemQuery (systemDetector i) q \<Longrightarrow> \<not> shouldBypass ctx \<Longrightarrow> touched i q \<noteq> [] \<Longrightarrow>
     GetTenant ctx = (t, True) \<Longrightarrow>
     ShouldFilter i ctx q =
       Ok \<lparr>RequiresFiltering = True, Reason = Some ReasonTenantTableAccess, TenantID = t,
           ExtractedTables = tables_of q, DecisionTenantTables = touched i q\<rparr>"
  by (auto simp: ShouldFilter_def ExtractTables_tables_of touched_def no_decision_def Let_def
      dest: GetTenant_ok_nonempty split: prod.splits)

text \<open>The statements rule 1 is about: no system query, no bypass, a tenant table touched.\<close>

definition needs_tenant :: "interceptor \<Rightarrow> go_ctx \<Rightarrow> string \<Rightarrow> bool" where
  "needs_tenant i ctx q \<longleftrightarrow>
     \<not> IsSystemQuery (systemDetector i) q \<and> \<not> shouldBypass ctx \<and> touched i q \<noteq> []"

lemma ShouldFilter_needs_tenant:
  "needs_tenant i ctx q \<Longrightarrow> \<not> snd (GetTenant ctx) \<Longrightarrow>
     ShouldFilter i ctx q = Err (TenantErr q (touched i q) ErrMissingTenant)"
  "needs_tenant i ctx q \<Longrightarrow> GetTenant ctx = (t, True) \<Longrightarrow>
     \<exists>d. ShouldFilter i ctx q = Ok d \<and> RequiresFiltering d \<and> TenantID d = t"
  by (simp_all add: needs_tenant_def ShouldFilter_missing ShouldFilter_required)

lemma ShouldFilter_free:
  "\<not> needs_tenant i ctx q \<Longrightarrow> \<exists>d. ShouldFilter i ctx q = Ok d \<and> \<not> RequiresFiltering d"
  by (cases "IsSystemQuery (systemDetector i) q"; cases "shouldBypass ctx")
    (auto simp: needs_tenant_def ShouldFilter_system ShouldFilter_bypass ShouldFilter_untouched no_decision_def)

lemma ShouldFilter_no_panic: "ShouldFilter i ctx q \<noteq> Panic"
  by (auto simp: ShouldFilter_def ExtractTables_tables_of Let_def split: prod.splits)

lemma RequiresFiltering_iff:
  "(\<exists>d. ShouldFilter i ctx q = Ok d \<and> RequiresFiltering d \<and> TenantID d = t) \<longleftrightarrow>
     \<not> IsSystemQuery (systemDetector i) q \<and> \<not> shouldBypass ctx \<and> touched i q \<noteq> [] \<and>
     GetTenant ctx = (t, True)"
proof (cases "IsSystemQuery (systemDetector i) q \<or> shouldBypass ctx \<or> touched i q = []")
  case True
  then show ?thesis
    by (cases "IsSystemQuery (systemDetector i) q"; cases "shouldBypass ctx")
      (auto simp: ShouldFilter_system ShouldFilter_bypass ShouldFilter_untouched no_decision_def)
next
  case False
  obtain t' ok where g: "GetTenant ctx = (t', ok)" by force
  with False show ?thesis
    by (cases ok) (auto simp: ShouldFilter_missing ShouldFilter_required)
qed

end
