(* ===== verification/Sql_Driver.thy ===== *)
theory Sql_Driver
  imports Tenant_Domain
begin

text \<open>
  What the adapters use of \<^verbatim>\<open>database/sql\<close>: argument values, the calls on a \<^verbatim>\<open>*sql.DB\<close> or a
  \<^verbatim>\<open>*sql.Tx\<close>, and the row a \<^verbatim>\<open>QueryRowContext\<close> returns. The database itself is a parameter of
  the definitions that use it: a handle, and a function that runs a call on a world.
\<close>

text \<open>An argument of a query (\<^verbatim>\<open>interface{}\<close>).\<close>

datatype gval = GStr string | GInt int | GBool bool | GNil

text \<open>\<open>'c\<close> is the type of the context a call is made with.\<close>

datatype 'c sql_call =
    QueryContext 'c string "gval list"
  | QueryRowContext 'c string "gval list"
  | ExecContext 'c string "gval list"

fun call_query :: "'c sql_call \<Rightarrow> string" where
  "call_query (QueryContext c q args) = q"
| "call_query (QueryRowContext c q args) = q"
| "call_query (ExecContext c q args) = q"

fun call_args :: "'c sql_call \<Rightarrow> gval list" where
  "call_args (QueryContext c q args) = args"
| "call_args (QueryRowContext c q args) = args"
| "call_args (ExecContext c q args) = args"

text \<open>A \<^verbatim>\<open>*sql.Row\<close>: the zero value, or what the driver answered, error included.\<close>

datatype 'r row = ZeroRow | RowOf "'r res"

end
