(* ===== verification/Rewriter.thy ===== *)
theory Rewriter
  imports Interceptor Sql_Driver
begin

text \<open>
  tenantkit/wrap.go, the part that rewrites a statement: placeholders, the tables of a SELECT,
  and the four injections. An injection takes the statement and its arguments and returns the
  rewritten pair; a slice expression out of range is the result \<open>Panic\<close>.
\<close>

section \<open>Data\<close>

datatype placeholder_style = PlaceholderQuestion | PlaceholderDollar | PlaceholderColon

record table_ref =
  tr_Name :: string
  tr_Alias :: string

section \<open>Placeholders\<close>

text \<open>
  The matches of \<^verbatim>\<open>\$(\d+)\<close>: start and end offset of each, from left to right; the number
  stands from the byte after the start up to the end.
\<close>

function find_placeholders :: "nat \<Rightarrow> string \<Rightarrow> (nat \<times> nat) list" where
  "find_placeholders k [] = []"
| "find_placeholders k (c # s) =
     (let ds = takeWhile is_digit s
      in if c = CHR ''$'' \<and> ds \<noteq> []
         then (k, k + 1 + length ds) # find_placeholders (k + 1 + length ds) (drop (length ds) s)
         else find_placeholders (Suc k) s)"
  by pat_completeness auto
termination
  by (relation "measure (\<lambda>(k, s). length s)") auto

text \<open>\<^verbatim>\<open>fmt.Sscanf(ds, "%d", &n)\<close> with \<open>n\<close> 0 before: a number out of range leaves \<open>n\<close> alone.\<close>

definition sscanf_d :: "string \<Rightarrow> int" where
  "sscanf_d ds = (if int (digits_val ds) \<le> max_i64 then int (digits_val ds) else 0)"

definition placeholder_number :: "string \<Rightarrow> nat \<times> nat \<Rightarrow> int" where
  "placeholder_number query m = sscanf_d (take (snd m - (fst m + 1)) (drop (fst m + 1) query))"

definition countPlaceholders :: "placeholder_style \<Rightarrow> string \<Rightarrow> int" where
  "countPlaceholders st query =
     (case st of
        PlaceholderDollar \<Rightarrow>
          foldl (\<lambda>maxN m. let n = placeholder_number query m in if maxN < n then n else maxN)
            0 (find_placeholders 0 query)
      | PlaceholderQuestion \<Rightarrow> int (count_char query CHR ''?'')
      | PlaceholderColon \<Rightarrow> 0)"

definition placeholder :: "placeholder_style \<Rightarrow> int \<Rightarrow> string" where
  "placeholder st position =
     (case st of
        PlaceholderDollar \<Rightarrow> ''$'' @ int_str position
      | PlaceholderColon \<Rightarrow> '':'' @ int_str position
      | PlaceholderQuestion \<Rightarrow> ''?'')"

text \<open>The matches are replaced from the last to the first, so the earlier offsets stay right.\<close>

definition renumberPlaceholders :: "placeholder_style \<Rightarrow> string \<Rightarrow> int \<Rightarrow> string" where
  "renumberPlaceholders st query offset =
     (if st \<noteq> PlaceholderDollar then query
      else foldr (\<lambda>m result.
                take (fst m) result
                @ (''$'' @ int_str (add64 (placeholder_number query m) offset))
                @ drop (snd m) result)
             (find_placeholders 0 query) query)"

section \<open>The tables of a SELECT\<close>

text \<open>The loop that lowers a bound to the first occurrence of any of some keywords.\<close>

definition first_of :: "string \<Rightarrow> string list \<Rightarrow> nat \<Rightarrow> nat" where
  "first_of text keywords bound =
     foldl (\<lambda>m kw. case str_index text kw of Some p \<Rightarrow> if p < m then p else m | None \<Rightarrow> m)
       bound keywords"

definition joinKeywords :: "string list" where
  "joinKeywords =
     ['' LEFT OUTER JOIN '', '' RIGHT OUTER JOIN '', '' FULL OUTER JOIN '', '' LEFT JOIN '',
      '' RIGHT JOIN '', '' INNER JOIN '', '' CROSS JOIN '', '' NATURAL JOIN '', '' JOIN '']"

definition parseTableRef :: "string \<Rightarrow> table_ref" where
  "parseTableRef ref =
     (let ref = trim_space ref in
      if ref = [] then \<lparr>tr_Name = [], tr_Alias = []\<rparr>
      else let ref = trim_suffix ref '',''
           in case str_fields ref of
                [] \<Rightarrow> \<lparr>tr_Name = [], tr_Alias = []\<rparr>
              | [n] \<Rightarrow> \<lparr>tr_Name = n, tr_Alias = []\<rparr>
              | [n, a] \<Rightarrow> \<lparr>tr_Name = n, tr_Alias = a\<rparr>
              | n # a # b # _ \<Rightarrow>
                  \<lparr>tr_Name = n, tr_Alias = (if equal_fold a ''AS'' then b else a)\<rparr>)"

text \<open>The reference is kept only if it has a name.\<close>

definition named_ref :: "table_ref \<Rightarrow> table_ref list" where
  "named_ref t = (if tr_Name t \<noteq> [] then [t] else [])"

text \<open>The next JOIN keyword: its position and itself; none leaves the position at the end.\<close>

definition next_join :: "string \<Rightarrow> nat \<Rightarrow> nat \<times> string option" where
  "next_join upper bound =
     foldl (\<lambda>(m, k) jk. case str_index upper jk of
              Some p \<Rightarrow> if p < m then (p, Some jk) else (m, k)
            | None \<Rightarrow> (m, k))
       (bound, None) joinKeywords"

lemma next_join_fold:
  assumes "\<forall>kw. k = Some kw \<longrightarrow> kw \<noteq> [] \<and> m + length kw \<le> length upper" "[] \<notin> set kws"
    "foldl (\<lambda>(m, k) jk. case str_index upper jk of
              Some p \<Rightarrow> if p < m then (p, Some jk) else (m, k)
            | None \<Rightarrow> (m, k)) (m, k) kws = (p, Some kw)"
  shows "kw \<noteq> [] \<and> p + length kw \<le> length upper"
  using assms
proof (induction kws arbitrary: m k)
  case Nil
  then show ?case by simp
next
  case (Cons jk kws)
  obtain m' k' where mk: "(case str_index upper jk of
              Some p \<Rightarrow> if p < m then (p, Some jk) else (m, k)
            | None \<Rightarrow> (m, k)) = (m', k')" by force
  have "\<forall>kw. k' = Some kw \<longrightarrow> kw \<noteq> [] \<and> m' + length kw \<le> length upper"
    using mk Cons.prems(1,2) str_index_length [of upper jk]
    by (auto split: option.splits if_splits)
  moreover have "[] \<notin> set kws" using Cons.prems(2) by simp
  moreover have "foldl (\<lambda>(m, k) jk. case str_index upper jk of
              Some p \<Rightarrow> if p < m then (p, Some jk) else (m, k)
            | None \<Rightarrow> (m, k)) (m', k') kws = (p, Some kw)"
    using Cons.prems(3) mk by simp
  ultimately show ?case by (rule Cons.IH)
qed

lemma next_join_bound:
  "next_join upper n = (p, Some kw) \<Longrightarrow> kw \<noteq> [] \<and> p + length kw \<le> length upper"
  unfolding next_join_def by (erule next_join_fold [rotated 2]) (auto simp: joinKeywords_def)

lemma drop_shorter: "kw \<noteq> [] \<Longrightarrow> p + length kw \<le> n \<Longrightarrow> n - (k + (p + length kw)) < (n::nat)"
  by (cases kw) auto

text \<open>
  One round of the loop over the JOINs, after the keyword: the table reference up to ON or the
  next JOIN, and where the rest of the section starts.
\<close>

definition join_round :: "string \<Rightarrow> string \<Rightarrow> table_ref list \<times> nat" where
  "join_round afterJoin afterJoinUpper =
     (let onPos = str_index afterJoinUpper '' ON '';
          tableEndPos = first_of afterJoinUpper joinKeywords
            (case onPos of Some p \<Rightarrow> p | None \<Rightarrow> length afterJoin);
          joinedTable = parseTableRef (trim_space (take tableEndPos afterJoin));
          restPos =
            (case onPos of
               Some p \<Rightarrow>
                 foldl (\<lambda>m jk. case str_index (drop p afterJoinUpper) jk of
                          Some q \<Rightarrow> if p + q < m then p + q else m
                        | None \<Rightarrow> m)
                   (length afterJoin) joinKeywords
             | None \<Rightarrow> tableEndPos)
      in (named_ref joinedTable, restPos))"

text \<open>
  The loop. \<open>remaining\<close> and its upper case copy shrink together; each round passes at least the
  keyword it found.
\<close>

function join_loop :: "string \<Rightarrow> string \<Rightarrow> table_ref list" where
  "join_loop remaining remainingUpper =
     (case next_join remainingUpper (length remaining) of
        (_, None) \<Rightarrow> []
      | (nextJoinPos, Some kw) \<Rightarrow>
          let afterJoin = drop (nextJoinPos + length kw) remaining;
              afterJoinUpper = drop (nextJoinPos + length kw) remainingUpper;
              (tables, restPos) = join_round afterJoin afterJoinUpper
          in tables @ join_loop (drop restPos afterJoin) (drop restPos afterJoinUpper))"
  by pat_completeness auto
termination
  by (relation "measure (\<lambda>(r, u). length u)")
    (auto dest!: next_join_bound [OF sym] intro!: drop_shorter)

declare join_loop.simps [simp del]

text \<open>Equations that evaluate: the loop goes on only once \<open>next_join\<close> has its answer.\<close>

definition join_from :: "string \<Rightarrow> string \<Rightarrow> nat \<times> string option \<Rightarrow> table_ref list" where
  "join_from a b pk =
     (case pk of
        (_, None) \<Rightarrow> []
      | (p, Some kw) \<Rightarrow>
          let a = drop (p + length kw) a; b = drop (p + length kw) b; (ts, rest) = join_round a b
          in ts @ join_loop (drop rest a) (drop rest b))"

lemma join_from_code [code]:
  "join_from a b (p, None) = []"
  "join_from a b (p, Some kw) =
     (let a = drop (p + length kw) a; b = drop (p + length kw) b; (ts, rest) = join_round a b
      in ts @ join_loop (drop rest a) (drop rest b))"
  by (simp_all add: join_from_def)

lemma join_loop_code [code]: "join_loop a b = join_from a b (next_join b (length a))"
  by (simp only: join_loop.simps [of a b] join_from_def)

definition endMarkers :: "string list" where
  "endMarkers = ['' ORDER BY '', '' GROUP BY '', '' LIMIT '', '' HAVING '', '' UNION '']"

definition extractAllTables :: "string \<Rightarrow> table_ref list res" where
  "extractAllTables query =
     (let upper = to_upper query in
      case str_index upper '' FROM '' of
        None \<Rightarrow> Ok []
      | Some fromPos \<Rightarrow>
          let endPos = (case str_index upper '' WHERE '' of Some w \<Rightarrow> w | None \<Rightarrow> length query);
              endPos = foldl (\<lambda>e marker. case str_index (drop fromPos upper) marker of
                                Some p \<Rightarrow> if fromPos + p < e then fromPos + p else e
                              | None \<Rightarrow> e)
                         endPos endMarkers
          in res_bind (go_slice query (fromPos + 6) endPos) (\<lambda>fromSection.
             res_bind (go_slice upper (fromPos + 6) endPos) (\<lambda>fromSectionUpper.
               let firstJoinPos = first_of fromSectionUpper joinKeywords (length fromSection);
                   mainTable = parseTableRef (trim_space (take firstJoinPos fromSection))
               in Ok (named_ref mainTable @ join_loop fromSection fromSectionUpper))))"

definition is_tenant_table :: "config \<Rightarrow> table_ref \<Rightarrow> bool" where
  "is_tenant_table cfg table =
     (let tableName = to_lower (tr_Name table);
          tableName = (case last_index tableName CHR ''.'' of
                         Some dotPos \<Rightarrow> drop (dotPos + 1) tableName
                       | None \<Rightarrow> tableName)
      in list_ex (\<lambda>tenantTable. equal_fold tenantTable tableName) (TenantTables cfg))"

definition filterTenantTables :: "config \<Rightarrow> table_ref list \<Rightarrow> table_ref list" where
  "filterTenantTables cfg tables = filter (is_tenant_table cfg) tables"


section \<open>The injections\<close>

text \<open>The condition for one table: its alias or its name, the tenant column, a placeholder.\<close>

definition tenant_cond :: "config \<Rightarrow> placeholder_style \<Rightarrow> table_ref \<Rightarrow> int \<Rightarrow> string" where
  "tenant_cond cfg st table pos =
     (if tr_Alias table \<noteq> [] then tr_Alias table else tr_Name table)
     @ ''.'' @ TenantColumn cfg @ '' = '' @ placeholder st pos"

fun tenant_conds :: "config \<Rightarrow> placeholder_style \<Rightarrow> table_ref list \<Rightarrow> int \<Rightarrow> string list" where
  "tenant_conds cfg st [] pos = []"
| "tenant_conds cfg st (t # ts) pos = tenant_cond cfg st t pos # tenant_conds cfg st ts (add64 pos 1)"

definition endKeywords :: "string list" where
  "endKeywords =
     ['' ORDER BY '', '' GROUP BY '', '' LIMIT '', '' HAVING '', '' UNION '', '' EXCEPT '',
      '' INTERSECT '', '' FOR UPDATE'', '' FOR SHARE'']"

text \<open>The text of a rewritten SELECT, given the tenant condition.\<close>

definition select_text :: "string \<Rightarrow> string \<Rightarrow> string" where
  "select_text query tenantFilter =
     (let upper = to_upper query in
      case str_index upper '' WHERE '' of
        Some wherePos \<Rightarrow>
          let afterWhere = drop (wherePos + 7) query;
              afterWhereUpper = drop (wherePos + 7) upper;
              whereEndPos = first_of afterWhereUpper endKeywords (length afterWhere)
          in take (wherePos + 7) query @ tenantFilter @ '' AND (''
             @ trim_space (take whereEndPos afterWhere) @ '')'' @ drop whereEndPos afterWhere
      | None \<Rightarrow>
          let insertPos = first_of upper endKeywords (length query)
          in trim_space (take insertPos query) @ '' WHERE '' @ tenantFilter @ drop insertPos query)"

definition injectSelectFilter ::
  "config \<Rightarrow> placeholder_style \<Rightarrow> string \<Rightarrow> string \<Rightarrow> gval list \<Rightarrow> int \<Rightarrow> (string \<times> gval list) res" where
  "injectSelectFilter cfg st query tenantID args existing =
     res_bind (extractAllTables query) (\<lambda>allTables.
       let tablesToFilter = filterTenantTables cfg allTables in
       if tablesToFilter = [] then Ok (query, args)
       else let tenantArgs = replicate (length tablesToFilter) (GStr tenantID);
                newArgs = (if st = PlaceholderQuestion then tenantArgs @ args else args @ tenantArgs);
                tenantFilter =
                  str_join (tenant_conds cfg st tablesToFilter (add64 existing 1)) '' AND ''
            in Ok (select_text query tenantFilter, newArgs))"

text \<open>The text of a rewritten UPDATE or DELETE: both functions build it the same way.\<close>

definition where_text :: "config \<Rightarrow> string \<Rightarrow> string \<Rightarrow> string" where
  "where_text cfg query nextPlaceholder =
     (let upper = to_upper query in
      case str_index upper '' WHERE '' of
        Some wherePos \<Rightarrow>
          let afterWhere = drop (wherePos + 7) query;
              afterWhereUpper = drop (wherePos + 7) upper;
              whereEndPos = first_of afterWhereUpper ['' RETURNING ''] (length afterWhere)
          in take (wherePos + 7) query @ TenantColumn cfg @ '' = '' @ nextPlaceholder @ '' AND (''
             @ trim_space (take whereEndPos afterWhere) @ '')'' @ drop whereEndPos afterWhere
      | None \<Rightarrow>
         (case str_index upper '' RETURNING '' of
            Some returningPos \<Rightarrow>
              take returningPos query @ '' WHERE '' @ TenantColumn cfg @ '' = '' @ nextPlaceholder
              @ drop returningPos query
          | None \<Rightarrow> query @ '' WHERE '' @ TenantColumn cfg @ '' = '' @ nextPlaceholder))"

text \<open>The number of \<^verbatim>\<open>?\<close> of an UPDATE before its WHERE.\<close>

definition setArgCount :: "string \<Rightarrow> nat" where
  "setArgCount query =
     (case str_index (to_upper query) '' WHERE '' of
        Some wherePos \<Rightarrow> count_char (take wherePos query) CHR ''?''
      | None \<Rightarrow> count_char query CHR ''?'')"

text \<open>SET args, then the tenant \<open>n\<close> times, then WHERE args; too few args are a panic.\<close>

definition split_args :: "nat \<Rightarrow> nat \<Rightarrow> string \<Rightarrow> gval list \<Rightarrow> gval list res" where
  "split_args k n tenantID args =
     res_bind (go_slice args 0 k) (\<lambda>setArgs.
     res_bind (go_slice args k (length args)) (\<lambda>whereArgs.
       Ok (setArgs @ replicate n (GStr tenantID) @ whereArgs)))"

definition injectUpdateFilter ::
  "config \<Rightarrow> placeholder_style \<Rightarrow> string \<Rightarrow> string \<Rightarrow> gval list \<Rightarrow> int \<Rightarrow> (string \<times> gval list) res" where
  "injectUpdateFilter cfg st query tenantID args existing =
     res_bind (if st = PlaceholderQuestion then split_args (setArgCount query) 1 tenantID args
               else Ok (args @ [GStr tenantID]))
       (\<lambda>newArgs. Ok (where_text cfg query (placeholder st (add64 existing 1)), newArgs))"

definition injectDeleteFilter ::
  "config \<Rightarrow> placeholder_style \<Rightarrow> string \<Rightarrow> string \<Rightarrow> gval list \<Rightarrow> int \<Rightarrow> (string \<times> gval list) res" where
  "injectDeleteFilter cfg st query tenantID args existing =
     Ok (where_text cfg query (placeholder st (add64 existing 1)),
         if st = PlaceholderQuestion then GStr tenantID # args else args @ [GStr tenantID])"

definition columnExistsInList :: "string \<Rightarrow> string \<Rightarrow> bool" where
  "columnExistsInList columnList columnName =
     list_ex (\<lambda>col. trim_space col = columnName) (split_char (trim_chars columnList ''()'') CHR '','')"

text \<open>Cut a text at the first occurrence of a keyword, found in its upper case copy.\<close>

definition cut_at :: "string \<Rightarrow> string \<Rightarrow> string \<times> string" where
  "cut_at text keyword =
     (case str_index (to_upper text) keyword of
        Some p \<Rightarrow> (take p text, drop p text)
      | None \<Rightarrow> (text, []))"

definition injectInsertFilter ::
  "config \<Rightarrow> placeholder_style \<Rightarrow> string \<Rightarrow> string \<Rightarrow> gval list \<Rightarrow> (string \<times> gval list) res" where
  "injectInsertFilter cfg st query tenantID args =
     (let upper = to_upper query in
      case str_index upper ''INSERT INTO '' of
        None \<Rightarrow> Err (NewErr ''invalid INSERT query'')
      | Some insertPos \<Rightarrow>
      (case str_index upper '' VALUES '' of
        None \<Rightarrow> Err (NewErr ''INSERT queries must use explicit column lists for tenant filtering'')
      | Some valuesPos \<Rightarrow>
        res_bind (go_slice query (insertPos + 12) valuesPos) (\<lambda>tablePart.
          let valuesPart = drop (valuesPos + 8) query in
          case str_index tablePart ''('' of
            None \<Rightarrow> Err (NewErr ''INSERT queries must use explicit column lists for tenant filtering'')
          | Some parenPos \<Rightarrow>
              let tableName = trim_space (take parenPos tablePart);
                  columnList = drop parenPos tablePart
              in if columnExistsInList (to_upper columnList) (to_upper (TenantColumn cfg))
                 then Ok (query, args)
                 else
                   let newColumnList =
                         replace_first columnList CHR ''('' (''('' @ TenantColumn cfg @ '', '');
                       newValuesPart = renumberPlaceholders st valuesPart 1
                   in case str_index newValuesPart ''('' of
                        None \<Rightarrow> Err (NewErr ''invalid INSERT VALUES clause'')
                      | Some _ \<Rightarrow>
                          let newValuesPart =
                                replace_first newValuesPart CHR ''(''
                                  (''('' @ placeholder st 1 @ '', '');
                              (newValuesPart, returningClause) = cut_at newValuesPart '' RETURNING '';
                              (newValuesPart, onConflictClause) = cut_at newValuesPart '' ON CONFLICT ''
                          in Ok (''INSERT INTO '' @ tableName @ '' '' @ newColumnList @ '' VALUES ''
                                 @ newValuesPart @ onConflictClause @ returningClause,
                                 GStr tenantID # args))))"

end
