(* ===== verification/Rewrite_Spec.thy ===== *)
theory Rewrite_Spec
  imports Rewriter
begin

text \<open>
  What the rewriting of tenantkit/wrap.go promises. First the meaning of a statement with its
  arguments: every \<^verbatim>\<open>?\<close> stands for the next argument. The rewritten statement with its new
  arguments means the original one with the tenant's condition put before its conditions. Then
  the numbered placeholders: none of the original changes its argument, the new ones are the
  tenant's.
\<close>

section \<open>Positional placeholders\<close>

datatype piece = Ch char | Val gval

text \<open>A \<^verbatim>\<open>?\<close> without an argument stays.\<close>

fun bind_q :: "string \<Rightarrow> gval list \<Rightarrow> piece list" where
  "bind_q [] args = []"
| "bind_q (c # s) args =
     (if c = CHR ''?'' then (case args of [] \<Rightarrow> Ch c # bind_q s [] | a # as \<Rightarrow> Val a # bind_q s as)
      else Ch c # bind_q s args)"

abbreviation qmarks :: "string \<Rightarrow> nat" where
  "qmarks s \<equiv> count_char s CHR ''?''"

lemma bind_q_append:
  "qmarks s \<le> length args \<Longrightarrow> bind_q (s @ t) args = bind_q s args @ bind_q t (drop (qmarks s) args)"
proof (induction s arbitrary: args)
  case (Cons c s)
  then show ?case by (cases "c = CHR ''?''"; cases args) simp_all
qed simp

lemma bind_q_take: "qmarks s \<le> n \<Longrightarrow> bind_q s (take n args) = bind_q s args"
proof (induction s arbitrary: args n)
  case (Cons c s)
  show ?case
  proof (cases "c = CHR ''?''")
    case True
    then show ?thesis using Cons by (cases args; cases n) simp_all
  next
    case False
    then show ?thesis using Cons.IH [of n args] Cons.prems by simp
  qed
qed simp

lemma bind_q_prefix: "qmarks s \<le> length args \<Longrightarrow> bind_q s (args @ bs) = bind_q s args"
  using bind_q_take [of s "length args" "args @ bs"] by simp

lemma bind_q_plain: "qmarks s = 0 \<Longrightarrow> bind_q s args = map Ch s"
  by (induction s arbitrary: args) (simp_all split: if_splits)

text \<open>White space at the ends of a bound text.\<close>

definition blank :: "piece \<Rightarrow> bool" where
  "blank p = (case p of Ch c \<Rightarrow> is_space c | Val v \<Rightarrow> False)"

definition trim_pieces :: "piece list \<Rightarrow> piece list" where
  "trim_pieces ps = rev (dropWhile blank (rev (dropWhile blank ps)))"

lemma space_not_qmark: "is_space c \<Longrightarrow> c \<noteq> CHR ''?''"
proof
  assume "is_space c" "c = CHR ''?''"
  moreover have "\<not> is_space CHR ''?''" by code_simp
  ultimately show False by simp
qed

lemma bind_q_spaces: "\<forall>c\<in>set a. is_space c \<Longrightarrow> qmarks a = 0 \<and> bind_q a args = map Ch a"
  by (induction a arbitrary: args) (auto dest: space_not_qmark)

lemma dropWhile_bind_q: "dropWhile blank (bind_q s args) = bind_q (dropWhile is_space s) args"
proof (induction s arbitrary: args)
  case (Cons c s)
  then show ?case
    using space_not_qmark [of c] by (cases args) (auto simp: blank_def)
qed simp

lemma rev_dropWhile_bind_q:
  "qmarks s \<le> length args \<Longrightarrow>
     rev (dropWhile blank (rev (bind_q s args))) = bind_q (rev (dropWhile is_space (rev s))) args"
proof (induction s rule: rev_induct)
  case Nil
  then show ?case by simp
next
  case (snoc c s)
  have q: "qmarks s \<le> length args" using snoc.prems by (simp split: if_splits)
  show ?case
  proof (cases "is_space c")
    case True
    then show ?thesis
      using snoc.IH [OF q] bind_q_append [OF q, of "[c]"] space_not_qmark [OF True]
      by (simp add: blank_def)
  next
    case False
    then show ?thesis
      using bind_q_append [OF q, of "[c]"] snoc.prems
      by (cases "drop (qmarks s) args") (auto simp: blank_def split: if_splits)
  qed
qed

lemma trim_pieces_bind_q:
  assumes "qmarks s \<le> length args"
  shows "trim_pieces (bind_q s args) = bind_q (trim_space s) args"
proof -
  have "qmarks (dropWhile is_space s) \<le> qmarks s"
    by (induction s) (auto dest: space_not_qmark)
  then show ?thesis
    using rev_dropWhile_bind_q [of "dropWhile is_space s" args] assms
    by (simp add: trim_pieces_def dropWhile_bind_q trim_space_def trim_by_def)
qed

lemma qmarks_trim [simp]: "qmarks (trim_space s) = qmarks s"
proof -
  have "\<not> is_space CHR ''?''" by code_simp
  then show ?thesis unfolding trim_space_def by (rule count_char_trim)
qed

section \<open>Where a condition goes\<close>

text \<open>
  A statement is a text before the condition, the conditions it has (with a WHERE), and the
  rest: \<open>where_parts\<close> for an UPDATE or a DELETE, \<open>select_parts\<close> for a SELECT.
\<close>

definition cut_where :: "string \<Rightarrow> string list \<Rightarrow> (string \<times> string \<times> string) option" where
  "cut_where query ends =
     (case str_index (to_upper query) '' WHERE '' of
        None \<Rightarrow> None
      | Some p \<Rightarrow>
          let after = drop (p + 7) query;
              e = first_of (drop (p + 7) (to_upper query)) ends (length after)
          in Some (take (p + 7) query, take e after, drop e after))"

definition conjoin :: "string \<Rightarrow> string \<times> string \<times> string \<Rightarrow> string" where
  "conjoin cond parts =
     (case parts of (before, conds, rest) \<Rightarrow> before @ cond @ '' AND ('' @ trim_space conds @ '')'' @ rest)"

lemma cut_where_append: "cut_where query ends = Some (b, c, r) \<Longrightarrow> query = b @ c @ r"
  by (auto simp: cut_where_def Let_def simp del: drop_drop split: option.splits)

lemma select_text_cut:
  "select_text query f =
     (case cut_where query endKeywords of
        Some parts \<Rightarrow> conjoin f parts
      | None \<Rightarrow>
          let p = first_of (to_upper query) endKeywords (length query)
          in trim_space (take p query) @ '' WHERE '' @ f @ drop p query)"
  by (simp add: select_text_def cut_where_def conjoin_def Let_def split: option.split)

lemma where_text_cut:
  "where_text cfg query ph =
     (case cut_where query ['' RETURNING ''] of
        Some parts \<Rightarrow> conjoin (TenantColumn cfg @ '' = '' @ ph) parts
      | None \<Rightarrow>
          let p = (case str_index (to_upper query) '' RETURNING '' of Some p \<Rightarrow> p | None \<Rightarrow> length query)
          in take p query @ '' WHERE '' @ (TenantColumn cfg @ '' = '' @ ph) @ drop p query)"
  by (simp add: where_text_def cut_where_def conjoin_def Let_def split: option.split)

text \<open>The condition with the tenant's value, as pieces.\<close>

definition bound_conjoin :: "piece list \<Rightarrow> piece list \<Rightarrow> piece list \<Rightarrow> piece list \<Rightarrow> piece list" where
  "bound_conjoin before cond conds rest =
     before @ cond @ map Ch '' AND ('' @ trim_pieces conds @ map Ch '')'' @ rest"

lemma bind_q_conjoin:
  assumes "qmarks b = length a1" "qmarks cond = length ts" "qmarks c + qmarks r \<le> length a2"
  shows "bind_q (conjoin cond (b, c, r)) (a1 @ ts @ a2) =
    bound_conjoin (bind_q b a1) (bind_q cond ts) (bind_q c a2) (bind_q r (drop (qmarks c) a2))"
proof -
  have l: "qmarks '' AND ('' = 0" "qmarks '')'' = 0" by code_simp+
  have "bind_q (conjoin cond (b, c, r)) (a1 @ ts @ a2) =
      bind_q b (a1 @ ts @ a2) @ bind_q (cond @ '' AND ('' @ trim_space c @ '')'' @ r) (ts @ a2)"
    using bind_q_append [of b "a1 @ ts @ a2"] assms(1) by (simp add: conjoin_def)
  also have "bind_q b (a1 @ ts @ a2) = bind_q b a1"
    using bind_q_prefix [of b a1 "ts @ a2"] assms(1) by simp
  also have "bind_q (cond @ '' AND ('' @ trim_space c @ '')'' @ r) (ts @ a2) =
      bind_q cond ts @ bind_q ('' AND ('' @ trim_space c @ '')'' @ r) a2"
    using bind_q_append [of cond "ts @ a2"] bind_q_prefix [of cond ts a2] assms(2) by simp
  also have "bind_q ('' AND ('' @ trim_space c @ '')'' @ r) a2 =
      map Ch '' AND ('' @ bind_q (trim_space c @ '')'' @ r) a2"
    using bind_q_append [of "'' AND (''" a2] bind_q_plain [of "'' AND (''" a2] l(1) by simp
  also have "bind_q (trim_space c @ '')'' @ r) a2 =
      bind_q (trim_space c) a2 @ bind_q ('')'' @ r) (drop (qmarks c) a2)"
    using bind_q_append [of "trim_space c" a2] assms(3) by simp
  also have "bind_q ('')'' @ r) (drop (qmarks c) a2) = map Ch '')'' @ bind_q r (drop (qmarks c) a2)"
    by simp
  also have "bind_q (trim_space c) a2 = trim_pieces (bind_q c a2)"
    using trim_pieces_bind_q [of c a2] assms(3) by simp
  finally show ?thesis by (simp add: bound_conjoin_def)
qed

section \<open>The three rewritings in the positional style\<close>

lemma qmark_up_char: "up_char c = CHR ''?'' \<longleftrightarrow> c = CHR ''?''"
proof -
  have "\<not> is_lower CHR ''?''" "\<not> is_upper CHR ''?''" by code_simp+
  then show ?thesis by (rule up_char_eq_iff)
qed

lemma qmarks_to_upper: "qmarks (to_upper s) = qmarks s"
  by (induction s) (auto simp: to_upper_def qmark_up_char)

lemma cut_where_SomeD:
  assumes "cut_where query ends = Some (b, c, r)"
  shows "\<exists>p. str_index (to_upper query) '' WHERE '' = Some p \<and> b = take (p + 7) query \<and>
    qmarks b = qmarks (take p query)"
proof -
  obtain p where p: "str_index (to_upper query) '' WHERE '' = Some p" "b = take (p + 7) query"
    using assms by (auto simp: cut_where_def Let_def split: option.splits)
  let ?w = "take (length '' WHERE '') (drop p query)"
  have "qmarks (to_upper ?w) = 0"
    unfolding str_index_to_upper_split(2) [OF p(1)] by code_simp
  then have "qmarks ?w = 0" by (simp only: qmarks_to_upper)
  moreover have "b = take p query @ ?w"
    using str_index_to_upper_split(1) [OF p(1)] p(2) by (simp add: numeral_eq_Suc)
  ultimately have "qmarks b = qmarks (take p query)" by simp
  with p show ?thesis by blast
qed

lemma bind_q_parts:
  assumes "cut_where query ends = Some (b, c, r)" "qmarks query \<le> length args"
  shows "bind_q query args = bind_q b args @ bind_q c (drop (qmarks b) args)
      @ bind_q r (drop (qmarks b + qmarks c) args)"
proof -
  have q: "query = b @ c @ r" by (rule cut_where_append [OF assms(1)])
  show ?thesis
    using assms(2) bind_q_append [of b args "c @ r"] bind_q_append [of c "drop (qmarks b) args" r]
    unfolding q by (simp add: add.commute)
qed

definition tenant_pieces :: "config \<Rightarrow> string \<Rightarrow> piece list" where
  "tenant_pieces cfg t = map Ch (TenantColumn cfg @ '' = '') @ [Val (GStr t)]"

lemma bind_q_column:
  "qmarks (TenantColumn cfg) = 0 \<Longrightarrow>
     qmarks (TenantColumn cfg @ '' = '' @ placeholder PlaceholderQuestion n) = 1 \<and>
     bind_q (TenantColumn cfg @ '' = '' @ placeholder PlaceholderQuestion n) [GStr t] = tenant_pieces cfg t"
  using bind_q_append [of "TenantColumn cfg" "[GStr t]" "'' = ?''"] bind_q_plain [of "TenantColumn cfg"]
  by (simp add: placeholder_def tenant_pieces_def)

text \<open>DELETE: no argument before the WHERE.\<close>

lemma delete_bound:
  assumes "cut_where query ['' RETURNING ''] = Some (b, c, r)" "qmarks b = 0"
    "qmarks (TenantColumn cfg) = 0" "qmarks query \<le> length args"
    "injectDeleteFilter cfg PlaceholderQuestion query t args n = Ok (q', new)"
  shows "bind_q q' new = bound_conjoin (bind_q b args) (tenant_pieces cfg t)
    (bind_q c (drop (qmarks b) args)) (bind_q r (drop (qmarks b + qmarks c) args))"
proof -
  let ?cond = "TenantColumn cfg @ '' = '' @ placeholder PlaceholderQuestion (add64 n 1)"
  have q: "query = b @ c @ r" by (rule cut_where_append [OF assms(1)])
  have "q' = conjoin ?cond (b, c, r)" "new = [] @ [GStr t] @ args"
    using assms(5) by (simp_all add: injectDeleteFilter_def where_text_cut assms(1))
  then show ?thesis
    using bind_q_conjoin [of b "[]" ?cond "[GStr t]" c r args] assms(2-4)
      bind_q_column [OF assms(3), of "add64 n 1" t] bind_q_plain [OF assms(2)]
    by (simp add: q)
qed

text \<open>UPDATE: the arguments of the SET clause come first, the tenant's after them.\<close>

lemma update_bound:
  assumes "cut_where query ['' RETURNING ''] = Some (b, c, r)"
    "qmarks (TenantColumn cfg) = 0" "qmarks query \<le> length args"
  shows "\<exists>q' new. injectUpdateFilter cfg PlaceholderQuestion query t args n = Ok (q', new) \<and>
    bind_q q' new = bound_conjoin (bind_q b args) (tenant_pieces cfg t)
      (bind_q c (drop (qmarks b) args)) (bind_q r (drop (qmarks b + qmarks c) args))"
proof -
  let ?cond = "TenantColumn cfg @ '' = '' @ placeholder PlaceholderQuestion (add64 n 1)"
  let ?a1 = "take (qmarks b) args" and ?a2 = "drop (qmarks b) args"
  have q: "query = b @ c @ r" by (rule cut_where_append [OF assms(1)])
  obtain p where p: "str_index (to_upper query) '' WHERE '' = Some p" "qmarks b = qmarks (take p query)"
    using cut_where_SomeD [OF assms(1)] by blast
  then have k: "setArgCount query = qmarks b" by (simp add: setArgCount_def)
  have l: "qmarks b \<le> length args" "qmarks c + qmarks r \<le> length ?a2" using assms(3) q by simp_all
  have "injectUpdateFilter cfg PlaceholderQuestion query t args n =
      Ok (conjoin ?cond (b, c, r), ?a1 @ [GStr t] @ ?a2)"
    using l(1) by (simp add: injectUpdateFilter_def split_args_def go_slice_def k where_text_cut assms(1))
  moreover have "bind_q (conjoin ?cond (b, c, r)) (?a1 @ [GStr t] @ ?a2) =
      bound_conjoin (bind_q b args) (tenant_pieces cfg t) (bind_q c ?a2)
        (bind_q r (drop (qmarks b + qmarks c) args))"
    using bind_q_conjoin [of b ?a1 ?cond "[GStr t]" c r ?a2] l
      bind_q_column [OF assms(2), of "add64 n 1" t] bind_q_take [of b "qmarks b" args]
    by (simp add: add.commute)
  ultimately show ?thesis by metis
qed

text \<open>SELECT: one condition for each tenant table.\<close>

definition ref_name :: "table_ref \<Rightarrow> string" where
  "ref_name r = (if tr_Alias r \<noteq> [] then tr_Alias r else tr_Name r)"

fun select_pieces :: "config \<Rightarrow> table_ref list \<Rightarrow> string \<Rightarrow> piece list" where
  "select_pieces cfg [] t = []"
| "select_pieces cfg [r] t = map Ch (ref_name r @ ''.'') @ tenant_pieces cfg t"
| "select_pieces cfg (r # r' # rs) t =
     map Ch (ref_name r @ ''.'') @ tenant_pieces cfg t @ map Ch '' AND '' @ select_pieces cfg (r' # rs) t"

lemma tenant_cond_ref: "tenant_cond cfg st r n = ref_name r @ ''.'' @ TenantColumn cfg @ '' = '' @ placeholder st n"
  by (simp add: tenant_cond_def ref_name_def)

lemma tenant_conds_not_Nil: "tenant_conds cfg st (r # rs) n \<noteq> []"
  by simp

lemma bind_q_conds:
  assumes "qmarks (TenantColumn cfg) = 0" "\<forall>r \<in> set rs. qmarks (ref_name r) = 0"
  shows "qmarks (str_join (tenant_conds cfg PlaceholderQuestion rs n) '' AND '') = length rs \<and>
    bind_q (str_join (tenant_conds cfg PlaceholderQuestion rs n) '' AND '') (replicate (length rs) (GStr t)) =
      select_pieces cfg rs t"
  using assms
proof (induction rs arbitrary: n)
  case Nil
  then show ?case by simp
next
  case (Cons r rs)
  let ?c = "tenant_cond cfg PlaceholderQuestion r n"
  have q: "qmarks (ref_name r) = 0" using Cons.prems by simp
  have c: "qmarks ?c = 1" using Cons.prems by (simp add: tenant_cond_ref placeholder_def)
  have d: "qmarks (ref_name r @ ''.'' @ TenantColumn cfg @ '' = '') = 0" using Cons.prems by simp
  have b: "bind_q ?c (GStr t # as) = map Ch (ref_name r @ ''.'') @ tenant_pieces cfg t" for as
    using bind_q_append [of "ref_name r @ ''.'' @ TenantColumn cfg @ '' = ''" "GStr t # as" "''?''"]
      bind_q_plain [OF d, of "GStr t # as"] d
    by (simp add: tenant_cond_ref placeholder_def tenant_pieces_def)
  show ?case
  proof (cases rs)
    case Nil
    then show ?thesis using c b [of "[]"] by simp
  next
    case (Cons r' rs')
    let ?rest = "str_join (tenant_conds cfg PlaceholderQuestion rs (add64 n 1)) '' AND ''"
    have IH: "qmarks ?rest = length rs" "bind_q ?rest (replicate (length rs) (GStr t)) = select_pieces cfg rs t"
      using Cons.IH [of "add64 n 1"] Cons.prems by simp_all
    have j: "str_join (tenant_conds cfg PlaceholderQuestion (r # rs) n) '' AND '' = ?c @ '' AND '' @ ?rest"
      using Cons by (simp add: str_join_Cons)
    have "bind_q (?c @ '' AND '' @ ?rest) (GStr t # replicate (length rs) (GStr t)) =
        bind_q ?c (GStr t # replicate (length rs) (GStr t))
        @ bind_q ('' AND '' @ ?rest) (replicate (length rs) (GStr t))"
      using bind_q_append [of ?c "GStr t # replicate (length rs) (GStr t)" "'' AND '' @ ?rest"] c by simp
    also have "bind_q ('' AND '' @ ?rest) (replicate (length rs) (GStr t)) =
        map Ch '' AND '' @ select_pieces cfg rs t"
      using IH(2) by simp
    finally have "bind_q (?c @ '' AND '' @ ?rest) (replicate (length (r # rs)) (GStr t)) =
        select_pieces cfg (r # rs) t"
      using b Cons by simp
    then show ?thesis using j c IH(1) by simp
  qed
qed

lemma select_bound:
  assumes "cut_where query endKeywords = Some (b, c, r)" "qmarks b = 0"
    "qmarks (TenantColumn cfg) = 0" "qmarks query \<le> length args"
    "extractAllTables query = Ok ts" "rs = filterTenantTables cfg ts" "rs \<noteq> []"
    "\<forall>x \<in> set rs. qmarks (ref_name x) = 0"
  shows "\<exists>q' new. injectSelectFilter cfg PlaceholderQuestion query t args n = Ok (q', new) \<and>
    bind_q q' new = bound_conjoin (bind_q b args) (select_pieces cfg rs t)
      (bind_q c (drop (qmarks b) args)) (bind_q r (drop (qmarks b + qmarks c) args))"
proof -
  let ?cond = "str_join (tenant_conds cfg PlaceholderQuestion rs (add64 n 1)) '' AND ''"
  let ?ts = "replicate (length rs) (GStr t)"
  have q: "query = b @ c @ r" by (rule cut_where_append [OF assms(1)])
  have "injectSelectFilter cfg PlaceholderQuestion query t args n =
      Ok (conjoin ?cond (b, c, r), [] @ ?ts @ args)"
    using assms(5-7) by (simp add: injectSelectFilter_def select_text_cut assms(1) Let_def)
  moreover have "bind_q (conjoin ?cond (b, c, r)) ([] @ ?ts @ args) =
      bound_conjoin (bind_q b args) (select_pieces cfg rs t)
        (bind_q c (drop (qmarks b) args)) (bind_q r (drop (qmarks b + qmarks c) args))"
    using bind_q_conjoin [of b "[]" ?cond ?ts c r args] assms(2,4)
      bind_q_conds [OF assms(3,8), of "add64 n 1" t] bind_q_plain [OF assms(2)]
    by (simp add: q)
  ultimately show ?thesis by blast
qed

section \<open>Numbered placeholders\<close>

text \<open>The numbers of the placeholders of a statement, from left to right.\<close>

fun numbers :: "string \<Rightarrow> int list" where
  "numbers [] = []"
| "numbers (c # s) =
     (let ds = takeWhile is_digit s
      in if c = CHR ''$'' \<and> ds \<noteq> [] then sscanf_d ds # numbers s else numbers s)"

lemma dollar_not_digit [simp]: "\<not> is_digit CHR ''$''"
  by code_simp

lemma numbers_skip_digits: "\<forall>c\<in>set ds. is_digit c \<Longrightarrow> numbers (ds @ s) = numbers s"
  by (induction ds) (auto simp: Let_def)

lemma numbers_drop: "numbers (drop (length (takeWhile is_digit s)) s) = numbers s"
proof -
  have "numbers (takeWhile is_digit s @ drop (length (takeWhile is_digit s)) s) =
      numbers (drop (length (takeWhile is_digit s)) s)"
    by (rule numbers_skip_digits) (auto dest: set_takeWhileD)
  then show ?thesis by (simp add: dropWhile_eq_drop [symmetric])
qed

lemma placeholder_numbers_at:
  "length pre = k \<Longrightarrow> map (placeholder_number (pre @ s)) (find_placeholders k s) = numbers s"
proof (induction k s arbitrary: pre rule: find_placeholders.induct)
  case (1 k)
  then show ?case by simp
next
  case (2 k c s)
  let ?ds = "takeWhile is_digit s" and ?rest = "drop (length (takeWhile is_digit s)) s"
  have s: "s = ?ds @ ?rest" by (simp add: dropWhile_eq_drop [symmetric])
  show ?case
  proof (cases "c = CHR ''$'' \<and> ?ds \<noteq> []")
    case False
    then show ?thesis using "2.IH"(2) [OF refl, of "pre @ [c]"] "2.prems" by (auto simp: Let_def)
  next
    case True
    have "map (placeholder_number ((pre @ c # ?ds) @ ?rest)) (find_placeholders (k + 1 + length ?ds) ?rest) = numbers ?rest"
      using "2.IH"(1) [OF refl True, of "pre @ c # ?ds"] "2.prems" by simp
    then have "map (placeholder_number (pre @ c # s)) (find_placeholders (k + 1 + length ?ds) ?rest) = numbers s"
      using numbers_drop [of s] s by simp
    moreover have "placeholder_number (pre @ c # s) (k, k + 1 + length ?ds) = sscanf_d ?ds"
      using "2.prems" by (simp add: placeholder_number_def takeWhile_eq_take [symmetric])
    ultimately show ?thesis using True by (simp add: Let_def)
  qed
qed

lemma placeholder_numbers: "map (placeholder_number s) (find_placeholders 0 s) = numbers s"
  using placeholder_numbers_at [of "[]" 0 s] by simp

text \<open>The count is a bound on the numbers, and it is one of them unless there are none.\<close>

lemma foldl_max_bound:
  "\<forall>m \<in> set ms. f m \<le> foldl (\<lambda>a m. if a < f m then f m else a) z ms"
  "(z::int) \<le> foldl (\<lambda>a m. if a < f m then f m else a) z ms"
proof -
  have "z \<le> foldl (\<lambda>a m. if a < f m then f m else a) z ms \<and>
      (\<forall>m \<in> set ms. f m \<le> foldl (\<lambda>a m. if a < f m then f m else a) z ms)"
  proof (induction ms arbitrary: z)
    case (Cons m ms)
    show ?case
      using Cons.IH [of "if z < f m then f m else z"] by (auto split: if_splits)
  qed simp
  then show "\<forall>m \<in> set ms. f m \<le> foldl (\<lambda>a m. if a < f m then f m else a) z ms"
    "(z::int) \<le> foldl (\<lambda>a m. if a < f m then f m else a) z ms" by simp_all
qed

lemma countPlaceholders_bound:
  "n \<in> set (numbers q) \<Longrightarrow> n \<le> countPlaceholders PlaceholderDollar q"
proof -
  assume "n \<in> set (numbers q)"
  then obtain m where "m \<in> set (find_placeholders 0 q)" "n = placeholder_number q m"
    by (auto simp: placeholder_numbers [symmetric])
  then show ?thesis
    using foldl_max_bound(1) [of "find_placeholders 0 q" "placeholder_number q" 0]
    by (simp add: countPlaceholders_def Let_def)
qed

lemma countPlaceholders_nonneg: "0 \<le> countPlaceholders PlaceholderDollar q"
  using foldl_max_bound(2) [of 0 "placeholder_number q" "find_placeholders 0 q"]
  by (simp add: countPlaceholders_def Let_def)

section \<open>The meaning of numbered placeholders\<close>

text \<open>\<^verbatim>\<open>$n\<close> stands for argument \<open>n\<close>, counted from 1; one without an argument stays.\<close>

function bind_d :: "gval list \<Rightarrow> string \<Rightarrow> piece list" where
  "bind_d args [] = []"
| "bind_d args (c # s) =
     (let ds = takeWhile is_digit s; n = sscanf_d ds
      in if c = CHR ''$'' \<and> ds \<noteq> []
         then (if 1 \<le> n \<and> n \<le> int (length args) then [Val (args ! nat (n - 1))] else map Ch (c # ds))
              @ bind_d args (drop (length ds) s)
         else Ch c # bind_d args s)"
  by pat_completeness auto
termination
  by (relation "measure (\<lambda>(args, s). length s)") auto

declare bind_d.simps(2) [simp del]

lemma bind_d_other: "c \<noteq> CHR ''$'' \<Longrightarrow> bind_d args (c # s) = Ch c # bind_d args s"
  by (simp add: bind_d.simps(2) Let_def)

text \<open>More arguments change nothing for a statement whose numbers are in range.\<close>

lemma bind_d_more:
  "\<forall>n \<in> set (numbers s). n \<le> int (length args) \<Longrightarrow> bind_d (args @ bs) s = bind_d args s"
proof (induction args s rule: bind_d.induct)
  case (1 args)
  then show ?case by simp
next
  case (2 args c s)
  let ?ds = "takeWhile is_digit s"
  show ?case
  proof (cases "c = CHR ''$'' \<and> ?ds \<noteq> []")
    case False
    then have "numbers (c # s) = numbers s" by (simp add: Let_def)
    then show ?thesis using "2.IH"(2) [OF refl refl False] "2.prems" False by (auto simp: bind_d.simps(2) Let_def)
  next
    case True
    then have n: "numbers (c # s) = sscanf_d ?ds # numbers s" by (simp add: Let_def)
    then have "bind_d (args @ bs) (drop (length ?ds) s) = bind_d args (drop (length ?ds) s)"
      using "2.IH"(1) [OF refl refl True] "2.prems" by (simp add: numbers_drop)
    then show ?thesis
      using True "2.prems" n by (auto simp: bind_d.simps(2) Let_def nth_append)
  qed
qed

text \<open>A statement is bound piece by piece where no number runs over the seam.\<close>

definition seam :: "string \<Rightarrow> string \<Rightarrow> bool" where
  "seam x y \<longleftrightarrow> y = [] \<or> \<not> is_digit (hd y) \<or> x = [] \<or> (\<not> is_digit (last x) \<and> last x \<noteq> CHR ''$'')"

lemma takeWhile_seam:
  "y = [] \<or> \<not> P (hd y) \<or> x \<noteq> [] \<and> \<not> P (last x) \<Longrightarrow> takeWhile P (x @ y) = takeWhile P x"
  by (induction x) (cases y; auto split: if_splits)+

lemma bind_d_append: "seam x y \<Longrightarrow> bind_d args (x @ y) = bind_d args x @ bind_d args y"
proof (induction args x rule: bind_d.induct)
  case (1 args)
  then show ?case by simp
next
  case (2 args c s)
  let ?ds = "takeWhile is_digit s"
  have tw: "takeWhile is_digit (s @ y) = ?ds" if "c = CHR ''$''"
  proof (rule takeWhile_seam)
    show "y = [] \<or> \<not> is_digit (hd y) \<or> s \<noteq> [] \<and> \<not> is_digit (last s)"
      using "2.prems" that by (cases s) (auto simp: seam_def)
  qed
  show ?case
  proof (cases "c = CHR ''$'' \<and> ?ds \<noteq> []")
    case False
    have "seam s y" using "2.prems" by (cases s) (auto simp: seam_def)
    then have "bind_d args (s @ y) = bind_d args s @ bind_d args y"
      using "2.IH"(2) [OF refl refl False] by simp
    then show ?thesis using False tw by (auto simp: bind_d.simps(2) Let_def)
  next
    case True
    let ?rest = "drop (length ?ds) s"
    have l: "length ?ds \<le> length s" by (rule length_takeWhile_le)
    have "seam ?rest y"
    proof (cases "?rest = []")
      case False
      then have "last ?rest = last (c # s)" by (cases s rule: rev_cases) (auto simp: last_drop)
      then show ?thesis using "2.prems" by (auto simp: seam_def)
    qed (simp add: seam_def)
    then have "bind_d args (?rest @ y) = bind_d args ?rest @ bind_d args y"
      using "2.IH"(1) [OF refl refl True] by simp
    then show ?thesis using True tw l by (auto simp: bind_d.simps(2) Let_def)
  qed
qed

lemma bind_d_plain: "CHR ''$'' \<notin> set s \<Longrightarrow> bind_d args s = map Ch s"
  by (induction s) (auto simp: bind_d_other)

lemma space_not_special: "is_space c \<Longrightarrow> c \<noteq> CHR ''$'' \<and> \<not> is_digit c"
proof (rule ccontr)
  assume s: "is_space c" and "\<not> (c \<noteq> CHR ''$'' \<and> \<not> is_digit c)"
  then consider "c = CHR ''$''" | "is_digit c" by blast
  then show False
  proof cases
    case 1
    have "\<not> is_space CHR ''$''" by code_simp
    with 1 s show False by simp
  next
    case 2
    with s show False by (auto simp: is_space_def is_digit_def)
  qed
qed

lemma bind_d_spaces: "\<forall>c\<in>set a. is_space c \<Longrightarrow> bind_d args a = map Ch a"
  by (rule bind_d_plain) (auto dest: space_not_special)

lemma dropWhile_blank: "\<forall>c\<in>set a. is_space c \<Longrightarrow> dropWhile blank (map Ch a @ ps) = dropWhile blank ps"
  by (induction a) (auto simp: blank_def)

lemma hd_bind_d: "s \<noteq> [] \<Longrightarrow> bind_d args s \<noteq> [] \<and> (\<not> is_space (hd s) \<longrightarrow> \<not> blank (hd (bind_d args s)))"
proof (cases s)
  case (Cons c s')
  have "\<not> is_space CHR ''$''" by code_simp
  with Cons show ?thesis by (auto simp: bind_d.simps(2) Let_def blank_def)
qed simp

lemma last_bind_d: "s \<noteq> [] \<Longrightarrow> \<not> is_space (last s) \<Longrightarrow> \<not> blank (last (bind_d args s))"
proof (induction args s rule: bind_d.induct)
  case (2 args c s)
  let ?ds = "takeWhile is_digit s"
  show ?case
  proof (cases "c = CHR ''$'' \<and> ?ds \<noteq> []")
    case False
    then show ?thesis
      using "2.IH"(2) [OF refl refl False] "2.prems"(2) hd_bind_d [of s args]
      by (cases "s = []") (auto simp: bind_d.simps(2) Let_def blank_def)
  next
    case True
    let ?rest = "drop (length ?ds) s"
    show ?thesis
    proof (cases "?rest = []")
      case False
      then have "last ?rest = last (c # s)" by (cases s rule: rev_cases) (auto simp: last_drop)
      then have "\<not> blank (last (bind_d args ?rest))"
        using "2.IH"(1) [OF refl refl True False] "2.prems"(2) by simp
      then show ?thesis
        using True hd_bind_d [OF False, of args] by (auto simp: bind_d.simps(2) Let_def)
    next
      case rest: True
      have "is_digit (last ?ds)" using True last_in_set [of ?ds] set_takeWhileD by fastforce
      then have "\<not> is_space (last ?ds)" using space_not_special by blast
      then show ?thesis using True rest by (auto simp: bind_d.simps(2) Let_def blank_def last_map)
    qed
  qed
qed simp

lemma trim_pieces_bind_d: "trim_pieces (bind_d args s) = bind_d args (trim_space s)"
proof -
  obtain a b where s: "s = a @ trim_space s @ b" "\<forall>c\<in>set a. is_space c" "\<forall>c\<in>set b. is_space c"
    using trim_by_decomp [of s is_space] unfolding trim_space_def by blast
  let ?t = "trim_space s"
  have "seam (?t) b" using s(3) by (cases b) (auto simp: seam_def dest: space_not_special)
  moreover have "seam a (?t @ b)"
    using s(2) by (cases a rule: rev_cases) (auto simp: seam_def dest: space_not_special)
  ultimately have b: "bind_d args s = map Ch a @ bind_d args ?t @ map Ch b"
    using bind_d_append [of a "?t @ b" args] bind_d_append [of ?t b args] bind_d_spaces s by metis
  show ?thesis
  proof (cases "?t = []")
    case True
    then have e: "bind_d args s = map Ch a @ map Ch b" using b by simp
    have d: "dropWhile blank (map Ch a @ map Ch b) = []"
      using s(2,3) by (auto simp: dropWhile_eq_Nil_conv blank_def)
    show ?thesis unfolding trim_pieces_def e d by (simp add: True)
  next
    case False
    have h: "\<not> is_space (hd ?t)" "\<not> is_space (last ?t)"
      using trim_by_hd_last [of is_space s] False unfolding trim_space_def by auto
    have n: "bind_d args ?t \<noteq> []" "\<not> blank (hd (bind_d args ?t))" "\<not> blank (last (bind_d args ?t))"
      using hd_bind_d [OF False, of args] last_bind_d [OF False h(2), of args] h(1) by auto
    have "dropWhile blank (bind_d args s) = bind_d args ?t @ map Ch b"
      unfolding b dropWhile_blank [OF s(2)] using n by (cases "bind_d args ?t") auto
    moreover have "rev (map Ch b) = map Ch (rev b)" by (simp add: rev_map)
    ultimately have "dropWhile blank (rev (dropWhile blank (bind_d args s))) =
        dropWhile blank (rev (bind_d args ?t))"
      using dropWhile_blank [of "rev b" "rev (bind_d args ?t)"] s(3) by simp
    moreover have "dropWhile blank (rev (bind_d args ?t)) = rev (bind_d args ?t)"
      using n by (cases "bind_d args ?t" rule: rev_cases) auto
    ultimately show ?thesis by (simp add: trim_pieces_def)
  qed
qed

text \<open>The conjunction of a condition, with the arguments of both.\<close>

lemma bind_d_conjoin:
  assumes "b \<noteq> []" "is_space (last b)" "r = [] \<or> is_space (hd r)"
  shows "bind_d args (conjoin cond (b, c, r)) =
    bound_conjoin (bind_d args b) (bind_d args cond) (bind_d args c) (bind_d args r)"
proof -
  have plain: "bind_d args '' AND ('' = map Ch '' AND (''" "bind_d args '')'' = map Ch '')''"
    by (simp_all add: bind_d_other)
  have nd: "\<not> is_digit CHR '' ''" "\<not> is_digit CHR ''(''" "\<not> is_digit CHR '')''" by code_simp+
  have s1: "seam b (cond @ '' AND ('' @ trim_space c @ '')'' @ r)"
    using space_not_special [OF assms(2)] by (simp add: seam_def)
  have s2: "seam cond ('' AND ('' @ trim_space c @ '')'' @ r)" using nd by (simp add: seam_def)
  have s3: "seam '' AND ('' (trim_space c @ '')'' @ r)" using nd by (simp add: seam_def)
  have s4: "seam (trim_space c) ('')'' @ r)" using nd by (simp add: seam_def)
  have s5: "seam '')'' r" using nd by (simp add: seam_def)
  show ?thesis
    unfolding conjoin_def prod.case bind_d_append [OF s1] bind_d_append [OF s2] bind_d_append [OF s3]
      bind_d_append [OF s4] bind_d_append [OF s5] plain
    by (simp add: bound_conjoin_def trim_pieces_bind_d)
qed

text \<open>The text before the conditions ends in a blank, the rest starts with one.\<close>

lemma up_char_space: "is_space (up_char c) = is_space c"
  by simp

lemma first_of_attained:
  "first_of s kws m = m \<or> (\<exists>kw \<in> set kws. str_index s kw = Some (first_of s kws m))"
proof (induction kws arbitrary: m)
  case Nil
  then show ?case by (simp add: first_of_def)
next
  case (Cons kw kws)
  let ?m = "case str_index s kw of Some p \<Rightarrow> if p < m then p else m | None \<Rightarrow> m"
  have "first_of s (kw # kws) m = first_of s kws ?m" by (simp add: first_of_def)
  then show ?case using Cons.IH [of ?m] by (auto split: option.splits if_splits)
qed

lemma cut_where_seams:
  assumes "cut_where query ends = Some (b, c, r)" "\<forall>kw \<in> set ends. kw \<noteq> [] \<and> hd kw = CHR '' ''"
  shows "b \<noteq> [] \<and> is_space (last b) \<and> (r = [] \<or> is_space (hd r))"
proof -
  have sp: "is_space CHR '' ''" by code_simp
  obtain p where p: "str_index (to_upper query) '' WHERE '' = Some p" "b = take (p + 7) query"
    and r: "r = drop (first_of (drop (p + 7) (to_upper query)) ends (length query - (p + 7))) (drop (p + 7) query)"
    using assms(1) by (auto simp: cut_where_def Let_def split: option.splits)
  have pl: "p + 7 \<le> length query" using str_index_length [OF p(1)] by simp
  let ?w = "take (length '' WHERE '') (drop p query)"
  have w: "to_upper ?w = '' WHERE ''" by (rule str_index_to_upper_split(2) [OF p(1)])
  have b: "b = take p query @ ?w" using str_index_to_upper_split(1) [OF p(1)] p(2) by (simp add: numeral_eq_Suc)
  have ne: "?w \<noteq> []" using w by auto
  have "up_char (last ?w) = last (to_upper ?w)" using ne unfolding to_upper_def by (rule last_map [symmetric])
  then have "is_space (last ?w)" unfolding w using sp up_char_space [of "last ?w"] by simp
  then have 1: "b \<noteq> [] \<and> is_space (last b)" using b ne by simp
  let ?u = "drop (p + 7) query"
  let ?e = "first_of (to_upper ?u) ends (length ?u)"
  have re: "r = drop ?e ?u" using r by (simp add: to_upper_drop)
  have "r = [] \<or> is_space (hd r)"
  proof (cases "?e = length ?u")
    case True
    then show ?thesis by (simp add: re)
  next
    case False
    then obtain kw where kw: "kw \<in> set ends" "str_index (to_upper ?u) kw = Some ?e"
      using first_of_attained [of "to_upper ?u" ends "length ?u"] by blast
    then have k: "kw \<noteq> []" "hd kw = CHR '' ''" using assms(2) by simp_all
    have "has_prefix (drop ?e (to_upper ?u)) kw" using str_index_SomeD [OF kw(2)] by blast
    then obtain z where z: "to_upper (drop ?e ?u) = kw @ z" by (auto simp: has_prefix_iff to_upper_drop)
    then have ne: "drop ?e ?u \<noteq> []" using k(1) by auto
    have "up_char (hd (drop ?e ?u)) = hd (to_upper (drop ?e ?u))"
      using ne unfolding to_upper_def by (rule hd_map [symmetric])
    then have "up_char (hd (drop ?e ?u)) = CHR '' ''" unfolding z using k by simp
    then show ?thesis unfolding re using sp up_char_space [of "hd (drop ?e ?u)"] by simp
  qed
  with 1 show ?thesis by blast
qed

section \<open>The three rewritings in the numbered style\<close>

lemma int_str_digits: "0 \<le> n \<Longrightarrow> takeWhile is_digit (int_str n) = int_str n \<and> int_str n \<noteq> []"
  by (auto simp: int_str_def takeWhile_eq_all_conv dest: nat_str_digits)

lemma sscanf_int_str: "0 \<le> n \<Longrightarrow> n \<le> max_i64 \<Longrightarrow> sscanf_d (int_str n) = n"
  by (simp add: sscanf_d_def int_str_def)

lemma bind_d_placeholder:
  assumes "1 \<le> n" "n \<le> int (length args)" "n \<le> max_i64"
  shows "bind_d args (placeholder PlaceholderDollar n) = [Val (args ! nat (n - 1))]"
proof -
  have tw: "takeWhile is_digit (int_str n) = int_str n" and ne: "int_str n \<noteq> []"
    using int_str_digits [of n] assms(1) by simp_all
  have num: "sscanf_d (int_str n) = n" using assms by (intro sscanf_int_str) simp_all
  have "placeholder PlaceholderDollar n = CHR ''$'' # int_str n" by (simp add: placeholder_def)
  then show ?thesis
    unfolding bind_d.simps(2) Let_def tw num using assms(1,2) ne
    by (simp only: bind_d.simps(2) Let_def tw num) simp
qed

lemma seam_text: "\<not> is_digit (last x) \<Longrightarrow> last x \<noteq> CHR ''$'' \<Longrightarrow> seam x y"
  by (simp add: seam_def)

lemma bind_d_eq_placeholder:
  assumes "CHR ''$'' \<notin> set col" "1 \<le> n" "n \<le> int (length args)" "n \<le> max_i64"
  shows "bind_d args (col @ '' = '' @ placeholder PlaceholderDollar n) =
    map Ch (col @ '' = '') @ [Val (args ! nat (n - 1))]"
proof -
  have "\<not> is_digit CHR '' ''" by code_simp
  then have "seam (col @ '' = '') (placeholder PlaceholderDollar n)" by (intro seam_text) simp_all
  moreover have "CHR ''$'' \<notin> set (col @ '' = '')" using assms(1) by simp
  ultimately show ?thesis
    using bind_d_append [of "col @ '' = ''" "placeholder PlaceholderDollar n" args]
      bind_d_plain [of "col @ '' = ''" args] bind_d_placeholder [OF assms(2-4)] by simp
qed

text \<open>
  The arguments of a call: as many as the highest number, as the driver demands. Then the new
  numbers start after them.
\<close>

definition args_fit :: "string \<Rightarrow> gval list \<Rightarrow> bool" where
  "args_fit query args \<longleftrightarrow> int (length args) = countPlaceholders PlaceholderDollar query"

lemma numbers_append: "seam x y \<Longrightarrow> numbers (x @ y) = numbers x @ numbers y"
proof (induction x)
  case (Cons c x)
  have s: "seam x y" using Cons.prems by (cases x) (auto simp: seam_def)
  have "takeWhile is_digit (x @ y) = takeWhile is_digit x" if "c = CHR ''$''"
    using Cons.prems that by (intro takeWhile_seam) (cases x; auto simp: seam_def)
  then show ?case using Cons.IH [OF s] by (auto simp: Let_def)
qed simp

lemma numbers_fit:
  "args_fit query args \<Longrightarrow> n \<in> set (numbers query) \<Longrightarrow> n \<le> int (length args)"
  using countPlaceholders_bound by (simp add: args_fit_def)

text \<open>The original statement, cut at its conditions, keeps its arguments under more of them.\<close>

lemma bind_d_parts:
  assumes "cut_where query ends = Some (b, c, r)" "\<forall>kw \<in> set ends. kw \<noteq> [] \<and> hd kw = CHR '' ''"
    "args_fit query args"
  shows "bind_d args query = bind_d args b @ bind_d args c @ bind_d args r"
    "bind_d (args @ bs) b = bind_d args b" "bind_d (args @ bs) c = bind_d args c"
    "bind_d (args @ bs) r = bind_d args r"
proof -
  have q: "query = b @ c @ r" by (rule cut_where_append [OF assms(1)])
  note e = cut_where_seams [OF assms(1,2)]
  have s1: "seam b (c @ r)" using e space_not_special by (auto simp: seam_def)
  have s2: "seam c r" using e space_not_special by (auto simp: seam_def)
  show "bind_d args query = bind_d args b @ bind_d args c @ bind_d args r"
    unfolding q bind_d_append [OF s1] bind_d_append [OF s2] by simp
  have n: "set (numbers b) \<union> set (numbers c) \<union> set (numbers r) = set (numbers query)"
    unfolding q numbers_append [OF s1] numbers_append [OF s2] by auto
  show "bind_d (args @ bs) b = bind_d args b" "bind_d (args @ bs) c = bind_d args c"
    "bind_d (args @ bs) r = bind_d args r"
    using n numbers_fit [OF assms(3)] by (auto intro!: bind_d_more)
qed

lemma where_bound_d:
  assumes "cut_where query ['' RETURNING ''] = Some (b, c, r)" "args_fit query args"
    "CHR ''$'' \<notin> set (TenantColumn cfg)" "int (length args) < max_i64"
  shows "bind_d (args @ [GStr t]) (where_text cfg query
      (placeholder PlaceholderDollar (add64 (countPlaceholders PlaceholderDollar query) 1))) =
    bound_conjoin (bind_d args b) (tenant_pieces cfg t) (bind_d args c) (bind_d args r)"
proof -
  have ends: "\<forall>kw \<in> set ['' RETURNING '']. kw \<noteq> [] \<and> hd kw = CHR '' ''" by simp
  have n: "add64 (countPlaceholders PlaceholderDollar query) 1 = int (length args) + 1"
    using assms(2,4) by (simp add: args_fit_def add64_exact i64_defs)
  have "bind_d (args @ [GStr t]) (TenantColumn cfg @ '' = '' @ placeholder PlaceholderDollar (int (length args) + 1)) =
      tenant_pieces cfg t"
    using bind_d_eq_placeholder [OF assms(3), of "int (length args) + 1" "args @ [GStr t]"] assms(4)
    by (simp add: tenant_pieces_def)
  then show ?thesis
    using cut_where_seams [OF assms(1) ends] bind_d_parts(2-4) [OF assms(1) ends assms(2), of "[GStr t]"]
    by (simp add: where_text_cut assms(1) n bind_d_conjoin)
qed

lemma bind_d_conds:
  assumes "CHR ''$'' \<notin> set (TenantColumn cfg)" "\<forall>r \<in> set rs. CHR ''$'' \<notin> set (ref_name r)"
    "0 \<le> n" "n + int (length rs) \<le> int (length args)" "int (length args) \<le> max_i64"
    "\<forall>i < length rs. args ! nat (n + int i) = GStr t"
  shows "bind_d args (str_join (tenant_conds cfg PlaceholderDollar rs (n + 1)) '' AND '') = select_pieces cfg rs t"
  using assms(2-6)
proof (induction rs arbitrary: n)
  case Nil
  then show ?case by simp
next
  case (Cons r rs)
  let ?c = "tenant_cond cfg PlaceholderDollar r (n + 1)"
  have c: "bind_d args ?c = map Ch (ref_name r @ ''.'') @ tenant_pieces cfg t"
    using bind_d_eq_placeholder [of "ref_name r @ ''.'' @ TenantColumn cfg" "n + 1" args] assms(1) Cons.prems
      Cons.prems(5)
    by (auto simp: tenant_cond_ref tenant_pieces_def)
  show ?case
  proof (cases rs)
    case Nil
    then show ?thesis using c by simp
  next
    case (Cons r' rs')
    let ?rest = "str_join (tenant_conds cfg PlaceholderDollar rs (n + 2)) '' AND ''"
    have "in_i64 (n + 1 + 1)"
      using Cons.prems Cons by (simp add: i64_defs)
    then have nx: "add64 (n + 1) 1 = n + 2"
      by (simp add: add64_exact [of "n + 1" 1])
    have t: "args ! nat (n + 1 + int i) = GStr t" if "i < length rs" for i
      using Cons.prems(5) that by (force dest: spec [of _ "Suc i"] simp: ac_simps)
    have IH: "bind_d args ?rest = select_pieces cfg rs t"
      using Cons.IH [of "n + 1"] Cons.prems(1-4) t by (simp add: ac_simps)
    have j: "str_join (tenant_conds cfg PlaceholderDollar (r # rs) (n + 1)) '' AND '' = ?c @ '' AND '' @ ?rest"
      using Cons nx by (simp add: str_join_Cons)
    have nd: "\<not> is_digit CHR '' ''" by code_simp
    have "seam ?c ('' AND '' @ ?rest)" using nd by (simp add: seam_def)
    then have "bind_d args (?c @ '' AND '' @ ?rest) = bind_d args ?c @ bind_d args ('' AND '' @ ?rest)"
      by (rule bind_d_append)
    then show ?thesis unfolding j using c IH Cons by (simp add: bind_d_other)
  qed
qed

lemma select_bound_d:
  assumes "cut_where query endKeywords = Some (b, c, r)" "args_fit query args"
    "CHR ''$'' \<notin> set (TenantColumn cfg)"
    "extractAllTables query = Ok ts" "rs = filterTenantTables cfg ts" "rs \<noteq> []"
    "\<forall>x \<in> set rs. CHR ''$'' \<notin> set (ref_name x)" "int (length args) + int (length rs) \<le> max_i64"
  shows "\<exists>q'. injectSelectFilter cfg PlaceholderDollar query t args
      (countPlaceholders PlaceholderDollar query) = Ok (q', args @ replicate (length rs) (GStr t)) \<and>
    bind_d (args @ replicate (length rs) (GStr t)) q' = bound_conjoin (bind_d args b) (select_pieces cfg rs t) (bind_d args c) (bind_d args r)"
proof -
  let ?n = "int (length args)" and ?ts = "replicate (length rs) (GStr t)"
  let ?cond = "str_join (tenant_conds cfg PlaceholderDollar rs (?n + 1)) '' AND ''"
  have ends: "\<forall>kw \<in> set endKeywords. kw \<noteq> [] \<and> hd kw = CHR '' ''" by (simp add: endKeywords_def)
  have "1 \<le> length rs" using assms(6) by (cases rs) simp_all
  then have n: "add64 (countPlaceholders PlaceholderDollar query) 1 = ?n + 1"
    using assms(2,8) by (simp add: args_fit_def add64_exact i64_defs)
  have "injectSelectFilter cfg PlaceholderDollar query t args (countPlaceholders PlaceholderDollar query) =
      Ok (conjoin ?cond (b, c, r), args @ ?ts)"
    using assms(4-6) by (simp add: injectSelectFilter_def select_text_cut assms(1) n Let_def)
  moreover have "bind_d (args @ ?ts) ?cond = select_pieces cfg rs t"
    using assms(3,7,8) by (intro bind_d_conds) (auto simp: nth_append)
  ultimately show ?thesis
    using cut_where_seams [OF assms(1) ends] bind_d_parts(2-4) [OF assms(1) ends assms(2), of ?ts]
    by (simp add: bind_d_conjoin)
qed

end
