(* ===== verification/Rewrite_Added.thy ===== *)
theory Rewrite_Added
  imports Rewrite_Spec
begin

text \<open>
  The rewritings that have no condition to join: a SELECT, UPDATE or DELETE without a WHERE gets
  one, an INSERT gets a column and a value. Statements are compared by what they bind, as in
  the theory before.
\<close>

section \<open>A WHERE of its own\<close>

definition bound_where :: "piece list \<Rightarrow> piece list \<Rightarrow> piece list \<Rightarrow> piece list" where
  "bound_where before cond rest = before @ map Ch '' WHERE '' @ cond @ rest"

definition added :: "string \<Rightarrow> string \<Rightarrow> string \<Rightarrow> string" where
  "added before cond rest = before @ '' WHERE '' @ cond @ rest"

lemma bind_q_where:
  assumes "qmarks b = length a1" "qmarks cond = length ts"
  shows "bind_q (added b cond r) (a1 @ ts @ a2) =
    bound_where (bind_q b a1) (bind_q cond ts) (bind_q r a2)"
proof -
  have w: "qmarks '' WHERE '' = 0" by code_simp
  have "bind_q (added b cond r) (a1 @ ts @ a2) =
      bind_q b (a1 @ ts @ a2) @ bind_q ('' WHERE '' @ cond @ r) (ts @ a2)"
    using bind_q_append [of b "a1 @ ts @ a2"] assms(1) by (simp add: added_def)
  also have "bind_q b (a1 @ ts @ a2) = bind_q b a1"
    using bind_q_prefix [of b a1] assms(1) by simp
  also have "bind_q ('' WHERE '' @ cond @ r) (ts @ a2) = map Ch '' WHERE '' @ bind_q (cond @ r) (ts @ a2)"
    using bind_q_append [of "'' WHERE ''" "ts @ a2"] bind_q_plain [OF w, of "ts @ a2"] w by simp
  also have "bind_q (cond @ r) (ts @ a2) = bind_q cond ts @ bind_q r a2"
    using bind_q_append [of cond "ts @ a2"] bind_q_prefix [of cond ts a2] assms(2) by simp
  finally show ?thesis by (simp add: bound_where_def)
qed

lemma bind_d_where:
  assumes "r = [] \<or> is_space (hd r)"
  shows "bind_d args (added b cond r) =
    bound_where (bind_d args b) (bind_d args cond) (bind_d args r)"
proof -
  have nd: "\<not> is_digit CHR '' ''" by code_simp
  have s1: "seam b ('' WHERE '' @ cond @ r)" using nd by (simp add: seam_def)
  have s2: "seam '' WHERE '' (cond @ r)" using nd by (simp add: seam_def)
  have s3: "seam cond r" using assms space_not_special by (auto simp: seam_def)
  show ?thesis
    unfolding added_def bind_d_append [OF s1] bind_d_append [OF s2] bind_d_append [OF s3]
    by (simp add: bound_where_def bind_d_plain)
qed

text \<open>Where an UPDATE or a DELETE without conditions ends, and where a SELECT does.\<close>

definition stmt_end :: "string \<Rightarrow> nat" where
  "stmt_end query =
     (case str_index (to_upper query) '' RETURNING '' of Some p \<Rightarrow> p | None \<Rightarrow> length query)"

definition select_end :: "string \<Rightarrow> nat" where
  "select_end query = first_of (to_upper query) endKeywords (length query)"

lemma drop_keyword:
  assumes "str_index (to_upper s) kw = Some p" "kw \<noteq> []" "hd kw = CHR '' ''"
  shows "drop p s \<noteq> [] \<and> is_space (hd (drop p s))"
proof -
  have sp: "is_space CHR '' ''" by code_simp
  obtain z where z: "to_upper (drop p s) = kw @ z"
    using str_index_SomeD [OF assms(1)] by (auto simp: has_prefix_iff to_upper_drop)
  then have ne: "drop p s \<noteq> []" using assms(2) by auto
  have "up_char (hd (drop p s)) = hd (to_upper (drop p s))"
    using ne unfolding to_upper_def by (rule hd_map [symmetric])
  then have "up_char (hd (drop p s)) = CHR '' ''" unfolding z using assms(2,3) by simp
  then show ?thesis using sp up_char_space [of "hd (drop p s)"] ne by simp
qed

lemma stmt_end_seam: "drop (stmt_end q) q = [] \<or> is_space (hd (drop (stmt_end q) q))"
  by (cases "str_index (to_upper q) '' RETURNING ''")
    (auto simp: stmt_end_def dest: drop_keyword)

lemma select_end_seam: "drop (select_end q) q = [] \<or> is_space (hd (drop (select_end q) q))"
proof -
  have k: "\<forall>kw \<in> set endKeywords. kw \<noteq> [] \<and> hd kw = CHR '' ''" by (simp add: endKeywords_def)
  show ?thesis
    using first_of_attained [of "to_upper q" endKeywords "length q"] drop_keyword [of q _ "select_end q"] k
    by (auto simp: select_end_def)
qed

lemma cut_where_None: "cut_where q ends = None \<longleftrightarrow> str_index (to_upper q) '' WHERE '' = None"
  by (simp add: cut_where_def Let_def split: option.splits)

lemma where_text_added:
  "cut_where q ['' RETURNING ''] = None \<Longrightarrow>
     where_text cfg q ph =
       added (take (stmt_end q) q) (TenantColumn cfg @ '' = '' @ ph) (drop (stmt_end q) q)"
  by (simp add: where_text_cut stmt_end_def added_def Let_def)

lemma select_text_added:
  "cut_where q endKeywords = None \<Longrightarrow>
     select_text q f = added (trim_space (take (select_end q) q)) f (drop (select_end q) q)"
  by (simp add: select_text_cut select_end_def added_def Let_def)

subsection \<open>Positional placeholders\<close>

lemma delete_added:
  assumes "cut_where q ['' RETURNING ''] = None" "b = take (stmt_end q) q" "r = drop (stmt_end q) q"
    "qmarks b = 0" "qmarks (TenantColumn cfg) = 0"
    "injectDeleteFilter cfg PlaceholderQuestion q t args n = Ok (q', new)"
  shows "bind_q q' new = bound_where (bind_q b args) (tenant_pieces cfg t) (bind_q r args)"
proof -
  have "q' = added b (TenantColumn cfg @ '' = '' @ placeholder PlaceholderQuestion (add64 n 1)) r"
    "new = [] @ [GStr t] @ args"
    using assms(6) by (simp_all add: injectDeleteFilter_def where_text_added assms(1-3))
  then show ?thesis
    using bind_q_where [of b "[]" _ "[GStr t]" r args] bind_q_column [OF assms(5), of "add64 n 1" t]
      bind_q_plain [OF assms(4)] assms(4) by simp
qed

lemma update_added:
  assumes "cut_where q ['' RETURNING ''] = None" "b = take (stmt_end q) q" "r = drop (stmt_end q) q"
    "qmarks r = 0" "qmarks (TenantColumn cfg) = 0" "qmarks q \<le> length args"
  shows "\<exists>q' new. injectUpdateFilter cfg PlaceholderQuestion q t args n = Ok (q', new) \<and>
    bind_q q' new = bound_where (bind_q b args) (tenant_pieces cfg t) (map Ch r)"
proof -
  let ?cond = "TenantColumn cfg @ '' = '' @ placeholder PlaceholderQuestion (add64 n 1)"
  let ?a1 = "take (qmarks b) args" and ?a2 = "drop (qmarks b) args"
  have "qmarks q = qmarks b + qmarks r"
    unfolding assms(2,3) count_char_append [symmetric] append_take_drop_id ..
  then have b: "qmarks q = qmarks b" using assms(4) by simp
  then have k: "setArgCount q = qmarks b" using assms(1) by (simp add: setArgCount_def cut_where_None)
  have "injectUpdateFilter cfg PlaceholderQuestion q t args n =
      Ok (added b ?cond r, ?a1 @ [GStr t] @ ?a2)"
    using assms(6) b
    by (simp add: injectUpdateFilter_def split_args_def go_slice_def k where_text_added assms(1-3))
  moreover have "bind_q (added b ?cond r) (?a1 @ [GStr t] @ ?a2) =
      bound_where (bind_q b args) (tenant_pieces cfg t) (map Ch r)"
    using bind_q_where [of b ?a1 ?cond "[GStr t]" r ?a2] bind_q_column [OF assms(5), of "add64 n 1" t]
      bind_q_take [of b "qmarks b" args] bind_q_plain [OF assms(4)] assms(6) b by simp
  ultimately show ?thesis by metis
qed

lemma select_added:
  assumes "cut_where q endKeywords = None" "b = take (select_end q) q" "r = drop (select_end q) q"
    "qmarks b = 0" "qmarks (TenantColumn cfg) = 0"
    "extractAllTables q = Ok ts" "rs = filterTenantTables cfg ts" "rs \<noteq> []"
    "\<forall>x \<in> set rs. qmarks (ref_name x) = 0"
  shows "\<exists>q' new. injectSelectFilter cfg PlaceholderQuestion q t args n = Ok (q', new) \<and>
    bind_q q' new = bound_where (map Ch (trim_space b)) (select_pieces cfg rs t) (bind_q r args)"
proof -
  let ?cond = "str_join (tenant_conds cfg PlaceholderQuestion rs (add64 n 1)) '' AND ''"
  let ?ts = "replicate (length rs) (GStr t)"
  have b: "qmarks (trim_space b) = 0" using assms(4) by simp
  have "injectSelectFilter cfg PlaceholderQuestion q t args n =
      Ok (added (trim_space b) ?cond r, [] @ ?ts @ args)"
    using assms(6-8) by (simp add: injectSelectFilter_def select_text_added assms(1-3) Let_def)
  moreover have "bind_q (added (trim_space b) ?cond r) ([] @ ?ts @ args) =
      bound_where (map Ch (trim_space b)) (select_pieces cfg rs t) (bind_q r args)"
    using bind_q_where [of "trim_space b" "[]" ?cond ?ts r args] b bind_q_plain [OF b]
      bind_q_conds [OF assms(5,9), of "add64 n 1" t] by simp
  ultimately show ?thesis by blast
qed

subsection \<open>Numbered placeholders\<close>

text \<open>The arguments of the parts of a statement cut at \<open>p\<close>.\<close>

lemma bind_d_cut:
  assumes "args_fit q args" "drop p q = [] \<or> is_space (hd (drop p q))"
  shows "bind_d (args @ bs) (take p q) = bind_d args (take p q)"
    "bind_d (args @ bs) (drop p q) = bind_d args (drop p q)"
proof -
  have "seam (take p q) (drop p q)" using assms(2) space_not_special by (auto simp: seam_def)
  then have "numbers (take p q @ drop p q) = numbers (take p q) @ numbers (drop p q)"
    by (rule numbers_append)
  then have "set (numbers (take p q)) \<union> set (numbers (drop p q)) = set (numbers q)" by simp
  then show "bind_d (args @ bs) (take p q) = bind_d args (take p q)"
    "bind_d (args @ bs) (drop p q) = bind_d args (drop p q)"
    using numbers_fit [OF assms(1)] by (auto intro!: bind_d_more)
qed

lemma where_added_d:
  assumes "cut_where q ['' RETURNING ''] = None" "args_fit q args"
    "CHR ''$'' \<notin> set (TenantColumn cfg)" "int (length args) < max_i64"
  shows "bind_d (args @ [GStr t]) (where_text cfg q
      (placeholder PlaceholderDollar (add64 (countPlaceholders PlaceholderDollar q) 1))) =
    bound_where (bind_d args (take (stmt_end q) q)) (tenant_pieces cfg t) (bind_d args (drop (stmt_end q) q))"
proof -
  have n: "add64 (countPlaceholders PlaceholderDollar q) 1 = int (length args) + 1"
    using assms(2,4) by (simp add: args_fit_def add64_exact i64_defs)
  have "bind_d (args @ [GStr t]) (TenantColumn cfg @ '' = '' @ placeholder PlaceholderDollar (int (length args) + 1)) =
      tenant_pieces cfg t"
    using bind_d_eq_placeholder [OF assms(3), of "int (length args) + 1" "args @ [GStr t]"] assms(4)
    by (simp add: tenant_pieces_def)
  then show ?thesis
    unfolding where_text_added [OF assms(1)] n bind_d_where [OF stmt_end_seam]
      bind_d_cut [OF assms(2) stmt_end_seam] by simp
qed

lemma select_added_d:
  assumes "cut_where q endKeywords = None" "args_fit q args" "CHR ''$'' \<notin> set (TenantColumn cfg)"
    "extractAllTables q = Ok ts" "rs = filterTenantTables cfg ts" "rs \<noteq> []"
    "\<forall>x \<in> set rs. CHR ''$'' \<notin> set (ref_name x)" "int (length args) + int (length rs) \<le> max_i64"
  shows "\<exists>q'. injectSelectFilter cfg PlaceholderDollar q t args
      (countPlaceholders PlaceholderDollar q) = Ok (q', args @ replicate (length rs) (GStr t)) \<and>
    bind_d (args @ replicate (length rs) (GStr t)) q' = bound_where (trim_pieces (bind_d args (take (select_end q) q)))
      (select_pieces cfg rs t) (bind_d args (drop (select_end q) q))"
proof -
  let ?n = "int (length args)" and ?ts = "replicate (length rs) (GStr t)"
  let ?cond = "str_join (tenant_conds cfg PlaceholderDollar rs (?n + 1)) '' AND ''"
  let ?b = "take (select_end q) q" and ?r = "drop (select_end q) q"
  have "1 \<le> length rs" using assms(6) by (cases rs) simp_all
  then have n: "add64 (countPlaceholders PlaceholderDollar q) 1 = ?n + 1"
    using assms(2,8) by (simp add: args_fit_def add64_exact i64_defs)
  have "injectSelectFilter cfg PlaceholderDollar q t args (countPlaceholders PlaceholderDollar q) =
      Ok (added (trim_space ?b) ?cond ?r, args @ ?ts)"
    using assms(4-6) by (simp add: injectSelectFilter_def select_text_added assms(1) n Let_def)
  moreover have "bind_d (args @ ?ts) ?cond = select_pieces cfg rs t"
    using assms(3,7,8) by (intro bind_d_conds) (auto simp: nth_append)
  ultimately show ?thesis
    by (simp add: bind_d_where [OF select_end_seam] trim_pieces_bind_d [symmetric]
        bind_d_cut [OF assms(2) select_end_seam])
qed

end
