(* ===== verification/Rewrite_Insert.thy ===== *)
theory Rewrite_Insert
  imports Rewrite_Added
begin

text \<open>
  The rewriting of an INSERT: the tenant column comes first in the column list, the tenant's
  placeholder first in the first tuple, and the numbers of the original placeholders go up by
  one, so each still stands for its own argument.
\<close>

section \<open>Renumbering from left to right\<close>

function renum :: "int \<Rightarrow> string \<Rightarrow> string" where
  "renum off [] = []"
| "renum off (c # s) =
     (let ds = takeWhile is_digit s
      in if c = CHR ''$'' \<and> ds \<noteq> []
         then ''$'' @ int_str (add64 (sscanf_d ds) off) @ renum off (drop (length ds) s)
         else c # renum off s)"
  by pat_completeness auto
termination
  by (relation "measure (\<lambda>(off, s). length s)") auto

declare renum.simps(2) [simp del]

lemma renum_other: "c \<noteq> CHR ''$'' \<Longrightarrow> renum off (c # s) = c # renum off s"
  by (simp add: renum.simps(2) Let_def)

lemma placeholder_number_at:
  "length pre = k \<Longrightarrow>
     placeholder_number (pre @ c # ds @ s) (k, k + 1 + length ds) = sscanf_d ds"
  by (simp add: placeholder_number_def)

text \<open>Replacing the matches from the last to the first gives the same text.\<close>

lemma renumber_from:
  assumes "length pre = k"
  shows "foldr (\<lambda>m result.
           take (fst m) result
           @ (''$'' @ int_str (add64 (placeholder_number (pre @ s) m) off))
           @ drop (snd m) result)
         (find_placeholders k s) (pre @ s) = pre @ renum off s"
  using assms
proof (induction k s arbitrary: pre rule: find_placeholders.induct)
  case (1 k)
  then show ?case by simp
next
  case (2 k c s)
  let ?ds = "takeWhile is_digit s" and ?rest = "drop (length (takeWhile is_digit s)) s"
  have s: "s = ?ds @ ?rest" by (simp add: dropWhile_eq_drop [symmetric])
  show ?case
  proof (cases "c = CHR ''$'' \<and> ?ds \<noteq> []")
    case False
    have "find_placeholders k (c # s) = find_placeholders (Suc k) s"
      using False by (auto simp: Let_def)
    moreover have "renum off (c # s) = c # renum off s"
      using False by (auto simp: renum.simps(2) Let_def)
    ultimately show ?thesis
      using "2.IH"(2) [OF refl False, of "pre @ [c]"] "2.prems" by simp
  next
    case True
    let ?pre = "pre @ c # ?ds"
    have f: "find_placeholders k (c # s) =
        (k, k + 1 + length ?ds) # find_placeholders (k + 1 + length ?ds) ?rest"
      using True by (simp add: Let_def)
    have q: "pre @ c # s = ?pre @ ?rest" using s by simp
    have len: "length ?pre = k + 1 + length ?ds" using "2.prems" by simp
    have n: "placeholder_number (?pre @ ?rest) (k, k + 1 + length ?ds) = sscanf_d ?ds"
      using placeholder_number_at [OF "2.prems", of c ?ds ?rest] by simp
    have IH: "foldr (\<lambda>m result.
           take (fst m) result
           @ (''$'' @ int_str (add64 (placeholder_number (?pre @ ?rest) m) off))
           @ drop (snd m) result)
         (find_placeholders (k + 1 + length ?ds) ?rest) (?pre @ ?rest) = ?pre @ renum off ?rest"
      by (rule "2.IH"(1) [OF refl True len])
    have r: "renum off (c # s) = ''$'' @ int_str (add64 (sscanf_d ?ds) off) @ renum off ?rest"
      using True by (simp add: renum.simps(2) Let_def)
    show ?thesis
      unfolding f q r foldr.simps comp_def IH n fst_conv snd_conv
      using "2.prems" len by simp
  qed
qed

lemma renumberPlaceholders_renum:
  "renumberPlaceholders PlaceholderDollar s off = renum off s"
  using renumber_from [of "[]" 0 s off] by (simp add: renumberPlaceholders_def)

section \<open>Renumbered placeholders keep their arguments\<close>

definition numbers_in :: "string \<Rightarrow> gval list \<Rightarrow> bool" where
  "numbers_in s args \<longleftrightarrow> (\<forall>n \<in> set (numbers s). 1 \<le> n \<and> n \<le> int (length args))"

lemma renum_hd:
  "s = [] \<or> \<not> is_digit (hd s) \<Longrightarrow> renum off s = [] \<or> \<not> is_digit (hd (renum off s))"
  by (cases s) (auto simp: renum.simps(2) Let_def)

lemma bind_d_number:
  assumes "y = [] \<or> \<not> is_digit (hd y)" "1 \<le> n" "n \<le> int (length args)" "n \<le> max_i64"
  shows "bind_d args (''$'' @ int_str n @ y) = Val (args ! nat (n - 1)) # bind_d args y"
proof -
  have "seam (''$'' @ int_str n) y" using assms(1) by (auto simp: seam_def)
  then have "bind_d args ((''$'' @ int_str n) @ y) = bind_d args (''$'' @ int_str n) @ bind_d args y"
    by (rule bind_d_append)
  moreover have "bind_d args (''$'' @ int_str n) = [Val (args ! nat (n - 1))]"
    using bind_d_placeholder [OF assms(2-4)] by (simp add: placeholder_def)
  ultimately show ?thesis by simp
qed

lemma bind_d_renum:
  assumes "numbers_in s args" "int (length args) < max_i64"
  shows "bind_d (a # args) (renum 1 s) = bind_d args s"
  using assms(1)
proof (induction "1 :: int" s rule: renum.induct)
  case 1
  then show ?case by simp
next
  case (2 c s)
  let ?ds = "takeWhile is_digit s" and ?rest = "drop (length (takeWhile is_digit s)) s"
  show ?case
  proof (cases "c = CHR ''$'' \<and> ?ds \<noteq> []")
    case False
    have "numbers_in s args" using "2.prems" False by (auto simp: numbers_in_def Let_def split: if_splits)
    then have IH: "bind_d (a # args) (renum 1 s) = bind_d args s" by (rule "2.hyps"(2) [OF refl False])
    have r: "renum 1 (c # s) = c # renum 1 s" using False by (auto simp: renum.simps(2) Let_def)
    show ?thesis
    proof (cases "c = CHR ''$''")
      case True
      then have "takeWhile is_digit s = []" using False by simp
      moreover from this have "takeWhile is_digit (renum 1 s) = []"
        using renum_hd [of s 1] by (simp add: takeWhile_eq_Nil_iff)
      ultimately show ?thesis unfolding r by (simp only: bind_d.simps(2) Let_def IH) simp
    next
      case False
      then show ?thesis unfolding r using IH by (simp add: bind_d_other)
    qed
  next
    case True
    let ?n = "sscanf_d ?ds"
    have n: "numbers (c # s) = ?n # numbers s" using True by (simp add: Let_def)
    then have b: "1 \<le> ?n" "?n \<le> int (length args)" and i: "numbers_in ?rest args"
      using "2.prems" by (auto simp: numbers_in_def numbers_drop)
    have e: "add64 ?n 1 = ?n + 1" using b assms(2) by (simp add: i64_defs)
    have "\<not> is_digit (hd ?rest) \<or> ?rest = []"
      using hd_dropWhile [of is_digit s] by (auto simp: dropWhile_eq_drop [symmetric])
    then have h: "renum 1 ?rest = [] \<or> \<not> is_digit (hd (renum 1 ?rest))" using renum_hd by blast
    have k: "nat (?n + 1 - 1) = Suc (nat (?n - 1))" using b by simp
    have "bind_d (a # args) (renum 1 (c # s)) = Val ((a # args) ! nat (?n + 1 - 1)) # bind_d (a # args) (renum 1 ?rest)"
      using bind_d_number [OF h, of "?n + 1" "a # args"] b assms(2) True e
      by (simp add: renum.simps(2) Let_def)
    also have "\<dots> = Val (args ! nat (?n - 1)) # bind_d args ?rest"
      unfolding k using "2.hyps"(1) [OF refl True i] by simp
    also have "\<dots> = bind_d args (c # s)"
      using True b by (simp add: bind_d.simps(2) Let_def)
    finally show ?thesis .
  qed
qed

section \<open>The rewritten INSERT\<close>

text \<open>
  The parts of an INSERT with a column list: the table, the text after the parenthesis that
  opens the list, and the text before and after the parenthesis that opens the first tuple.
\<close>

definition insert_parts :: "string \<Rightarrow> (string \<times> string \<times> string \<times> string) option" where
  "insert_parts query =
     (case (str_index (to_upper query) ''INSERT INTO '', str_index (to_upper query) '' VALUES '') of
        (Some i, Some v) \<Rightarrow>
          if i + 12 \<le> v
          then let tp = take (v - (i + 12)) (drop (i + 12) query); vs = drop (v + 8) query
               in case (str_index tp ''('', str_index vs ''('') of
                    (Some p, Some o') \<Rightarrow>
                      Some (trim_space (take p tp), drop (Suc p) tp, take o' vs, drop (Suc o') vs)
                  | _ \<Rightarrow> None
          else None
      | _ \<Rightarrow> None)"

text \<open>Only the numbered style renumbers.\<close>

definition shift :: "placeholder_style \<Rightarrow> string \<Rightarrow> string" where
  "shift st s = (if st = PlaceholderDollar then renum 1 s else s)"

definition insert_text :: "config \<Rightarrow> placeholder_style \<Rightarrow> string \<times> string \<times> string \<times> string \<Rightarrow> string" where
  "insert_text cfg st parts =
     (case parts of (table, cols, v1, v2) \<Rightarrow>
        ''INSERT INTO '' @ table @ '' ('' @ TenantColumn cfg @ '', '' @ cols @ '' VALUES ''
        @ shift st v1 @ ''('' @ placeholder st 1 @ '', '' @ shift st v2)"

lemma cut_at_append: "cut_at s kw = (a, b) \<Longrightarrow> a @ b = s"
  by (auto simp: cut_at_def split: option.splits)

lemma renum_append: "seam x y \<Longrightarrow> renum off (x @ y) = renum off x @ renum off y"
proof (induction off x rule: renum.induct)
  case (1 off)
  then show ?case by simp
next
  case (2 off c s)
  let ?ds = "takeWhile is_digit s"
  have tw: "takeWhile is_digit (s @ y) = ?ds" if "c = CHR ''$''"
    using "2.prems" that by (intro takeWhile_seam) (cases s; auto simp: seam_def)
  have s1: "seam s y" using "2.prems" by (cases s) (auto simp: seam_def)
  show ?case
  proof (cases "c = CHR ''$'' \<and> ?ds \<noteq> []")
    case False
    then show ?thesis
      using "2.IH"(2) [OF refl False s1] tw by (auto simp: renum.simps(2) Let_def)
  next
    case True
    have s2: "seam (drop (length ?ds) s) y"
      using s1 by (auto simp: seam_def last_drop not_le)
    have "length ?ds \<le> length s" by (rule length_takeWhile_le)
    then show ?thesis
      using "2.IH"(1) [OF refl True s2] True tw by (simp add: renum.simps(2) Let_def)
  qed
qed

lemma paren_not_number [simp]: "CHR ''('' \<notin> set (int_str n)"
proof -
  have "\<not> is_digit CHR ''(''" by code_simp
  then show ?thesis using nat_str_digits [of "CHR ''(''"] by (auto simp: int_str_def)
qed

lemma set_renum: "CHR ''('' \<notin> set s \<Longrightarrow> CHR ''('' \<notin> set (renum off s)"
proof (induction off s rule: renum.induct)
  case (2 off c s)
  then show ?case by (auto simp: renum.simps(2) Let_def dest: in_set_dropD)
qed simp

lemma shift_paren:
  assumes "CHR ''('' \<notin> set v1"
  shows "shift st (v1 @ CHR ''('' # v2) = shift st v1 @ CHR ''('' # shift st v2"
    "CHR ''('' \<notin> set (shift st v1)"
proof -
  have "\<not> is_digit CHR ''(''" by code_simp
  then have "seam v1 (CHR ''('' # v2)" by (simp add: seam_def)
  then show "shift st (v1 @ CHR ''('' # v2) = shift st v1 @ CHR ''('' # shift st v2"
    by (simp add: shift_def renum_append renum_other)
  show "CHR ''('' \<notin> set (shift st v1)" using assms by (simp add: shift_def set_renum)
qed

lemma renumberPlaceholders_shift: "renumberPlaceholders st s 1 = shift st s"
proof (cases "st = PlaceholderDollar")
  case True
  then show ?thesis by (simp only: shift_def renumberPlaceholders_renum simp_thms if_True)
qed (simp add: shift_def renumberPlaceholders_def)

text \<open>An INSERT that lists the tenant column already is left as it is.\<close>

lemma insert_listed:
  assumes "insert_parts query = Some (table, cols, v1, v2)"
    "columnExistsInList (to_upper (CHR ''('' # cols)) (to_upper (TenantColumn cfg))"
  shows "injectInsertFilter cfg st query t args = Ok (query, args)"
proof -
  obtain i v p where iv: "str_index (to_upper query) ''INSERT INTO '' = Some i"
      "str_index (to_upper query) '' VALUES '' = Some v" "i + 12 \<le> v"
    and p: "str_index (take (v - (i + 12)) (drop (i + 12) query)) ''('' = Some p"
    and cols: "cols = drop (Suc p) (take (v - (i + 12)) (drop (i + 12) query))"
    using assms(1) by (auto simp: insert_parts_def Let_def simp del: drop_drop take_drop split: option.splits if_splits)
  let ?tp = "take (v - (i + 12)) (drop (i + 12) query)"
  have "v \<le> length query" using str_index_length [OF iv(2)] by simp
  then have sl: "go_slice query (i + 12) v = Ok ?tp" using iv(3) by (simp add: go_slice_def)
  have cl: "drop p ?tp = CHR ''('' # cols"
    using str_index_charD [OF p] cols by (metis append_eq_conv_conj append_take_drop_id same_append_eq)
  show ?thesis by (simp add: injectInsertFilter_def iv sl p cl assms(2) Let_def del: drop_drop take_drop)
qed

lemma insert_rewritten:
  assumes "insert_parts query = Some (table, cols, v1, v2)"
    "\<not> columnExistsInList (to_upper (CHR ''('' # cols)) (to_upper (TenantColumn cfg))"
  shows "injectInsertFilter cfg st query t args =
    Ok (insert_text cfg st (table, cols, v1, v2), GStr t # args)"
proof -
  obtain i v p k where iv: "str_index (to_upper query) ''INSERT INTO '' = Some i"
      "str_index (to_upper query) '' VALUES '' = Some v" "i + 12 \<le> v"
    and p: "str_index (take (v - (i + 12)) (drop (i + 12) query)) ''('' = Some p"
    and o: "str_index (drop (v + 8) query) ''('' = Some k"
    and parts: "table = trim_space (take p (take (v - (i + 12)) (drop (i + 12) query)))"
      "cols = drop (Suc p) (take (v - (i + 12)) (drop (i + 12) query))"
      "v1 = take k (drop (v + 8) query)" "v2 = drop (Suc k) (drop (v + 8) query)"
    using assms(1) by (auto simp: insert_parts_def Let_def simp del: drop_drop take_drop split: option.splits if_splits)
  let ?tp = "take (v - (i + 12)) (drop (i + 12) query)" and ?vs = "drop (v + 8) query"
  have "v \<le> length query" using str_index_length [OF iv(2)] by simp
  then have sl: "go_slice query (i + 12) v = Ok ?tp" using iv(3) by (simp add: go_slice_def)
  have cl: "drop p ?tp = CHR ''('' # cols"
    using str_index_charD [OF p] parts(2) by (metis append_eq_conv_conj append_take_drop_id same_append_eq)
  have vs: "?vs = v1 @ CHR ''('' # v2" "CHR ''('' \<notin> set v1"
    using str_index_charD [OF o] parts(3,4) by simp_all
  have sh: "renumberPlaceholders st ?vs 1 = shift st v1 @ CHR ''('' # shift st v2"
    unfolding renumberPlaceholders_shift vs(1) shift_paren(1) [OF vs(2)] ..
  have at: "str_index (shift st v1 @ CHR ''('' # shift st v2) ''('' \<noteq> None"
    unfolding str_index_char [OF shift_paren(2) [OF vs(2)]] by simp
  have rf: "replace_first (shift st v1 @ CHR ''('' # shift st v2) CHR ''('' (''('' @ placeholder st 1 @ '', '') =
      shift st v1 @ (''('' @ placeholder st 1 @ '', '') @ shift st v2"
    by (rule replace_first_here [OF shift_paren(2) [OF vs(2)]])
  obtain n1 ret where c1: "cut_at (shift st v1 @ (''('' @ placeholder st 1 @ '', '') @ shift st v2) '' RETURNING '' = (n1, ret)"
    by force
  obtain n2 con where c2: "cut_at n1 '' ON CONFLICT '' = (n2, con)" by force
  have "n2 @ con @ ret = shift st v1 @ (''('' @ placeholder st 1 @ '', '') @ shift st v2"
    using cut_at_append [OF c1] cut_at_append [OF c2] by (metis append.assoc)
  then show ?thesis
    using assms(2) at unfolding injectInsertFilter_def Let_def iv option.case sl res_bind.simps p cl sh rf c1 prod.case c2
    by (auto simp: insert_text_def parts(1) split: option.splits)
qed

text \<open>What it binds: the tenant in front of the first tuple, everything else as it was.\<close>

definition bound_insert :: "config \<Rightarrow> string \<Rightarrow> string \<Rightarrow> string \<Rightarrow> piece list \<Rightarrow> piece list \<Rightarrow> piece list" where
  "bound_insert cfg t table cols v1 v2 =
     map Ch (''INSERT INTO '' @ table @ '' ('' @ TenantColumn cfg @ '', '' @ cols @ '' VALUES '')
     @ v1 @ Ch CHR ''('' # Val (GStr t) # map Ch '', '' @ v2"

lemma insert_bound_d:
  assumes "CHR ''$'' \<notin> set (table @ TenantColumn cfg @ cols)" "numbers_in v1 args" "numbers_in v2 args"
    "int (length args) < max_i64"
  shows "bind_d (GStr t # args) (insert_text cfg PlaceholderDollar (table, cols, v1, v2)) =
    bound_insert cfg t table cols (bind_d args v1) (bind_d args v2)"
proof -
  let ?pre = "''INSERT INTO '' @ table @ '' ('' @ TenantColumn cfg @ '', '' @ cols @ '' VALUES ''"
  let ?args = "GStr t # args"
  have nd: "\<not> is_digit CHR '' ''" "\<not> is_digit CHR ''(''" "\<not> is_digit CHR '',''" by code_simp+
  have s1: "seam ?pre (renum 1 v1 @ ''('' @ placeholder PlaceholderDollar 1 @ '', '' @ renum 1 v2)"
    using nd by (simp add: seam_def)
  have s2: "seam (renum 1 v1) (''('' @ placeholder PlaceholderDollar 1 @ '', '' @ renum 1 v2)"
    using nd by (simp add: seam_def)
  have s3: "seam ''('' (placeholder PlaceholderDollar 1 @ '', '' @ renum 1 v2)" using nd by (simp add: seam_def)
  have s4: "seam (placeholder PlaceholderDollar 1) ('', '' @ renum 1 v2)" using nd by (simp add: seam_def)
  have s5: "seam '', '' (renum 1 v2)" using nd by (simp add: seam_def)
  have pre: "bind_d ?args ?pre = map Ch ?pre" using assms(1) by (intro bind_d_plain) simp
  have p1: "bind_d ?args (placeholder PlaceholderDollar 1) = [Val (GStr t)]"
    using bind_d_placeholder [of 1 ?args] by (simp add: max_i64_def)
  have t: "insert_text cfg PlaceholderDollar (table, cols, v1, v2) =
      ?pre @ (renum 1 v1 @ ''('' @ placeholder PlaceholderDollar 1 @ '', '' @ renum 1 v2)"
    by (simp add: insert_text_def shift_def)
  have "bind_d ?args (insert_text cfg PlaceholderDollar (table, cols, v1, v2)) =
      map Ch ?pre @ bind_d args v1 @ bind_d ?args ''('' @ [Val (GStr t)] @ bind_d ?args '', '' @ bind_d args v2"
    unfolding t bind_d_append [OF s1] bind_d_append [OF s2] bind_d_append [OF s3] bind_d_append [OF s4]
      bind_d_append [OF s5] pre p1 bind_d_renum [OF assms(2,4)] bind_d_renum [OF assms(3,4)] ..
  then show ?thesis by (simp add: bound_insert_def bind_d_other)
qed

lemma insert_bound_q:
  assumes "qmarks (table @ TenantColumn cfg @ cols @ v1) = 0"
  shows "bind_q (insert_text cfg PlaceholderQuestion (table, cols, v1, v2)) (GStr t # args) =
    bound_insert cfg t table cols (map Ch v1) (bind_q v2 args)"
proof -
  let ?pre = "''INSERT INTO '' @ table @ '' ('' @ TenantColumn cfg @ '', '' @ cols @ '' VALUES '' @ v1 @ ''(''"
  have z: "qmarks ?pre = 0" using assms by simp
  have "insert_text cfg PlaceholderQuestion (table, cols, v1, v2) = ?pre @ ''?, '' @ v2"
    by (simp add: insert_text_def shift_def placeholder_def)
  then have "bind_q (insert_text cfg PlaceholderQuestion (table, cols, v1, v2)) (GStr t # args) =
      map Ch ?pre @ bind_q (''?, '' @ v2) (GStr t # args)"
    using bind_q_append [of ?pre "GStr t # args" "''?, '' @ v2"] bind_q_plain [OF z] z by simp
  then show ?thesis by (simp add: bound_insert_def)
qed

end
