(* ===== verification/Query_Cache.thy ===== *)
theory Query_Cache
  imports Go_Strings "HOL-Library.Word" "HOL-Library.Multiset"
begin

unbundle bit_operations_syntax

text \<open>
  tenantkit/query_cache.go: the cache of query rewrites, keyed by the 64-bit FNV-1a hash of the
  query text. The map of entries is an association list. Go iterates over a map in an arbitrary
  order: the order is a parameter \<open>ord\<close>, any rearrangement of the keys. The pools of string
  builders and argument slices at the end of the file are memory management; what they hand
  out is modelled as the values built in them.
\<close>

section \<open>The cache\<close>

record cache_entry =
  originalQuery :: string
  transformedQuery :: string
  argCount :: nat
  isTenantQuery :: bool
  entry_hash :: "64 word"

record query_cache =
  entries :: "(64 word \<times> cache_entry) list"
  maxSize :: int
  hits :: "64 word"
  misses :: "64 word"

definition NewQueryCache :: "int \<Rightarrow> query_cache" where
  "NewQueryCache n =
     (let n = (if n \<le> 0 then 1000 else n)
      in \<lparr>entries = [], maxSize = n, hits = 0, misses = 0\<rparr>)"

text \<open>FNV-1a of package \<^verbatim>\<open>hash/fnv\<close>: xor the byte in, then multiply by the prime.\<close>

definition hashQuery :: "string \<Rightarrow> 64 word" where
  "hashQuery query =
     foldl (\<lambda>h c. (h XOR word_of_nat (code c)) * 1099511628211) 14695981039346656037 query"

text \<open>\<open>Get\<close>: the cache with its counters, and the entry found. The entry's own query is not
  compared with the one asked for.\<close>

definition qc_Get :: "query_cache \<Rightarrow> string \<Rightarrow> query_cache \<times> (string \<times> nat \<times> bool) option" where
  "qc_Get qc q =
     (case map_of (entries qc) (hashQuery q) of
        Some e \<Rightarrow> (qc\<lparr>hits := hits qc + 1\<rparr>, Some (transformedQuery e, argCount e, isTenantQuery e))
      | None \<Rightarrow> (qc\<lparr>misses := misses qc + 1\<rparr>, None))"

definition qc_evictHalf :: "(64 word list \<Rightarrow> 64 word list) \<Rightarrow> query_cache \<Rightarrow> query_cache" where
  "qc_evictHalf ord qc =
     (let targetSize = maxSize qc div 2;
          toRemove = int (length (entries qc)) - targetSize
      in if toRemove \<le> 0 then qc
         else let removed = set (take (nat toRemove) (ord (map fst (entries qc))))
              in qc\<lparr>entries := filter (\<lambda>(h, e). h \<notin> removed) (entries qc)\<rparr>)"

definition qc_Put ::
  "(64 word list \<Rightarrow> 64 word list) \<Rightarrow> query_cache \<Rightarrow> string \<Rightarrow> string \<Rightarrow> nat \<Rightarrow> bool \<Rightarrow> query_cache" where
  "qc_Put ord qc q transformed n isTenant =
     (let hash = hashQuery q;
          qc = (if maxSize qc \<le> int (length (entries qc)) then qc_evictHalf ord qc else qc)
      in qc\<lparr>entries := AList.update hash
               \<lparr>originalQuery = q, transformedQuery = transformed, argCount = n,
                isTenantQuery = isTenant, entry_hash = hash\<rparr> (entries qc)\<rparr>)"

definition qc_Clear :: "query_cache \<Rightarrow> query_cache" where
  "qc_Clear qc = qc\<lparr>entries := [], hits := 0, misses := 0\<rparr>"

text \<open>The hit rate is the exact quotient; Go computes it in \<^verbatim>\<open>float64\<close>.\<close>

definition qc_Stats :: "query_cache \<Rightarrow> 64 word \<times> 64 word \<times> nat \<times> rat" where
  "qc_Stats qc =
     (let total = hits qc + misses qc;
          hitRate = (if 0 < total then of_nat (unat (hits qc)) / of_nat (unat total) * 100 else 0)
      in (hits qc, misses qc, length (entries qc), hitRate))"

section \<open>Invariant and laws\<close>

text \<open>An order in which Go may walk over the keys of a map.\<close>

definition map_order :: "(64 word list \<Rightarrow> 64 word list) \<Rightarrow> bool" where
  "map_order ord \<longleftrightarrow> (\<forall>ks. mset (ord ks) = mset ks)"

definition qc_ok :: "query_cache \<Rightarrow> bool" where
  "qc_ok qc \<longleftrightarrow>
     0 < maxSize qc \<and> distinct (map fst (entries qc)) \<and> int (length (entries qc)) \<le> maxSize qc \<and>
     (\<forall>(h, e) \<in> set (entries qc). h = entry_hash e \<and> h = hashQuery (originalQuery e))"

lemma qc_ok_New: "qc_ok (NewQueryCache n)"
  by (simp add: qc_ok_def NewQueryCache_def Let_def)

lemma qc_ok_Clear: "qc_ok qc \<Longrightarrow> qc_ok (qc_Clear qc)"
  by (simp add: qc_ok_def qc_Clear_def)

lemma qc_Get_frame:
  "entries (fst (qc_Get qc q)) = entries qc" "maxSize (fst (qc_Get qc q)) = maxSize qc"
  by (simp_all add: qc_Get_def split: option.splits)

lemma qc_ok_Get: "qc_ok qc \<Longrightarrow> qc_ok (fst (qc_Get qc q))"
  by (simp add: qc_ok_def qc_Get_frame)

lemma qc_Get_hit:
  "map_of (entries qc) (hashQuery q) = Some e \<Longrightarrow>
     snd (qc_Get qc q) = Some (transformedQuery e, argCount e, isTenantQuery e)"
  by (simp add: qc_Get_def)

lemma qc_Get_miss: "map_of (entries qc) (hashQuery q) = None \<Longrightarrow> snd (qc_Get qc q) = None"
  by (simp add: qc_Get_def)

text \<open>Removing a set of keys from a list of distinct keys.\<close>

lemma filter_keys_length:
  assumes "distinct (map fst al)" "R \<subseteq> set (map fst al)"
  shows "length (filter (\<lambda>(h, e). h \<notin> R) al) = length al - card R"
proof -
  have "length (filter (\<lambda>(h, e). h \<notin> R) al) = length (filter (\<lambda>h. h \<notin> R) (map fst al))"
    by (induction al) auto
  also have "\<dots> = card (set (map fst al) - R)"
    using assms(1) by (metis distinct_card distinct_filter set_diff_eq set_filter)
  also have "\<dots> = length al - card R"
    using assms by (metis card_Diff_subset distinct_card finite_set finite_subset length_map)
  finally show ?thesis .
qed

lemma qc_evictHalf_length:
  assumes "map_order ord" "qc_ok qc"
  shows "int (length (entries (qc_evictHalf ord qc))) = min (int (length (entries qc))) (maxSize qc div 2)"
proof (cases "int (length (entries qc)) - maxSize qc div 2 \<le> 0")
  case True
  then show ?thesis by (simp add: qc_evictHalf_def)
next
  case False
  let ?ks = "map fst (entries qc)"
  let ?n = "nat (int (length (entries qc)) - maxSize qc div 2)"
  let ?R = "set (take ?n (ord ?ks))"
  have m: "mset (ord ?ks) = mset ?ks" using assms(1) by (simp add: map_order_def)
  have "distinct ?ks" using assms(2) by (simp add: qc_ok_def)
  with m have d: "distinct (ord ?ks)" by (simp only: mset_eq_imp_distinct_iff [OF m])
  have s: "set (ord ?ks) = set ?ks" by (rule mset_eq_setD [OF m])
  have l: "length (ord ?ks) = length ?ks" by (rule mset_eq_length [OF m])
  have "0 \<le> maxSize qc div 2" using assms(2) by (simp add: qc_ok_def)
  then have n: "?n \<le> length ?ks" by simp
  have "card ?R = ?n"
    using d n l by (metis distinct_card distinct_take length_take min.absorb2)
  moreover have "?R \<subseteq> set ?ks" using s by (metis set_take_subset)
  ultimately have "length (entries (qc_evictHalf ord qc)) = length (entries qc) - ?n"
    using False assms(2) filter_keys_length [of "entries qc" ?R]
    by (simp add: qc_evictHalf_def qc_ok_def)
  then show ?thesis using False n by simp
qed

lemma qc_evictHalf_subset: "set (entries (qc_evictHalf ord qc)) \<subseteq> set (entries qc)"
  by (auto simp: qc_evictHalf_def Let_def)

lemma qc_evictHalf_frame [simp]:
  "maxSize (qc_evictHalf ord qc) = maxSize qc" "hits (qc_evictHalf ord qc) = hits qc"
  "misses (qc_evictHalf ord qc) = misses qc"
  by (simp_all add: qc_evictHalf_def Let_def)

lemma qc_evictHalf_distinct:
  "distinct (map fst (entries qc)) \<Longrightarrow> distinct (map fst (entries (qc_evictHalf ord qc)))"
  by (auto simp: qc_evictHalf_def Let_def intro: distinct_map_filter)

text \<open>The cache a \<open>Put\<close> writes into, after the eviction.\<close>

definition qc_room :: "(64 word list \<Rightarrow> 64 word list) \<Rightarrow> query_cache \<Rightarrow> query_cache" where
  "qc_room ord qc = (if maxSize qc \<le> int (length (entries qc)) then qc_evictHalf ord qc else qc)"

lemma qc_room_length:
  assumes "map_order ord" "qc_ok qc"
  shows "int (length (entries (qc_room ord qc))) < maxSize qc"
  using qc_evictHalf_length [OF assms] assms(2) by (auto simp: qc_room_def qc_ok_def)

lemma qc_ok_Put:
  assumes "map_order ord" "qc_ok qc"
  shows "qc_ok (qc_Put ord qc q t n b)"
proof -
  let ?r = "qc_room ord qc"
  have d: "distinct (map fst (entries ?r))"
    using assms(2) by (auto simp: qc_room_def qc_ok_def intro: qc_evictHalf_distinct)
  have sub: "set (entries ?r) \<subseteq> set (entries qc)"
    using qc_evictHalf_subset by (auto simp: qc_room_def)
  have mx: "maxSize ?r = maxSize qc" by (simp add: qc_room_def)
  have "int (length (entries ?r)) < maxSize qc" by (rule qc_room_length [OF assms])
  with d sub mx assms(2) show ?thesis
    using set_AList_update_subset [of "hashQuery q" _ "entries ?r"]
    by (fastforce simp: qc_ok_def qc_Put_def Let_def qc_room_def [symmetric]
        length_AList_update distinct_update)
qed

lemma qc_Get_Put:
  "snd (qc_Get (qc_Put ord qc q t n b) q) = Some (t, n, b)"
  by (simp add: qc_Get_def qc_Put_def Let_def map_of_AList_update)

lemma qc_Put_other:
  "hashQuery q' \<noteq> hashQuery q \<Longrightarrow>
     map_of (entries (qc_Put ord qc q t n b)) (hashQuery q') = map_of (entries (qc_room ord qc)) (hashQuery q')"
  by (simp add: qc_Put_def Let_def map_of_AList_update qc_room_def)

lemma qc_room_sub:
  assumes "qc_ok qc" "map_of (entries (qc_room ord qc)) h = Some e"
  shows "map_of (entries qc) h = Some e"
proof -
  have "(h, e) \<in> set (entries (qc_room ord qc))" using assms(2) by (rule map_of_SomeD)
  then have "(h, e) \<in> set (entries qc)"
    using qc_evictHalf_subset by (auto simp: qc_room_def split: if_splits)
  then show ?thesis using assms(1) by (simp add: qc_ok_def)
qed

section \<open>The cache as a memo table\<close>

text \<open>
  What the rewriter relies on. A lookup answers with the key an entry was stored for, which need
  not be the key looked up. An entry may disappear, but one that is found was put there.
\<close>

locale memo_cache =
  fixes lookup :: "'c \<Rightarrow> 'k \<Rightarrow> ('k \<times> 'v) option"
    and put :: "'c \<Rightarrow> 'k \<Rightarrow> 'v \<Rightarrow> 'c"
    and inv :: "'c \<Rightarrow> bool"
  assumes inv_put: "inv c \<Longrightarrow> inv (put c k v)"
    and lookup_put: "inv c \<Longrightarrow> lookup (put c k v) k = Some (k, v)"
    and lookup_put_old: "inv c \<Longrightarrow> lookup (put c k v) k' = Some (k'', v') \<Longrightarrow>
      (k'' = k \<and> v' = v) \<or> lookup c k' = Some (k'', v')"
begin

text \<open>Every entry is a value of the partial function \<open>f\<close> at the key it was stored for.\<close>

definition sound :: "('k \<Rightarrow> 'v option) \<Rightarrow> 'c \<Rightarrow> bool" where
  "sound f c \<longleftrightarrow> (\<forall>k k' v. lookup c k = Some (k', v) \<longrightarrow> f k' = Some v)"

lemma sound_put: "inv c \<Longrightarrow> sound f c \<Longrightarrow> f k = Some v \<Longrightarrow> sound f (put c k v)"
  unfolding sound_def using lookup_put_old by blast

lemma sound_empty: "\<forall>k. lookup c k = None \<Longrightarrow> sound f c"
  by (simp add: sound_def)

lemma sound_hit: "sound f c \<Longrightarrow> lookup c k = Some (k, v) \<Longrightarrow> f k = Some v"
  unfolding sound_def by blast

text \<open>A run of puts of values of \<open>f\<close> keeps the table sound.\<close>

lemma sound_run:
  "inv c \<Longrightarrow> sound f c \<Longrightarrow> \<forall>(k, v) \<in> set kvs. f k = Some v \<Longrightarrow>
     inv (fold (\<lambda>(k, v) c. put c k v) kvs c) \<and> sound f (fold (\<lambda>(k, v) c. put c k v) kvs c)"
  by (induction kvs arbitrary: c) (auto simp: inv_put sound_put)

end

definition qc_lookup :: "query_cache \<Rightarrow> string \<Rightarrow> (string \<times> string \<times> nat \<times> bool) option" where
  "qc_lookup qc q = map_option
     (\<lambda>e. (originalQuery e, transformedQuery e, argCount e, isTenantQuery e))
     (map_of (entries qc) (hashQuery q))"

definition qc_put3 ::
  "(64 word list \<Rightarrow> 64 word list) \<Rightarrow> query_cache \<Rightarrow> string \<Rightarrow> string \<times> nat \<times> bool \<Rightarrow> query_cache" where
  "qc_put3 ord qc q v = (case v of (t, n, b) \<Rightarrow> qc_Put ord qc q t n b)"

definition qc_distinct :: "query_cache \<Rightarrow> bool" where
  "qc_distinct qc \<longleftrightarrow> distinct (map fst (entries qc))"

lemma qc_room_distinct: "qc_distinct qc \<Longrightarrow> qc_distinct (qc_room ord qc)"
  by (auto simp: qc_distinct_def qc_room_def intro: qc_evictHalf_distinct)

lemma qc_room_found:
  assumes "qc_distinct qc" "map_of (entries (qc_room ord qc)) h = Some e"
  shows "map_of (entries qc) h = Some e"
proof -
  have "(h, e) \<in> set (entries (qc_room ord qc))" using assms(2) by (rule map_of_SomeD)
  then have "(h, e) \<in> set (entries qc)"
    using qc_evictHalf_subset by (auto simp: qc_room_def split: if_splits)
  then show ?thesis using assms(1) by (simp add: qc_distinct_def)
qed

lemma qc_Get_lookup: "snd (qc_Get qc q) = map_option snd (qc_lookup qc q)"
  by (simp add: qc_lookup_def qc_Get_def split: option.split)

lemma qc_Put_entries:
  "entries (qc_Put ord qc q t n b) =
     AList.update (hashQuery q) \<lparr>originalQuery = q, transformedQuery = t, argCount = n,
       isTenantQuery = b, entry_hash = hashQuery q\<rparr> (entries (qc_room ord qc))"
  by (simp add: qc_Put_def qc_room_def Let_def)

interpretation qc: memo_cache qc_lookup "qc_put3 ord" qc_distinct for ord
proof unfold_locales
  fix qc :: query_cache and q q' q'' :: string and v v' :: "string \<times> nat \<times> bool"
  obtain t n b where v: "v = (t, n, b)" by (cases v)
  show "qc_distinct qc \<Longrightarrow> qc_distinct (qc_put3 ord qc q v)"
    using qc_room_distinct [of qc ord]
    by (simp add: qc_distinct_def qc_put3_def v qc_Put_entries distinct_update)
  show "qc_distinct qc \<Longrightarrow> qc_lookup (qc_put3 ord qc q v) q = Some (q, v)"
    by (simp add: qc_lookup_def qc_put3_def v qc_Put_entries map_of_AList_update)
  show "qc_distinct qc \<Longrightarrow> qc_lookup (qc_put3 ord qc q v) q' = Some (q'', v') \<Longrightarrow>
      (q'' = q \<and> v' = v) \<or> qc_lookup qc q' = Some (q'', v')"
    using qc_room_found [of qc ord "hashQuery q'"]
    by (auto simp: qc_lookup_def qc_put3_def v qc_Put_entries map_of_AList_update split: if_splits)
qed


section \<open>Properties\<close>

text \<open>The calls a cache gets, in any order.\<close>

datatype cache_call = CallGet string | CallPut string string nat bool | CallClear

fun cache_step :: "(64 word list \<Rightarrow> 64 word list) \<Rightarrow> query_cache \<Rightarrow> cache_call \<Rightarrow> query_cache" where
  "cache_step ord qc (CallGet q) = fst (qc_Get qc q)"
| "cache_step ord qc (CallPut q t n b) = qc_Put ord qc q t n b"
| "cache_step ord qc CallClear = qc_Clear qc"

lemma cache_step_ok: "map_order ord \<Longrightarrow> qc_ok qc \<Longrightarrow> qc_ok (cache_step ord qc c)"
  by (cases c) (simp_all add: qc_ok_Get qc_ok_Put qc_ok_Clear)

lemma cache_step_maxSize: "maxSize (cache_step ord qc c) = maxSize qc"
  by (cases c) (simp_all add: qc_Get_frame qc_Put_def qc_Clear_def Let_def)

lemma cache_run_ok:
  "map_order ord \<Longrightarrow> qc_ok qc \<Longrightarrow>
     qc_ok (foldl (cache_step ord) qc cs) \<and> maxSize (foldl (cache_step ord) qc cs) = maxSize qc"
  by (induction cs arbitrary: qc) (simp_all add: cache_step_ok cache_step_maxSize)

text \<open>
  The cache is bounded, whatever is put into it and in whatever order Go walks over its map:
  never more entries than its size, and what was put last is found.
\<close>

theorem cache_bounded:
  assumes "map_order ord" "0 < sz"
  shows "int (length (entries (foldl (cache_step ord) (NewQueryCache sz) cs))) \<le> sz \<and>
    snd (qc_Get (qc_Put ord (foldl (cache_step ord) (NewQueryCache sz) cs) q t n b) q) = Some (t, n, b)"
  using cache_run_ok [OF assms(1) qc_ok_New, of sz cs] assms(2)
  by (auto simp: qc_ok_def qc_Get_Put NewQueryCache_def)

lemma cache_bounded_witness:
  "int (length (entries (foldl (cache_step (\<lambda>ks. ks)) (NewQueryCache 1)
     [CallPut ''a'' ''A'' 0 True, CallPut ''b'' ''B'' 1 True]))) \<le> 1"
  using cache_bounded [of "\<lambda>ks. ks" 1 "[CallPut ''a'' ''A'' 0 True, CallPut ''b'' ''B'' 1 True]"]
  by (simp add: map_order_def)

text \<open>
  A put into a full cache first drops entries down to half of the size, and it drops nothing
  else: every entry left was there before or is the new one.
\<close>

theorem cache_eviction:
  assumes "map_order ord" "qc_ok qc" "int (length (entries qc)) = maxSize qc"
  shows "int (length (entries (qc_Put ord qc q t n b))) \<le> maxSize qc div 2 + 1 \<and>
    maxSize qc div 2 \<le> int (length (entries (qc_Put ord qc q t n b))) \<and>
    (\<forall>k e. map_of (entries (qc_Put ord qc q t n b)) k = Some e \<longrightarrow>
       k = hashQuery q \<or> map_of (entries qc) k = Some e)"
proof -
  have r: "qc_room ord qc = qc_evictHalf ord qc" using assms(3) by (simp add: qc_room_def)
  have l: "int (length (entries (qc_evictHalf ord qc))) = maxSize qc div 2"
    using qc_evictHalf_length [OF assms(1,2)] assms(2,3) by (simp add: qc_ok_def)
  have d: "qc_distinct qc" using assms(2) by (simp add: qc_ok_def qc_distinct_def)
  show ?thesis
    using l qc_room_found [OF d, of ord]
    by (auto simp: qc_Put_entries r length_AList_update map_of_AList_update split: if_splits)
qed

definition full_cache :: query_cache where
  "full_cache = qc_Put (\<lambda>ks. ks) (NewQueryCache 1) ''a'' ''A'' 0 True"

lemma cache_eviction_witness:
  "int (length (entries (qc_Put (\<lambda>ks. ks) full_cache ''b'' ''B'' 0 True))) \<le> 1"
proof -
  have o1: "map_order (\<lambda>ks. ks)" by (simp add: map_order_def)
  have k: "qc_ok full_cache" unfolding full_cache_def by (rule qc_ok_Put [OF o1 qc_ok_New])
  have l: "int (length (entries full_cache)) = maxSize full_cache" "maxSize full_cache div 2 + 1 = 1"
    by (simp_all add: full_cache_def qc_Put_def NewQueryCache_def Let_def)
  show ?thesis using cache_eviction [OF o1 k l(1), of "''b''" "''B''" 0 True] l(2) by simp
qed

end
