(* ===== verification/Tenant_DB.thy ===== *)
theory Tenant_DB
  imports Rewriter Query_Cache
begin

text \<open>
  tenantkit/wrap.go: \<^verbatim>\<open>DB\<close> and \<^verbatim>\<open>Tx\<close>. The database behind \<^verbatim>\<open>*sql.DB\<close> is a parameter: a handle of
  type \<open>'h\<close> and a function \<open>exec\<close> that runs one call on a world \<open>'w\<close> and answers it. A method
  returns the \<^verbatim>\<open>DB\<close> (its cache changes), the world, and its result. The order in which Go walks
  over the cache when it evicts is the parameter \<open>ord\<close> of the cache. The debug logger is left out.
\<close>

section \<open>State\<close>

record 'h db =
  db_db :: 'h
  db_interceptor :: interceptor
  db_config :: config
  placeholderStyle :: placeholder_style
  queryCache :: query_cache

definition detectPlaceholderStyle :: placeholder_style where
  "detectPlaceholderStyle = PlaceholderDollar"

definition Wrap :: "'h option \<Rightarrow> config \<Rightarrow> 'h db res" where
  "Wrap sqlDB cfg =
     (case sqlDB of
        None \<Rightarrow> Err (NewErr ''tenantkit: database cannot be nil'')
      | Some h \<Rightarrow> res_bind (NewInterceptor cfg) (\<lambda>icpt.
          Ok \<lparr>db_db = h, db_interceptor = icpt, db_config = cfg,
              placeholderStyle = detectPlaceholderStyle, queryCache = NewQueryCache 1000\<rparr>))"

definition WrapWithStyle :: "'h option \<Rightarrow> config \<Rightarrow> placeholder_style \<Rightarrow> 'h db res" where
  "WrapWithStyle sqlDB cfg st =
     res_bind (Wrap sqlDB cfg) (\<lambda>db. Ok (db\<lparr>placeholderStyle := st\<rparr>))"

definition MustWrap :: "'h option \<Rightarrow> config \<Rightarrow> 'h db res" where
  "MustWrap sqlDB cfg = (case Wrap sqlDB cfg of Ok db \<Rightarrow> Ok db | _ \<Rightarrow> Panic)"

section \<open>The rewriting with its cache\<close>

text \<open>The arguments of a cache hit.\<close>

definition cached_args ::
  "placeholder_style \<Rightarrow> string \<Rightarrow> string \<Rightarrow> gval list \<Rightarrow> nat \<Rightarrow> gval list res" where
  "cached_args st query tenantID args n =
     (if st = PlaceholderQuestion
      then if has_prefix (to_upper query) ''UPDATE''
           then split_args (setArgCount query) n tenantID args
           else Ok (replicate n (GStr tenantID) @ args)
      else Ok (args @ replicate n (GStr tenantID)))"

text \<open>The rewriting of a miss by the kind of the statement; \<open>None\<close> is the default branch.\<close>

definition inject_miss ::
  "config \<Rightarrow> placeholder_style \<Rightarrow> string \<Rightarrow> string \<Rightarrow> gval list \<Rightarrow> (string \<times> gval list) res option" where
  "inject_miss cfg st query tenantID args =
     (let upper = to_upper query;
          existing = countPlaceholders st query
      in if has_prefix upper ''SELECT'' then Some (injectSelectFilter cfg st query tenantID args existing)
         else if has_prefix upper ''UPDATE'' then Some (injectUpdateFilter cfg st query tenantID args existing)
         else if has_prefix upper ''DELETE'' then Some (injectDeleteFilter cfg st query tenantID args existing)
         else if has_prefix upper ''INSERT'' then Some (injectInsertFilter cfg st query tenantID args)
         else None)"

definition injectTenantFilter ::
  "(64 word list \<Rightarrow> 64 word list) \<Rightarrow> 'h db \<Rightarrow> string \<Rightarrow> string \<Rightarrow> gval list
     \<Rightarrow> 'h db \<times> (string \<times> gval list) res" where
  "injectTenantFilter ord db query tenantID args =
     (let query = trim_space query;
          (cache, hit) = qc_Get (queryCache db) query;
          db = db\<lparr>queryCache := cache\<rparr>;
          miss = (case inject_miss (db_config db) (placeholderStyle db) query tenantID args of
                    None \<Rightarrow> (db, Ok (query, args))
                  | Some (Err e) \<Rightarrow> (db, Err e)
                  | Some Panic \<Rightarrow> (db, Panic)
                  | Some (Ok (result, newArgs)) \<Rightarrow>
                      (db\<lparr>queryCache := qc_Put ord cache query result
                                          (length newArgs - length args) True\<rparr>,
                       Ok (result, newArgs)))
      in case hit of
           Some (transformed, n, isTenant) \<Rightarrow>
             if isTenant
             then (db, res_bind (cached_args (placeholderStyle db) query tenantID args n)
                         (\<lambda>newArgs. Ok (transformed, newArgs)))
             else miss
         | None \<Rightarrow> miss)"

definition ClearQueryCache :: "'h db \<Rightarrow> 'h db" where
  "ClearQueryCache db = db\<lparr>queryCache := qc_Clear (queryCache db)\<rparr>"

definition QueryCacheStats :: "'h db \<Rightarrow> 64 word \<times> 64 word \<times> nat \<times> rat" where
  "QueryCacheStats db = qc_Stats (queryCache db)"

section \<open>The methods of DB\<close>

text \<open>The statement a method sends on, given the decision.\<close>

definition apply_decision ::
  "(64 word list \<Rightarrow> 64 word list) \<Rightarrow> 'h db \<Rightarrow> decision \<Rightarrow> string \<Rightarrow> gval list
     \<Rightarrow> 'h db \<times> (string \<times> gval list) res" where
  "apply_decision ord db d query args =
     (if RequiresFiltering d then injectTenantFilter ord db query (TenantID d) args
      else (db, Ok (query, args)))"

definition inject_error :: "go_error \<Rightarrow> go_error" where
  "inject_error e = WrapErr ''tenantkit: failed to inject tenant filter: '' e []"

definition db_Query where
  "db_Query ord exec db w ctx query args =
     (case ShouldFilter (db_interceptor db) ctx query of
        Err e \<Rightarrow> (db, w, Err e)
      | Panic \<Rightarrow> (db, w, Panic)
      | Ok d \<Rightarrow>
         (case apply_decision ord db d query args of
            (db', Err e) \<Rightarrow> (db', w, Err (inject_error e))
          | (db', Panic) \<Rightarrow> (db', w, Panic)
          | (db', Ok (query', args')) \<Rightarrow>
              (db', exec (db_db db) (QueryContext ctx query' args') w)))"

text \<open>The errors of \<^verbatim>\<open>QueryRow\<close> are dropped: the row is the zero \<^verbatim>\<open>sql.Row\<close>.\<close>

definition db_QueryRow where
  "db_QueryRow ord exec db w ctx query args =
     (case ShouldFilter (db_interceptor db) ctx query of
        Err e \<Rightarrow> (db, w, Ok ZeroRow)
      | Panic \<Rightarrow> (db, w, Panic)
      | Ok d \<Rightarrow>
         (case apply_decision ord db d query args of
            (db', Err e) \<Rightarrow> (db', w, Ok ZeroRow)
          | (db', Panic) \<Rightarrow> (db', w, Panic)
          | (db', Ok (query', args')) \<Rightarrow>
              let (w', r) = exec (db_db db) (QueryRowContext ctx query' args') w
              in (db', w', Ok (RowOf r))))"

definition db_Exec where
  "db_Exec ord exec db w ctx query args =
     (case ShouldFilter (db_interceptor db) ctx query of
        Err e \<Rightarrow> (db, w, Err e)
      | Panic \<Rightarrow> (db, w, Panic)
      | Ok d \<Rightarrow>
         (case apply_decision ord db d query args of
            (db', Err e) \<Rightarrow> (db', w, Err (inject_error e))
          | (db', Panic) \<Rightarrow> (db', w, Panic)
          | (db', Ok (query', args')) \<Rightarrow>
              (db', exec (db_db db) (ExecContext ctx query' args') w)))"

definition db_Close :: "('h \<Rightarrow> 'w \<Rightarrow> 'w \<times> unit res) \<Rightarrow> 'h db \<Rightarrow> 'w \<Rightarrow> 'w \<times> unit res" where
  "db_Close close db w = close (db_db db) w"

definition Raw :: "'h db \<Rightarrow> 'h" where
  "Raw db = db_db db"

section \<open>The methods of Tx\<close>

text \<open>
  The pointer to the parent \<^verbatim>\<open>DB\<close> is the argument \<open>db\<close> of the methods, which share its cache.
  \<^verbatim>\<open>BeginTx\<close>, \<^verbatim>\<open>Commit\<close> and \<^verbatim>\<open>Rollback\<close> of the driver are parameters.
\<close>

record 'x tx =
  tx_tx :: 'x
  tx_interceptor :: interceptor
  tx_config :: config
  tx_placeholderStyle :: placeholder_style

definition db_Begin where
  "db_Begin beginTx db w ctx opts =
     (case beginTx (db_db db) ctx opts w of
        (w', Err e) \<Rightarrow> (w', Err (WrapErr ''tenantkit: failed to begin transaction: '' e []))
      | (w', Panic) \<Rightarrow> (w', Panic)
      | (w', Ok t) \<Rightarrow>
          (w', Ok \<lparr>tx_tx = t, tx_interceptor = db_interceptor db, tx_config = db_config db,
                   tx_placeholderStyle = placeholderStyle db\<rparr>))"

definition tx_Query where
  "tx_Query ord exec t db w ctx query args =
     (case ShouldFilter (tx_interceptor t) ctx query of
        Err e \<Rightarrow> (db, w, Err e)
      | Panic \<Rightarrow> (db, w, Panic)
      | Ok d \<Rightarrow>
         (case apply_decision ord db d query args of
            (db', Err e) \<Rightarrow> (db', w, Err (inject_error e))
          | (db', Panic) \<Rightarrow> (db', w, Panic)
          | (db', Ok (query', args')) \<Rightarrow>
              (db', exec (tx_tx t) (QueryContext ctx query' args') w)))"

definition tx_QueryRow where
  "tx_QueryRow ord exec t db w ctx query args =
     (case ShouldFilter (tx_interceptor t) ctx query of
        Err e \<Rightarrow> (db, w, Ok ZeroRow)
      | Panic \<Rightarrow> (db, w, Panic)
      | Ok d \<Rightarrow>
         (case apply_decision ord db d query args of
            (db', Err e) \<Rightarrow> (db', w, Ok ZeroRow)
          | (db', Panic) \<Rightarrow> (db', w, Panic)
          | (db', Ok (query', args')) \<Rightarrow>
              let (w', r) = exec (tx_tx t) (QueryRowContext ctx query' args') w
              in (db', w', Ok (RowOf r))))"

definition tx_Exec where
  "tx_Exec ord exec t db w ctx query args =
     (case ShouldFilter (tx_interceptor t) ctx query of
        Err e \<Rightarrow> (db, w, Err e)
      | Panic \<Rightarrow> (db, w, Panic)
      | Ok d \<Rightarrow>
         (case apply_decision ord db d query args of
            (db', Err e) \<Rightarrow> (db', w, Err (inject_error e))
          | (db', Panic) \<Rightarrow> (db', w, Panic)
          | (db', Ok (query', args')) \<Rightarrow>
              (db', exec (tx_tx t) (ExecContext ctx query' args') w)))"

definition tx_Commit where
  "tx_Commit commit t w = commit (tx_tx t) w"

definition tx_Rollback where
  "tx_Rollback rollback t w = rollback (tx_tx t) w"

section \<open>The text of a rewriting does not depend on the values\<close>

text \<open>The new text and the number of tenant arguments, from the statement alone.\<close>

definition plan :: "config \<Rightarrow> placeholder_style \<Rightarrow> string \<Rightarrow> (string \<times> nat) option" where
  "plan cfg st query =
     (let upper = to_upper query;
          existing = countPlaceholders st query
      in if has_prefix upper ''SELECT'' then
           (case extractAllTables query of
              Ok ts \<Rightarrow>
                let fs = filterTenantTables cfg ts in
                if fs = [] then Some (query, 0)
                else Some (select_text query
                       (str_join (tenant_conds cfg st fs (add64 existing 1)) '' AND ''), length fs)
            | _ \<Rightarrow> None)
         else if has_prefix upper ''UPDATE'' \<or> has_prefix upper ''DELETE''
         then Some (where_text cfg query (placeholder st (add64 existing 1)), 1)
         else if has_prefix upper ''INSERT'' then
           (case injectInsertFilter cfg st query [] [] of
              Ok (q', new) \<Rightarrow> Some (q', length new)
            | _ \<Rightarrow> None)
         else None)"

definition plan3 :: "config \<Rightarrow> placeholder_style \<Rightarrow> string \<Rightarrow> (string \<times> nat \<times> bool) option" where
  "plan3 cfg st q = map_option (\<lambda>(t, n). (t, n, True)) (plan cfg st q)"

lemma split_args_Ok_iff:
  "split_args k n t args = Ok new \<longleftrightarrow>
     k \<le> length args \<and> new = take k args @ replicate n (GStr t) @ drop k args"
  by (auto simp: split_args_def go_slice_def)

lemma split_args_cases:
  "split_args k n t args =
     (if k \<le> length args then Ok (take k args @ replicate n (GStr t) @ drop k args) else Panic)"
  by (simp add: split_args_def go_slice_def)

lemma injectInsertFilter_args:
  "(\<exists>q'. \<forall>t args. injectInsertFilter cfg st q t args = Ok (q', GStr t # args)) \<or>
   (\<forall>t args. injectInsertFilter cfg st q t args = Ok (q, args)) \<or>
   (\<exists>e. \<forall>t args. injectInsertFilter cfg st q t args = Err e) \<or>
   (\<forall>t args. injectInsertFilter cfg st q t args = Panic)"
proof (cases "str_index (to_upper q) ''INSERT INTO ''")
  case None
  then show ?thesis by (simp add: injectInsertFilter_def)
next
  case (Some i)
  show ?thesis
  proof (cases "str_index (to_upper q) '' VALUES ''")
    case None
    with Some show ?thesis by (simp add: injectInsertFilter_def)
  next
    case (Some v)
    note iv = \<open>str_index (to_upper q) ''INSERT INTO '' = Some i\<close> Some
    show ?thesis
    proof (cases "go_slice q (i + 12) v")
      case (Ok part)
      note d = injectInsertFilter_def Let_def split_beta iv Ok
      show ?thesis
      proof (cases "str_index part ''(''")
        case None
        then show ?thesis by (simp add: d)
      next
        case (Some p)
        then show ?thesis
          by (cases "columnExistsInList (to_upper (drop p part)) (to_upper (TenantColumn cfg))";
              cases "str_index (renumberPlaceholders st (drop (v + 8) q) 1) ''(''")
            (simp_all add: d)
      qed
    qed (use iv in \<open>simp_all add: injectInsertFilter_def\<close>)
  qed
qed

lemma kind_disjoint:
  "has_prefix u ''SELECT'' \<Longrightarrow> \<not> has_prefix u ''UPDATE'' \<and> \<not> has_prefix u ''DELETE'' \<and> \<not> has_prefix u ''INSERT''"
  "has_prefix u ''UPDATE'' \<Longrightarrow> \<not> has_prefix u ''DELETE'' \<and> \<not> has_prefix u ''INSERT''"
  "has_prefix u ''DELETE'' \<Longrightarrow> \<not> has_prefix u ''INSERT''"
  by (cases u; simp)+

text \<open>A rewriting that succeeds is the plan, with the counted arguments added.\<close>

lemma inject_miss_plan:
  assumes "inject_miss cfg st q t args = Some (Ok (q', new))"
  shows "plan cfg st q = Some (q', length new - length args)"
proof -
  let ?u = "to_upper q"
  consider "has_prefix ?u ''SELECT''" | "\<not> has_prefix ?u ''SELECT''" "has_prefix ?u ''UPDATE''"
    | "\<not> has_prefix ?u ''SELECT''" "\<not> has_prefix ?u ''UPDATE''" "has_prefix ?u ''DELETE''"
    | "\<not> has_prefix ?u ''SELECT''" "\<not> has_prefix ?u ''UPDATE''" "\<not> has_prefix ?u ''DELETE''"
      "has_prefix ?u ''INSERT''"
    using assms by (auto simp: inject_miss_def Let_def split: if_splits)
  then show ?thesis
  proof cases
    case 1
    then show ?thesis
      using assms by (auto simp: inject_miss_def plan_def injectSelectFilter_def res_bind_Ok_iff Let_def
          split: if_splits)
  next
    case 2
    then show ?thesis
      using assms by (auto simp: inject_miss_def plan_def injectUpdateFilter_def res_bind_Ok_iff
          split_args_Ok_iff Let_def split: if_splits)
  next
    case 3
    then show ?thesis
      using assms by (auto simp: inject_miss_def plan_def injectDeleteFilter_def Let_def split: if_splits)
  next
    case 4
    then show ?thesis
      using assms injectInsertFilter_args [of cfg st q]
      by (auto simp: inject_miss_def plan_def Let_def)
  qed
qed

text \<open>
  Where a plan exists, the arguments of a cache hit are those of the rewriting: for every
  statement in the \<^verbatim>\<open>?\<close> style, and in the other styles for all but an INSERT.
\<close>

lemma plan_inject_miss:
  assumes "plan cfg st q = Some (q', n)"
    "st = PlaceholderQuestion \<or> \<not> has_prefix (to_upper q) ''INSERT''"
  shows "inject_miss cfg st q t args = Some (res_bind (cached_args st q t args n) (\<lambda>new. Ok (q', new)))"
proof -
  let ?u = "to_upper q"
  consider "has_prefix ?u ''SELECT''" | "\<not> has_prefix ?u ''SELECT''" "has_prefix ?u ''UPDATE''"
    | "\<not> has_prefix ?u ''SELECT''" "\<not> has_prefix ?u ''UPDATE''" "has_prefix ?u ''DELETE''"
    | "\<not> has_prefix ?u ''SELECT''" "\<not> has_prefix ?u ''UPDATE''" "\<not> has_prefix ?u ''DELETE''"
      "has_prefix ?u ''INSERT''"
    using assms(1) by (auto simp: plan_def Let_def split: if_splits)
  then show ?thesis
  proof cases
    case 1
    then show ?thesis
      using assms(1) kind_disjoint(1) [OF 1]
      by (cases "extractAllTables q")
        (auto simp: inject_miss_def plan_def injectSelectFilter_def cached_args_def Let_def split: if_splits)
  next
    case 2
    then show ?thesis
      using assms(1) by (auto simp: inject_miss_def plan_def injectUpdateFilter_def cached_args_def Let_def)
  next
    case 3
    then show ?thesis
      using assms(1) by (auto simp: inject_miss_def plan_def injectDeleteFilter_def cached_args_def Let_def)
  next
    case 4
    then have "st = PlaceholderQuestion" using assms(2) by simp
    then show ?thesis
      using 4 assms(1) injectInsertFilter_args [of cfg st q]
      by (auto simp: inject_miss_def plan_def cached_args_def Let_def)
  qed
qed

section \<open>The cache never changes an answer\<close>

definition db_sound :: "'h db \<Rightarrow> bool" where
  "db_sound db \<longleftrightarrow> qc_distinct (queryCache db) \<and>
     qc.sound (plan3 (db_config db) (placeholderStyle db)) (queryCache db)"

text \<open>The answer without a cache.\<close>

definition uncached :: "'h db \<Rightarrow> string \<Rightarrow> string \<Rightarrow> gval list \<Rightarrow> (string \<times> gval list) res" where
  "uncached db query t args =
     (let q = trim_space query in
      case inject_miss (db_config db) (placeholderStyle db) q t args of
        None \<Rightarrow> Ok (q, args)
      | Some r \<Rightarrow> r)"

text \<open>An entry found for a statement is an entry of that statement: no other has its hash.\<close>

definition no_collision :: "'h db \<Rightarrow> string \<Rightarrow> bool" where
  "no_collision db query \<longleftrightarrow>
     (\<forall>q' v. qc_lookup (queryCache db) (trim_space query) = Some (q', v) \<longrightarrow> q' = trim_space query)"

lemma qc_Get_frame_lookup [simp]:
  "qc_lookup (fst (qc_Get qc q)) = qc_lookup qc" "qc_distinct (fst (qc_Get qc q)) = qc_distinct qc"
  by (simp_all add: fun_eq_iff qc_lookup_def qc_distinct_def qc_Get_frame)

lemma qc_sound_Get [simp]: "qc.sound f (fst (qc_Get qc q)) = qc.sound f qc"
  by (simp add: qc.sound_def)

lemma injectTenantFilter_frame:
  "db_config (fst (injectTenantFilter ord db q t args)) = db_config db"
  "placeholderStyle (fst (injectTenantFilter ord db q t args)) = placeholderStyle db"
  "db_interceptor (fst (injectTenantFilter ord db q t args)) = db_interceptor db"
  "db_db (fst (injectTenantFilter ord db q t args)) = db_db db"
  by (auto simp: injectTenantFilter_def Let_def split: prod.split option.split res.split)

lemma injectTenantFilter_sound:
  assumes "db_sound db"
  shows "db_sound (fst (injectTenantFilter ord db q t args))"
proof -
  let ?q = "trim_space q" and ?f = "plan3 (db_config db) (placeholderStyle db)"
  obtain c hit where g: "qc_Get (queryCache db) ?q = (c, hit)" by force
  have c: "qc_distinct c" "qc.sound ?f c"
    using assms g qc_Get_frame_lookup(2) [of "queryCache db" ?q] qc_sound_Get [of ?f "queryCache db" ?q]
    by (simp_all add: db_sound_def)
  have put: "qc_distinct (qc_Put ord c ?q q' (length new - length args) True) \<and>
      qc.sound ?f (qc_Put ord c ?q q' (length new - length args) True)"
    if "inject_miss (db_config db) (placeholderStyle db) ?q t args = Some (Ok (q', new))" for q' new
  proof -
    have "?f ?q = Some (q', length new - length args, True)"
      using inject_miss_plan [OF that] by (simp add: plan3_def)
    then show ?thesis
      using qc.sound_put [OF c, of ?q "(q', length new - length args, True)" ord]
        qc.inv_put [OF c(1), of ord ?q "(q', length new - length args, True)"]
      by (simp add: qc_put3_def)
  qed
  show ?thesis
    using c put by (auto simp: injectTenantFilter_def db_sound_def g Let_def
        split: option.split res.split)
qed

lemma injectTenantFilter_uncached:
  assumes "db_sound db" "no_collision db q"
    "placeholderStyle db = PlaceholderQuestion \<or> \<not> has_prefix (to_upper (trim_space q)) ''INSERT''"
  shows "snd (injectTenantFilter ord db q t args) = uncached db q t args"
proof -
  let ?q = "trim_space q"
  obtain c hit where g: "qc_Get (queryCache db) ?q = (c, hit)" by force
  have h: "hit = map_option snd (qc_lookup (queryCache db) ?q)"
    using qc_Get_lookup [of "queryCache db" ?q] g by simp
  show ?thesis
  proof (cases hit)
    case None
    then show ?thesis
      by (auto simp: injectTenantFilter_def uncached_def g Let_def split: option.split res.split)
  next
    case (Some v)
    then obtain q0 where "qc_lookup (queryCache db) ?q = Some (q0, v)" using h by auto
    then have "qc_lookup (queryCache db) ?q = Some (?q, v)"
      using assms(2) unfolding no_collision_def by metis
    then have "plan3 (db_config db) (placeholderStyle db) ?q = Some v"
      using assms(1) unfolding db_sound_def by (blast intro: qc.sound_hit)
    then obtain q' n where v: "v = (q', n, True)" "plan (db_config db) (placeholderStyle db) ?q = Some (q', n)"
      by (auto simp: plan3_def)
    show ?thesis
      using plan_inject_miss [OF v(2), of t args] assms(3) Some
      by (simp add: injectTenantFilter_def uncached_def g v(1) Let_def)
  qed
qed

section \<open>A DB in use\<close>

text \<open>
  The states a \<^verbatim>\<open>DB\<close> and its world go through: from a constructor, by the methods of the \<^verbatim>\<open>DB\<close>,
  by those of its transactions, and by \<open>ClearQueryCache\<close>.
\<close>

inductive db_reach :: "(64 word list \<Rightarrow> 64 word list) \<Rightarrow>
    ('h \<Rightarrow> go_ctx sql_call \<Rightarrow> 'w \<Rightarrow> 'w \<times> 'r res) \<Rightarrow>
    ('h \<Rightarrow> go_ctx \<Rightarrow> 'o \<Rightarrow> 'w \<Rightarrow> 'w \<times> 'h res) \<Rightarrow> 'h db \<Rightarrow> 'w \<Rightarrow> bool"
  for ord exec beginTx where
  wrap: "WrapWithStyle h cfg st = Ok db \<Longrightarrow> db_reach ord exec beginTx db w"
| query: "db_reach ord exec beginTx db w \<Longrightarrow> db_Query ord exec db w ctx q args = (db', w', r) \<Longrightarrow>
    db_reach ord exec beginTx db' w'"
| query_row: "db_reach ord exec beginTx db w \<Longrightarrow> db_QueryRow ord exec db w ctx q args = (db', w', r') \<Longrightarrow>
    db_reach ord exec beginTx db' w'"
| exec: "db_reach ord exec beginTx db w \<Longrightarrow> db_Exec ord exec db w ctx q args = (db', w', r) \<Longrightarrow>
    db_reach ord exec beginTx db' w'"
| begin_query: "db_reach ord exec beginTx db w \<Longrightarrow> db_Begin beginTx db w ctx opts = (w1, Ok t) \<Longrightarrow>
    tx_Query ord exec t db w1 ctx' q args = (db', w', r) \<Longrightarrow> db_reach ord exec beginTx db' w'"
| begin_query_row: "db_reach ord exec beginTx db w \<Longrightarrow> db_Begin beginTx db w ctx opts = (w1, Ok t) \<Longrightarrow>
    tx_QueryRow ord exec t db w1 ctx' q args = (db', w', r') \<Longrightarrow> db_reach ord exec beginTx db' w'"
| begin_exec: "db_reach ord exec beginTx db w \<Longrightarrow> db_Begin beginTx db w ctx opts = (w1, Ok t) \<Longrightarrow>
    tx_Exec ord exec t db w1 ctx' q args = (db', w', r) \<Longrightarrow> db_reach ord exec beginTx db' w'"
| clear: "db_reach ord exec beginTx db w \<Longrightarrow> db_reach ord exec beginTx (ClearQueryCache db) w"

text \<open>What holds in every such state.\<close>

definition db_ok :: "'h db \<Rightarrow> bool" where
  "db_ok db \<longleftrightarrow> db_sound db \<and> qc_ok (queryCache db) \<and> maxSize (queryCache db) = 1000 \<and>
     NewInterceptor (db_config db) = Ok (db_interceptor db)"

lemma qc_ok_distinct: "qc_ok qc \<Longrightarrow> qc_distinct qc"
  by (simp add: qc_ok_def qc_distinct_def)

lemma WrapWithStyle_Ok:
  assumes "WrapWithStyle h cfg st = Ok db"
  shows "\<exists>i x. h = Some x \<and> NewInterceptor cfg = Ok i \<and>
    db = \<lparr>db_db = x, db_interceptor = i, db_config = cfg, placeholderStyle = st,
          queryCache = NewQueryCache 1000\<rparr>"
  using assms by (auto simp: WrapWithStyle_def Wrap_def res_bind_Ok_iff split: option.splits)

lemma db_ok_wrap:
  assumes "WrapWithStyle h cfg st = Ok db"
  shows "db_ok db"
proof -
  have "qc_lookup (NewQueryCache 1000) k = None" for k
    by (simp add: qc_lookup_def NewQueryCache_def)
  then have "qc.sound f (NewQueryCache 1000)" for f by (intro qc.sound_empty) simp
  then show ?thesis
    using WrapWithStyle_Ok [OF assms] qc_ok_New [of 1000] qc_ok_distinct
    by (auto simp: db_ok_def db_sound_def NewQueryCache_def)
qed

lemma db_ok_clear: "db_ok db \<Longrightarrow> db_ok (ClearQueryCache db)"
proof -
  assume "db_ok db"
  have "qc_lookup (qc_Clear qc) k = None" for qc k by (simp add: qc_lookup_def qc_Clear_def)
  then have "qc.sound f (qc_Clear qc)" for f qc by (intro qc.sound_empty) simp
  then show ?thesis
    using \<open>db_ok db\<close> by (auto simp: db_ok_def db_sound_def ClearQueryCache_def qc_ok_Clear
        intro: qc_ok_distinct [OF qc_ok_Clear]) (simp add: qc_Clear_def)
qed

lemma qc_Put_maxSize [simp]: "maxSize (qc_Put ord qc q t n b) = maxSize qc"
  by (simp add: qc_Put_def Let_def)

lemma injectTenantFilter_qc_ok:
  assumes "map_order ord" "qc_ok (queryCache db)"
  shows "qc_ok (queryCache (fst (injectTenantFilter ord db q t args)))"
    "maxSize (queryCache (fst (injectTenantFilter ord db q t args))) = maxSize (queryCache db)"
proof -
  let ?q = "trim_space q"
  obtain c hit where g: "qc_Get (queryCache db) ?q = (c, hit)" by force
  have c: "qc_ok c" "maxSize c = maxSize (queryCache db)"
    using qc_ok_Get [OF assms(2), of ?q] qc_Get_frame(2) [of "queryCache db" ?q] by (simp_all add: g)
  then show "qc_ok (queryCache (fst (injectTenantFilter ord db q t args)))"
    "maxSize (queryCache (fst (injectTenantFilter ord db q t args))) = maxSize (queryCache db)"
    using qc_ok_Put [OF assms(1) c(1)]
    by (auto simp: injectTenantFilter_def g Let_def split: option.split res.split)
qed

lemma db_ok_inject:
  assumes "map_order ord" "db_ok db"
  shows "db_ok (fst (injectTenantFilter ord db q t args))"
  using assms injectTenantFilter_sound [of db ord q t args] injectTenantFilter_qc_ok [OF assms(1), of db q t args]
    injectTenantFilter_frame [of ord db q t args]
  by (simp add: db_ok_def)

lemma db_ok_apply:
  assumes "map_order ord" "db_ok db" "apply_decision ord db d q args = (db', r)"
  shows "db_ok db'"
  using assms db_ok_inject [OF assms(1,2), of q "TenantID d" args]
  by (auto simp: apply_decision_def split: if_splits)

text \<open>A method leaves the \<^verbatim>\<open>DB\<close> alone, or as its rewriting leaves it.\<close>

lemma method_db:
  "db_Query ord exec db w ctx q args = (db', w', r) \<Longrightarrow> db' = db \<or> (\<exists>d x. apply_decision ord db d q args = (db', x))"
  "db_QueryRow ord exec db w ctx q args = (db', w', r') \<Longrightarrow> db' = db \<or> (\<exists>d x. apply_decision ord db d q args = (db', x))"
  "db_Exec ord exec db w ctx q args = (db', w', r) \<Longrightarrow> db' = db \<or> (\<exists>d x. apply_decision ord db d q args = (db', x))"
  "tx_Query ord exec t db w ctx q args = (db', w', r) \<Longrightarrow> db' = db \<or> (\<exists>d x. apply_decision ord db d q args = (db', x))"
  "tx_QueryRow ord exec t db w ctx q args = (db', w', r') \<Longrightarrow> db' = db \<or> (\<exists>d x. apply_decision ord db d q args = (db', x))"
  "tx_Exec ord exec t db w ctx q args = (db', w', r) \<Longrightarrow> db' = db \<or> (\<exists>d x. apply_decision ord db d q args = (db', x))"
  by (auto simp: db_Query_def db_QueryRow_def db_Exec_def tx_Query_def tx_QueryRow_def tx_Exec_def
      Let_def split: res.splits prod.splits)

lemma db_reach_ok:
  assumes "map_order ord" "db_reach ord exec beginTx db w"
  shows "db_ok db"
  using assms(2)
proof (induction rule: db_reach.induct)
  case (wrap h cfg st db w)
  then show ?case by (rule db_ok_wrap)
next
  case (query db w ctx q args db' w' r)
  from method_db(1) [OF query.hyps(2)] show ?case
    using query.IH db_ok_apply [OF assms(1)] by auto
next
  case (query_row db w ctx q args db' w' r')
  from method_db(2) [OF query_row.hyps(2)] show ?case
    using query_row.IH db_ok_apply [OF assms(1)] by auto
next
  case (exec db w ctx q args db' w' r)
  from method_db(3) [OF exec.hyps(2)] show ?case
    using exec.IH db_ok_apply [OF assms(1)] by auto
next
  case (begin_query db w ctx opts w1 t ctx' q args db' w' r)
  from method_db(4) [OF begin_query.hyps(3)] show ?case
    using begin_query.IH db_ok_apply [OF assms(1)] by auto
next
  case (begin_query_row db w ctx opts w1 t ctx' q args db' w' r')
  from method_db(5) [OF begin_query_row.hyps(3)] show ?case
    using begin_query_row.IH db_ok_apply [OF assms(1)] by auto
next
  case (begin_exec db w ctx opts w1 t ctx' q args db' w' r)
  from method_db(6) [OF begin_exec.hyps(3)] show ?case
    using begin_exec.IH db_ok_apply [OF assms(1)] by auto
next
  case (clear db w)
  then show ?case by (intro db_ok_clear)
qed

section \<open>What the methods do\<close>

text \<open>Without a tenant nothing is sent, and nothing is stored.\<close>

lemma methods_refuse:
  assumes "needs_tenant (db_interceptor db) ctx q" "\<not> snd (GetTenant ctx)"
  shows "db_Query ord exec db w ctx q args =
      (db, w, Err (TenantErr q (touched (db_interceptor db) q) ErrMissingTenant))"
    "db_Exec ord exec db w ctx q args =
      (db, w, Err (TenantErr q (touched (db_interceptor db) q) ErrMissingTenant))"
    "db_QueryRow ord exec db w ctx q args = (db, w, Ok ZeroRow)"
  using ShouldFilter_needs_tenant(1) [OF assms]
  by (simp_all add: db_Query_def db_Exec_def db_QueryRow_def)

text \<open>A statement that needs no tenant is sent as it is.\<close>

lemma methods_pass:
  assumes "\<not> needs_tenant (db_interceptor db) ctx q"
  shows "db_Query ord exec db w ctx q args = (db, exec (db_db db) (QueryContext ctx q args) w)"
    "db_Exec ord exec db w ctx q args = (db, exec (db_db db) (ExecContext ctx q args) w)"
    "db_QueryRow ord exec db w ctx q args =
      (db, fst (exec (db_db db) (QueryRowContext ctx q args) w),
       Ok (RowOf (snd (exec (db_db db) (QueryRowContext ctx q args) w))))"
  using ShouldFilter_free [OF assms]
  by (auto simp: db_Query_def db_Exec_def db_QueryRow_def apply_decision_def Let_def split: prod.splits)

text \<open>The world and the answer of a call built from a rewriting.\<close>

definition send where
  "send exec h call r w =
     (case r of
        Ok (q', args') \<Rightarrow> exec h (call q' args') w
      | Err e \<Rightarrow> (w, Err (inject_error e))
      | Panic \<Rightarrow> (w, Panic))"

definition send_row where
  "send_row exec h call r w =
     (case r of
        Ok (q', args') \<Rightarrow> (let (w', x) = exec h (call q' args') w in (w', Ok (RowOf x)))
      | Err e \<Rightarrow> (w, Ok ZeroRow)
      | Panic \<Rightarrow> (w, Panic))"

lemma methods_send:
  assumes "needs_tenant (db_interceptor db) ctx q" "GetTenant ctx = (t, True)"
  shows "db_Query ord exec db w ctx q args =
      (fst (injectTenantFilter ord db q t args),
       send exec (db_db db) (QueryContext ctx) (snd (injectTenantFilter ord db q t args)) w)"
    "db_Exec ord exec db w ctx q args =
      (fst (injectTenantFilter ord db q t args),
       send exec (db_db db) (ExecContext ctx) (snd (injectTenantFilter ord db q t args)) w)"
    "db_QueryRow ord exec db w ctx q args =
      (fst (injectTenantFilter ord db q t args),
       send_row exec (db_db db) (QueryRowContext ctx) (snd (injectTenantFilter ord db q t args)) w)"
  using ShouldFilter_needs_tenant(2) [OF assms]
  by (auto simp: db_Query_def db_Exec_def db_QueryRow_def apply_decision_def send_def send_row_def Let_def
      split: prod.splits res.splits)

text \<open>A transaction is the \<^verbatim>\<open>DB\<close> it comes from, with the driver's transaction as its handle.\<close>

lemma tx_methods:
  assumes "db_Begin beginTx db w ctx opts = (w', Ok t)" "db' = db\<lparr>queryCache := c\<rparr>"
  shows "tx_Query ord exec t db' v ctx' q args =
      db_Query ord (\<lambda>_. exec (tx_tx t)) db' v ctx' q args"
    "tx_QueryRow ord exec t db' v ctx' q args =
      db_QueryRow ord (\<lambda>_. exec (tx_tx t)) db' v ctx' q args"
    "tx_Exec ord exec t db' v ctx' q args =
      db_Exec ord (\<lambda>_. exec (tx_tx t)) db' v ctx' q args"
  using assms
  by (auto simp: db_Begin_def tx_Query_def db_Query_def tx_QueryRow_def db_QueryRow_def tx_Exec_def db_Exec_def
      split: prod.splits res.splits)

end
