(* ===== verification/Shop_Example.thy ===== *)
theory Shop_Example
  imports Tenant_DB
begin

text \<open>
  A small database on which the properties of \<^verbatim>\<open>DB\<close> are instantiated: two tenant tables, a
  tenant, a driver that records its calls, and a statement of each kind.
\<close>

definition shop_config :: config where
  "shop_config = \<lparr>TenantTables = [''users'', ''orders''], TenantColumn = ''tenant_id''\<rparr>"

definition shop_interceptor :: interceptor where
  "shop_interceptor = \<lparr>icpt_config = shop_config, systemDetector = NewSystemQueryDetector,
     tenantTableMap = {''users'', ''orders''}\<rparr>"

definition shop_db :: "placeholder_style \<Rightarrow> unit db" where
  "shop_db st = \<lparr>db_db = (), db_interceptor = shop_interceptor, db_config = shop_config,
     placeholderStyle = st, queryCache = NewQueryCache 1000\<rparr>"

text \<open>The world is the list of the statements the driver got, with their arguments.\<close>

type_synonym call_log = "(string \<times> gval list) list"

definition record_call :: "unit \<Rightarrow> go_ctx sql_call \<Rightarrow> call_log \<Rightarrow> call_log \<times> unit res" where
  "record_call h c w = (w @ [(call_query c, call_args c)], Ok ())"

definition begin_tx :: "unit \<Rightarrow> go_ctx \<Rightarrow> unit \<Rightarrow> call_log \<Rightarrow> call_log \<times> unit res" where
  "begin_tx h ctx opts w = (w, Ok ())"

definition acme :: go_ctx where
  "acme = WithTenant background ''acme''"

lemma map_order_id: "map_order (\<lambda>ks. ks)"
  by (simp add: map_order_def)

lemma shop_interceptor_new: "NewInterceptor shop_config = Ok shop_interceptor"
proof -
  have "map to_lower [''users'', ''orders''] = [''users'', ''orders'']" by code_simp
  then show ?thesis by (simp add: NewInterceptor_def shop_config_def shop_interceptor_def)
qed

lemma shop_db_simps [simp]:
  "db_db (shop_db st) = ()" "db_interceptor (shop_db st) = shop_interceptor"
  "db_config (shop_db st) = shop_config" "placeholderStyle (shop_db st) = st"
  "queryCache (shop_db st) = NewQueryCache 1000"
  by (simp_all add: shop_db_def)

lemma shop_db_wrap: "WrapWithStyle (Some ()) shop_config st = Ok (shop_db st)"
  by (simp add: WrapWithStyle_def Wrap_def shop_interceptor_new shop_db_def)

lemma shop_db_reach: "db_reach (\<lambda>ks. ks) record_call begin_tx (shop_db st) w"
  by (rule db_reach.wrap [OF shop_db_wrap])

lemma shop_no_collision: "no_collision (shop_db st) q"
  by (simp add: no_collision_def qc_lookup_def NewQueryCache_def)

lemma shop_miss: "qc_lookup (queryCache (shop_db st)) q = None"
  by (simp add: qc_lookup_def NewQueryCache_def)

lemma acme_tenant: "GetTenant acme = (''acme'', True)"
  by (simp add: acme_def GetTenant_WithTenant)

lemma acme_no_bypass: "\<not> shouldBypass acme"
  by (simp add: acme_def) (simp add: shouldBypass_def background_def)

text \<open>A statement that names one of the two tables needs a tenant.\<close>

lemma shop_needs_tenant:
  assumes "IsSystemQuery NewSystemQueryDetector q = False" "filter (\<lambda>t. to_lower t \<in> set [''users'', ''orders'']) (tables_of q) \<noteq> []"
    "\<not> shouldBypass ctx"
  shows "needs_tenant shop_interceptor ctx q"
  using assms by (simp add: needs_tenant_def touched_def shop_interceptor_def)

definition select_users :: string where
  "select_users = ''SELECT * FROM users u WHERE age > $1 ORDER BY age''"

definition select_users_q :: string where
  "select_users_q = ''SELECT * FROM users WHERE age > ?''"

definition list_users :: string where
  "list_users = ''SELECT * FROM users LIMIT 5''"

definition update_users :: string where
  "update_users = ''UPDATE users SET name = $1 WHERE id = $2''"

definition update_users_q :: string where
  "update_users_q = ''UPDATE users SET name = ? WHERE id = ?''"

definition delete_users_q :: string where
  "delete_users_q = ''DELETE FROM users WHERE id = ?''"

definition delete_all_users :: string where
  "delete_all_users = ''DELETE FROM users''"

definition insert_users :: string where
  "insert_users = ''INSERT INTO users (name) VALUES ($1)''"

definition insert_users_q :: string where
  "insert_users_q = ''INSERT INTO users (name) VALUES (?)''"

lemmas statement_defs = select_users_def select_users_q_def list_users_def update_users_def
  update_users_q_def delete_users_q_def delete_all_users_def insert_users_def insert_users_q_def

lemma system_statements:
  "IsSystemQuery NewSystemQueryDetector select_users = False"
  "IsSystemQuery NewSystemQueryDetector select_users_q = False"
  "IsSystemQuery NewSystemQueryDetector list_users = False"
  "IsSystemQuery NewSystemQueryDetector update_users = False"
  "IsSystemQuery NewSystemQueryDetector update_users_q = False"
  "IsSystemQuery NewSystemQueryDetector delete_users_q = False"
  "IsSystemQuery NewSystemQueryDetector delete_all_users = False"
  "IsSystemQuery NewSystemQueryDetector insert_users = False"
  "IsSystemQuery NewSystemQueryDetector insert_users_q = False"
  by code_simp+

lemma trim_statements:
  "trim_space select_users = select_users" "trim_space select_users_q = select_users_q"
  "trim_space list_users = list_users" "trim_space update_users = update_users"
  "trim_space update_users_q = update_users_q" "trim_space delete_users_q = delete_users_q"
  "trim_space delete_all_users = delete_all_users" "trim_space insert_users = insert_users"
  "trim_space insert_users_q = insert_users_q"
  by code_simp+

lemma statement_tables:
  "filter (\<lambda>t. to_lower t \<in> set [''users'', ''orders'']) (tables_of select_users) \<noteq> []"
  "filter (\<lambda>t. to_lower t \<in> set [''users'', ''orders'']) (tables_of list_users) \<noteq> []"
  "filter (\<lambda>t. to_lower t \<in> set [''users'', ''orders'']) (tables_of delete_all_users) \<noteq> []"
  by code_simp+

lemma statement_tables_q:
  "filter (\<lambda>t. to_lower t \<in> set [''users'', ''orders'']) (tables_of select_users_q) \<noteq> []"
  "filter (\<lambda>t. to_lower t \<in> set [''users'', ''orders'']) (tables_of update_users_q) \<noteq> []"
  "filter (\<lambda>t. to_lower t \<in> set [''users'', ''orders'']) (tables_of delete_users_q) \<noteq> []"
  by code_simp+

lemma statement_tables_ins:
  "filter (\<lambda>t. to_lower t \<in> set [''users'', ''orders'']) (tables_of update_users) \<noteq> []"
  "filter (\<lambda>t. to_lower t \<in> set [''users'', ''orders'']) (tables_of insert_users) \<noteq> []"
  "filter (\<lambda>t. to_lower t \<in> set [''users'', ''orders'']) (tables_of insert_users_q) \<noteq> []"
  by code_simp+

text \<open>Each of them is a call for the tenant, on a fresh \<^verbatim>\<open>DB\<close>.\<close>

lemma shop_statements:
  assumes "\<not> shouldBypass ctx"
  shows "needs_tenant shop_interceptor ctx select_users" "needs_tenant shop_interceptor ctx select_users_q"
    "needs_tenant shop_interceptor ctx list_users" "needs_tenant shop_interceptor ctx update_users"
    "needs_tenant shop_interceptor ctx update_users_q" "needs_tenant shop_interceptor ctx delete_users_q"
    "needs_tenant shop_interceptor ctx delete_all_users" "needs_tenant shop_interceptor ctx insert_users"
    "needs_tenant shop_interceptor ctx insert_users_q"
  using assms system_statements statement_tables statement_tables_q statement_tables_ins
  by - (rule shop_needs_tenant; assumption)+

end
