(* ===== verification/DB_Isolation.thy ===== *)
theory DB_Isolation
  imports Rewrite_Insert Shop_Example
begin

text \<open>
  What the driver gets from the methods of \<^verbatim>\<open>DB\<close>: the statement of the caller with the tenant's
  condition, each argument where it was. The rewriting theories say what a rewritten statement
  binds; here the decision, the cache and the driver are put around them.
\<close>

section \<open>A call for a tenant\<close>

definition tenant_call :: "'h db \<Rightarrow> go_ctx \<Rightarrow> string \<Rightarrow> string \<Rightarrow> bool" where
  "tenant_call db ctx t q \<longleftrightarrow>
     needs_tenant (db_interceptor db) ctx q \<and> GetTenant ctx = (t, True) \<and> no_collision db q"

lemma methods_uncached:
  assumes "tenant_call db ctx t q" "db_ok db"
    "placeholderStyle db = PlaceholderQuestion \<or> \<not> has_prefix (to_upper (trim_space q)) ''INSERT''"
  shows "snd (db_Query ord exec db w ctx q args) = send exec (db_db db) (QueryContext ctx) (uncached db q t args) w"
    "snd (db_Exec ord exec db w ctx q args) = send exec (db_db db) (ExecContext ctx) (uncached db q t args) w"
    "snd (db_QueryRow ord exec db w ctx q args) =
      send_row exec (db_db db) (QueryRowContext ctx) (uncached db q t args) w"
  using assms
  by (simp_all add: tenant_call_def db_ok_def methods_send [of db ctx q t] injectTenantFilter_uncached [of db q])

text \<open>A statement the cache does not know is always rewritten anew.\<close>

lemma injectTenantFilter_miss:
  assumes "qc_lookup (queryCache db) (trim_space q) = None"
  shows "snd (injectTenantFilter ord db q t args) = uncached db q t args"
  using assms qc_Get_lookup [of "queryCache db" "trim_space q"]
  by (auto simp: injectTenantFilter_def uncached_def Let_def split: prod.splits option.splits res.splits)

lemma exec_miss:
  assumes "tenant_call db ctx t q" "qc_lookup (queryCache db) (trim_space q) = None"
  shows "snd (db_Exec ord exec db w ctx q args) = send exec (db_db db) (ExecContext ctx) (uncached db q t args) w"
  using assms by (simp add: tenant_call_def methods_send(2) [of db ctx q t] injectTenantFilter_miss)

text \<open>The rewriting by the kind of the statement.\<close>

lemma uncached_kind:
  "has_prefix (to_upper (trim_space q)) ''SELECT'' \<Longrightarrow> uncached db q t args =
     injectSelectFilter (db_config db) (placeholderStyle db) (trim_space q) t args
       (countPlaceholders (placeholderStyle db) (trim_space q))"
  "has_prefix (to_upper (trim_space q)) ''UPDATE'' \<Longrightarrow> uncached db q t args =
     injectUpdateFilter (db_config db) (placeholderStyle db) (trim_space q) t args
       (countPlaceholders (placeholderStyle db) (trim_space q))"
  "has_prefix (to_upper (trim_space q)) ''DELETE'' \<Longrightarrow> uncached db q t args =
     injectDeleteFilter (db_config db) (placeholderStyle db) (trim_space q) t args
       (countPlaceholders (placeholderStyle db) (trim_space q))"
  "has_prefix (to_upper (trim_space q)) ''INSERT'' \<Longrightarrow> uncached db q t args =
     injectInsertFilter (db_config db) (placeholderStyle db) (trim_space q) t args"
  using kind_disjoint [of "to_upper (trim_space q)"] by (auto simp: uncached_def inject_miss_def Let_def)



lemma exec_uncached_Ok:
  assumes "tenant_call db ctx t q" "db_ok db" "uncached db q t args = Ok (q', new)"
    "placeholderStyle db = PlaceholderQuestion \<or> \<not> has_prefix (to_upper (trim_space q)) ''INSERT''"
  shows "snd (db_Exec ord exec db w ctx q args) = exec (db_db db) (ExecContext ctx q' new) w"
    "snd (db_Query ord exec db w ctx q args) = exec (db_db db) (QueryContext ctx q' new) w"
  by (simp_all add: methods_uncached [OF assms(1,2,4)] assms(3) send_def)

section \<open>Properties: positional placeholders\<close>

text \<open>
  DELETE in the \<^verbatim>\<open>?\<close> style, through \<^verbatim>\<open>DB.Exec\<close>: the driver gets the statement with the
  tenant's condition joined to its own conditions, and every argument stays with its placeholder.
\<close>

theorem exec_delete_positional:
  assumes "map_order ord" "db_reach ord exec beginTx db w" "tenant_call db ctx t q"
    "placeholderStyle db = PlaceholderQuestion" "has_prefix (to_upper (trim_space q)) ''DELETE''"
    "cut_where (trim_space q) ['' RETURNING ''] = Some (b, c, r)" "qmarks b = 0"
    "qmarks (TenantColumn (db_config db)) = 0" "qmarks (trim_space q) \<le> length args"
  shows "\<exists>q' new. snd (db_Exec ord exec db w ctx q args) = exec (db_db db) (ExecContext ctx q' new) w \<and>
    bind_q (trim_space q) args = map Ch b @ bind_q c args @ bind_q r (drop (qmarks c) args) \<and>
    bind_q q' new = bound_conjoin (map Ch b) (tenant_pieces (db_config db) t)
      (bind_q c args) (bind_q r (drop (qmarks c) args))"
proof -
  have ok: "db_ok db" by (rule db_reach_ok [OF assms(1,2)])
  obtain q' new where i: "injectDeleteFilter (db_config db) PlaceholderQuestion (trim_space q) t args
      (countPlaceholders PlaceholderQuestion (trim_space q)) = Ok (q', new)"
    by (simp add: injectDeleteFilter_def)
  have "uncached db q t args = Ok (q', new)" by (simp add: uncached_kind(3) [OF assms(5)] assms(4) i)
  then have "snd (db_Exec ord exec db w ctx q args) = exec (db_db db) (ExecContext ctx q' new) w"
    using exec_uncached_Ok(1) [OF assms(3) ok] assms(4) by simp
  then show ?thesis
    using delete_bound [OF assms(6-9) i] bind_q_parts [OF assms(6,9)] bind_q_plain [OF assms(7)] assms(7)
    by auto
qed

lemma exec_delete_positional_witness:
  "\<exists>q' new. snd (db_Exec (\<lambda>ks. ks) record_call (shop_db PlaceholderQuestion) [] acme delete_users_q [GInt 7]) =
      record_call () (ExecContext acme q' new) [] \<and>
    bind_q q' new = bound_conjoin (map Ch ''DELETE FROM users WHERE '') (tenant_pieces shop_config ''acme'')
      (map Ch ''id = '' @ [Val (GInt 7)]) []"
proof -
  have call: "tenant_call (shop_db PlaceholderQuestion) acme ''acme'' delete_users_q"
    by (simp add: tenant_call_def acme_tenant shop_no_collision shop_statements acme_no_bypass)
  have k: "has_prefix (to_upper (trim_space delete_users_q)) ''DELETE''" by code_simp
  have c: "cut_where (trim_space delete_users_q) ['' RETURNING ''] =
      Some (''DELETE FROM users WHERE '', ''id = ?'', '''')" by code_simp
  have z: "qmarks ''DELETE FROM users WHERE '' = 0" "qmarks (TenantColumn (db_config (shop_db PlaceholderQuestion))) = 0"
    "qmarks (trim_space delete_users_q) \<le> length [GInt 7]" by code_simp+
  have b: "bind_q ''id = ?'' [GInt 7] = map Ch ''id = '' @ [Val (GInt 7)]" by code_simp
  show ?thesis
    using exec_delete_positional [OF map_order_id shop_db_reach call shop_db_simps(4) k c z, of "[]"]
    unfolding b by auto
qed

text \<open>
  UPDATE in the \<^verbatim>\<open>?\<close> style: the arguments of the SET clause come first, then the tenant's,
  then those of the conditions.
\<close>

theorem exec_update_positional:
  assumes "map_order ord" "db_reach ord exec beginTx db w" "tenant_call db ctx t q"
    "placeholderStyle db = PlaceholderQuestion" "has_prefix (to_upper (trim_space q)) ''UPDATE''"
    "cut_where (trim_space q) ['' RETURNING ''] = Some (b, c, r)"
    "qmarks (TenantColumn (db_config db)) = 0" "qmarks (trim_space q) \<le> length args"
  shows "\<exists>q' new. snd (db_Exec ord exec db w ctx q args) = exec (db_db db) (ExecContext ctx q' new) w \<and>
    bind_q (trim_space q) args = bind_q b args @ bind_q c (drop (qmarks b) args)
      @ bind_q r (drop (qmarks b + qmarks c) args) \<and>
    bind_q q' new = bound_conjoin (bind_q b args) (tenant_pieces (db_config db) t)
      (bind_q c (drop (qmarks b) args)) (bind_q r (drop (qmarks b + qmarks c) args))"
proof -
  have ok: "db_ok db" by (rule db_reach_ok [OF assms(1,2)])
  from update_bound [OF assms(6-8), of t "countPlaceholders PlaceholderQuestion (trim_space q)"]
  obtain q' new where i: "injectUpdateFilter (db_config db) PlaceholderQuestion (trim_space q) t args
      (countPlaceholders PlaceholderQuestion (trim_space q)) = Ok (q', new)"
    and b: "bind_q q' new = bound_conjoin (bind_q b args) (tenant_pieces (db_config db) t)
      (bind_q c (drop (qmarks b) args)) (bind_q r (drop (qmarks b + qmarks c) args))" by blast
  have "uncached db q t args = Ok (q', new)" by (simp add: uncached_kind(2) [OF assms(5)] assms(4) i)
  then have "snd (db_Exec ord exec db w ctx q args) = exec (db_db db) (ExecContext ctx q' new) w"
    using exec_uncached_Ok(1) [OF assms(3) ok] assms(4) by simp
  then show ?thesis using b bind_q_parts [OF assms(6,8)] by blast
qed

lemma exec_update_positional_witness:
  "\<exists>q' new. snd (db_Exec (\<lambda>ks. ks) record_call (shop_db PlaceholderQuestion) [] acme update_users_q [GStr ''eve'', GInt 7]) =
      record_call () (ExecContext acme q' new) [] \<and>
    bind_q q' new = bound_conjoin (map Ch ''UPDATE users SET name = '' @ Val (GStr ''eve'') # map Ch '' WHERE '')
      (tenant_pieces shop_config ''acme'') (map Ch ''id = '' @ [Val (GInt 7)]) []"
proof -
  have call: "tenant_call (shop_db PlaceholderQuestion) acme ''acme'' update_users_q"
    by (simp add: tenant_call_def acme_tenant shop_no_collision shop_statements acme_no_bypass)
  have k: "has_prefix (to_upper (trim_space update_users_q)) ''UPDATE''" by code_simp
  have c: "cut_where (trim_space update_users_q) ['' RETURNING ''] =
      Some (''UPDATE users SET name = ? WHERE '', ''id = ?'', '''')" by code_simp
  have z: "qmarks (TenantColumn (db_config (shop_db PlaceholderQuestion))) = 0"
    "qmarks (trim_space update_users_q) \<le> length [GStr ''eve'', GInt 7]" by code_simp+
  have b: "bind_q ''UPDATE users SET name = ? WHERE '' [GStr ''eve'', GInt 7] =
      map Ch ''UPDATE users SET name = '' @ Val (GStr ''eve'') # map Ch '' WHERE ''"
    "bind_q ''id = ?'' (drop (qmarks ''UPDATE users SET name = ? WHERE '') [GStr ''eve'', GInt 7]) =
      map Ch ''id = '' @ [Val (GInt 7)]" by code_simp+
  show ?thesis
    using exec_update_positional [OF map_order_id shop_db_reach call shop_db_simps(4) k c z, of "[]"]
    unfolding b by auto
qed


text \<open>
  SELECT in the \<^verbatim>\<open>?\<close> style, through \<^verbatim>\<open>DB.Query\<close>: one condition for each tenant table the
  statement reads, before its own conditions.
\<close>

theorem query_select_positional:
  assumes "map_order ord" "db_reach ord exec beginTx db w" "tenant_call db ctx t q"
    "placeholderStyle db = PlaceholderQuestion" "has_prefix (to_upper (trim_space q)) ''SELECT''"
    "cut_where (trim_space q) endKeywords = Some (b, c, r)" "qmarks b = 0"
    "qmarks (TenantColumn (db_config db)) = 0" "qmarks (trim_space q) \<le> length args"
    "extractAllTables (trim_space q) = Ok ts" "rs = filterTenantTables (db_config db) ts" "rs \<noteq> []"
    "\<forall>x \<in> set rs. qmarks (ref_name x) = 0"
  shows "\<exists>q' new. snd (db_Query ord exec db w ctx q args) = exec (db_db db) (QueryContext ctx q' new) w \<and>
    bind_q (trim_space q) args = map Ch b @ bind_q c args @ bind_q r (drop (qmarks c) args) \<and>
    bind_q q' new = bound_conjoin (map Ch b) (select_pieces (db_config db) rs t)
      (bind_q c args) (bind_q r (drop (qmarks c) args))"
proof -
  have ok: "db_ok db" by (rule db_reach_ok [OF assms(1,2)])
  from select_bound [OF assms(6-13), of t "countPlaceholders PlaceholderQuestion (trim_space q)"]
  obtain q' new where i: "injectSelectFilter (db_config db) PlaceholderQuestion (trim_space q) t args
      (countPlaceholders PlaceholderQuestion (trim_space q)) = Ok (q', new)"
    and b: "bind_q q' new = bound_conjoin (bind_q b args) (select_pieces (db_config db) rs t)
      (bind_q c (drop (qmarks b) args)) (bind_q r (drop (qmarks b + qmarks c) args))" by blast
  have "uncached db q t args = Ok (q', new)" by (simp add: uncached_kind(1) [OF assms(5)] assms(4) i)
  then have "snd (db_Query ord exec db w ctx q args) = exec (db_db db) (QueryContext ctx q' new) w"
    using exec_uncached_Ok(2) [OF assms(3) ok] assms(4) by simp
  then show ?thesis
    using b bind_q_parts [OF assms(6,9)] bind_q_plain [OF assms(7)] assms(7) by auto
qed

lemma query_select_positional_witness:
  "\<exists>q' new. snd (db_Query (\<lambda>ks. ks) record_call (shop_db PlaceholderQuestion) [] acme select_users_q [GInt 7]) =
      record_call () (QueryContext acme q' new) [] \<and>
    bind_q q' new = bound_conjoin (map Ch ''SELECT * FROM users WHERE '')
      (map Ch ''users.'' @ tenant_pieces shop_config ''acme'') (map Ch ''age > '' @ [Val (GInt 7)]) []"
proof -
  have call: "tenant_call (shop_db PlaceholderQuestion) acme ''acme'' select_users_q"
    by (simp add: tenant_call_def acme_tenant shop_no_collision shop_statements acme_no_bypass)
  have k: "has_prefix (to_upper (trim_space select_users_q)) ''SELECT''" by code_simp
  have c: "cut_where (trim_space select_users_q) endKeywords =
      Some (''SELECT * FROM users WHERE '', ''age > ?'', [])" by code_simp
  have z: "qmarks ''SELECT * FROM users WHERE '' = 0"
    "qmarks (TenantColumn (db_config (shop_db PlaceholderQuestion))) = 0"
    "qmarks (trim_space select_users_q) \<le> length [GInt 7]" by code_simp+
  have t: "extractAllTables (trim_space select_users_q) = Ok [\<lparr>tr_Name = ''users'', tr_Alias = []\<rparr>]"
    "[\<lparr>tr_Name = ''users'', tr_Alias = []\<rparr>] =
       filterTenantTables (db_config (shop_db PlaceholderQuestion)) [\<lparr>tr_Name = ''users'', tr_Alias = []\<rparr>]"
    "[\<lparr>tr_Name = ''users'', tr_Alias = []\<rparr>] \<noteq> []"
    by code_simp+
  have p: "\<forall>x \<in> set [\<lparr>tr_Name = ''users'', tr_Alias = []\<rparr>]. qmarks (ref_name x) = 0"
    by (simp add: ref_name_def)
  have b: "bind_q ''age > ?'' [GInt 7] = map Ch ''age > '' @ [Val (GInt 7)]" by code_simp
  have s: "select_pieces shop_config [\<lparr>tr_Name = ''users'', tr_Alias = []\<rparr>] ''acme'' =
      map Ch ''users.'' @ tenant_pieces shop_config ''acme''" by (simp add: ref_name_def)
  show ?thesis
    using query_select_positional [OF map_order_id shop_db_reach call shop_db_simps(4) k c z t p, of "[]"]
    unfolding b shop_db_simps s by auto
qed

section \<open>Properties: numbered placeholders\<close>






section \<open>Properties: INSERT\<close>

text \<open>
  C24. INSERT in the \<^verbatim>\<open>$\<close> style, for a caller with a tenant, when the cache does not know the statement and the
  code finds its table, its list of columns and its values (\<open>insert_parts\<close>; others it refuses): if the
  tenant column is not listed, the first tuple starts with the tenant, in the column named first, the
  caller's arguments move up by one, and so do their numbers. If it is listed, the statement is sent as
  it is, whatever tenant its values name. The numbers fit the arguments, and no \<^verbatim>\<open>$\<close> is in the names. On a
  cache hit the arguments are shifted instead (wrap.go:321).
\<close>

theorem exec_insert_numbered:
  assumes "tenant_call db ctx t q" "qc_lookup (queryCache db) (trim_space q) = None"
    "placeholderStyle db = PlaceholderDollar" "has_prefix (to_upper (trim_space q)) ''INSERT''"
    "insert_parts (trim_space q) = Some (table, cols, v1, v2)"
    "CHR ''$'' \<notin> set (table @ TenantColumn (db_config db) @ cols)"
    "numbers_in v1 args" "numbers_in v2 args" "int (length args) < max_i64"
  shows "if columnExistsInList (to_upper (CHR ''('' # cols)) (to_upper (TenantColumn (db_config db)))
    then snd (db_Exec ord exec db w ctx q args) = exec (db_db db) (ExecContext ctx (trim_space q) args) w
    else \<exists>q'. snd (db_Exec ord exec db w ctx q args) = exec (db_db db) (ExecContext ctx q' (GStr t # args)) w \<and>
      bind_d (GStr t # args) q' = bound_insert (db_config db) t table cols (bind_d args v1) (bind_d args v2)"
proof -
  let ?q' = "insert_text (db_config db) PlaceholderDollar (table, cols, v1, v2)"
  have "uncached db q t args = Ok (trim_space q, args)"
    if "columnExistsInList (to_upper (CHR ''('' # cols)) (to_upper (TenantColumn (db_config db)))"
    by (simp add: uncached_kind(4) [OF assms(4)] insert_listed [OF assms(5) that] assms(3))
  moreover have "uncached db q t args = Ok (?q', GStr t # args)"
    if "\<not> columnExistsInList (to_upper (CHR ''('' # cols)) (to_upper (TenantColumn (db_config db)))"
    by (simp add: uncached_kind(4) [OF assms(4)] insert_rewritten [OF assms(5) that] assms(3))
  ultimately show ?thesis
    using insert_bound_d [OF assms(6-9), of t] by (auto simp: exec_miss [OF assms(1,2)] send_def)
qed

lemma exec_insert_numbered_witness:
  "\<exists>q'. snd (db_Exec (\<lambda>ks. ks) record_call (shop_db PlaceholderDollar) [] acme insert_users [GStr ''eve'']) =
      record_call () (ExecContext acme q' [GStr ''acme'', GStr ''eve'']) [] \<and>
    bind_d [GStr ''acme'', GStr ''eve''] q' =
      bound_insert shop_config ''acme'' ''users'' ''name)'' [] [Val (GStr ''eve''), Ch CHR '')'']"
proof -
  have call: "tenant_call (shop_db PlaceholderDollar) acme ''acme'' insert_users"
    by (simp add: tenant_call_def acme_tenant shop_no_collision shop_statements acme_no_bypass)
  have k: "has_prefix (to_upper (trim_space insert_users)) ''INSERT''"
    "insert_parts (trim_space insert_users) = Some (''users'', ''name)'', [], ''$1)'')"
    "CHR ''$'' \<notin> set (''users'' @ TenantColumn (db_config (shop_db PlaceholderDollar)) @ ''name)'')"
    by code_simp+
  have e: "\<not> columnExistsInList (to_upper (CHR ''('' # ''name)'')) (to_upper (TenantColumn (db_config (shop_db PlaceholderDollar))))"
    by code_simp
  have n: "numbers_in [] [GStr ''eve'']" "numbers_in ''$1)'' [GStr ''eve'']"
    "int (length [GStr ''eve'']) < max_i64" by code_simp+
  have b: "bind_d [GStr ''eve''] [] = []" "bind_d [GStr ''eve''] ''$1)'' = [Val (GStr ''eve''), Ch CHR '')'']"
    by code_simp+
  show ?thesis
    using exec_insert_numbered [OF call shop_miss shop_db_simps(4) k n, of "\<lambda>ks. ks" record_call "[]"] e
    unfolding b by auto
qed

text \<open>INSERT in the \<^verbatim>\<open>?\<close> style: the tenant is the first argument and the first value.\<close>

theorem exec_insert_positional:
  assumes "map_order ord" "db_reach ord exec beginTx db w" "tenant_call db ctx t q"
    "placeholderStyle db = PlaceholderQuestion" "has_prefix (to_upper (trim_space q)) ''INSERT''"
    "insert_parts (trim_space q) = Some (table, cols, v1, v2)"
    "\<not> columnExistsInList (to_upper (CHR ''('' # cols)) (to_upper (TenantColumn (db_config db)))"
    "qmarks (table @ TenantColumn (db_config db) @ cols @ v1) = 0"
  shows "\<exists>q'. snd (db_Exec ord exec db w ctx q args) =
      exec (db_db db) (ExecContext ctx q' (GStr t # args)) w \<and>
    bind_q q' (GStr t # args) = bound_insert (db_config db) t table cols (map Ch v1) (bind_q v2 args)"
proof -
  let ?q' = "insert_text (db_config db) PlaceholderQuestion (table, cols, v1, v2)"
  have ok: "db_ok db" by (rule db_reach_ok [OF assms(1,2)])
  have u: "uncached db q t args = Ok (?q', GStr t # args)"
    by (simp add: uncached_kind(4) [OF assms(5)] insert_rewritten [OF assms(6,7)] assms(4))
  have "snd (db_Exec ord exec db w ctx q args) = exec (db_db db) (ExecContext ctx ?q' (GStr t # args)) w"
    by (intro exec_uncached_Ok(1) [OF assms(3) ok u]) (simp add: assms(4))
  then show ?thesis using insert_bound_q [OF assms(8), of v2 t args] by blast
qed

lemma exec_insert_positional_witness:
  "\<exists>q'. snd (db_Exec (\<lambda>ks. ks) record_call (shop_db PlaceholderQuestion) [] acme insert_users_q [GStr ''eve'']) =
      record_call () (ExecContext acme q' [GStr ''acme'', GStr ''eve'']) [] \<and>
    bind_q q' [GStr ''acme'', GStr ''eve''] =
      bound_insert shop_config ''acme'' ''users'' ''name)'' [] [Val (GStr ''eve''), Ch CHR '')'']"
proof -
  have call: "tenant_call (shop_db PlaceholderQuestion) acme ''acme'' insert_users_q"
    by (simp add: tenant_call_def acme_tenant shop_no_collision shop_statements acme_no_bypass)
  have k: "has_prefix (to_upper (trim_space insert_users_q)) ''INSERT''"
    "insert_parts (trim_space insert_users_q) = Some (''users'', ''name)'', [], ''?)'')"
    "\<not> columnExistsInList (to_upper (CHR ''('' # ''name)'')) (to_upper (TenantColumn (db_config (shop_db PlaceholderQuestion))))"
    "qmarks (''users'' @ TenantColumn (db_config (shop_db PlaceholderQuestion)) @ ''name)'' @ []) = 0"
    by code_simp+
  have b: "bind_q ''?)'' [GStr ''eve''] = [Val (GStr ''eve''), Ch CHR '')'']" by code_simp
  show ?thesis
    using exec_insert_positional [OF map_order_id shop_db_reach call shop_db_simps(4) k, of "[]" "[GStr ''eve'']"]
    unfolding b by auto
qed


section \<open>Properties: the methods of DB\<close>

text \<open>
  C1. What happens in a context without a tenant. A statement in which the interceptor finds a tenant table, in a
  context without the bypass, is refused unless the detector takes it for a system query: the driver is not
  called, the cache is not changed, and \<^verbatim>\<open>QueryRow\<close> returns the zero row. All others are sent to the
  driver as they are: system queries, that is DDL and the like but also any text with the name of a
  catalog in it, even on a tenant table, statements under the bypass, and those in which no tenant table is found.
\<close>

theorem db_refuses_without_tenant:
  assumes "\<not> snd (GetTenant ctx)"
  shows "if \<not> IsSystemQuery (systemDetector (db_interceptor db)) q \<and> \<not> shouldBypass ctx \<and> touched (db_interceptor db) q \<noteq> []
    then db_Query ord exec db w ctx q args =
        (db, w, Err (TenantErr q (touched (db_interceptor db) q) ErrMissingTenant)) \<and>
      db_Exec ord exec db w ctx q args =
        (db, w, Err (TenantErr q (touched (db_interceptor db) q) ErrMissingTenant)) \<and>
      db_QueryRow ord exec db w ctx q args = (db, w, Ok ZeroRow)
    else db_Query ord exec db w ctx q args = (db, exec (db_db db) (QueryContext ctx q args) w) \<and>
      db_Exec ord exec db w ctx q args = (db, exec (db_db db) (ExecContext ctx q args) w) \<and>
      db_QueryRow ord exec db w ctx q args =
        (db, fst (exec (db_db db) (QueryRowContext ctx q args) w),
         Ok (RowOf (snd (exec (db_db db) (QueryRowContext ctx q args) w))))"
proof (cases "needs_tenant (db_interceptor db) ctx q")
  case True
  then show ?thesis
    unfolding needs_tenant_def if_P [OF True [unfolded needs_tenant_def]] by (intro conjI methods_refuse [OF True assms])
next
  case False
  then show ?thesis
    unfolding needs_tenant_def if_not_P [OF False [unfolded needs_tenant_def]] by (intro conjI methods_pass [OF False])
qed

lemma db_refuses_without_tenant_witness:
  "db_Exec (\<lambda>ks. ks) record_call (shop_db PlaceholderDollar) [] background delete_all_users [] =
     (shop_db PlaceholderDollar, [],
      Err (TenantErr delete_all_users (touched shop_interceptor delete_all_users) ErrMissingTenant))"
proof -
  have b: "\<not> shouldBypass background" by (simp add: shouldBypass_def background_def)
  have t: "\<not> snd (GetTenant background)"
    by (simp add: GetTenant_def background_def domain_tenant_def FromGoContext_def)
  have "needs_tenant (db_interceptor (shop_db PlaceholderDollar)) background delete_all_users"
    using shop_statements(7) [OF b] by simp
  then show ?thesis
    using db_refuses_without_tenant [OF t, of "shop_db PlaceholderDollar" delete_all_users "\<lambda>ks. ks" record_call "[]" "[]"]
    by (simp add: needs_tenant_def)
qed

text \<open>
  Rule 2: every other statement, a system query, a bypass or one without tenant tables, is sent
  on as it is, and the cache is left alone.
\<close>

theorem db_passes_other_statements:
  assumes "\<not> needs_tenant (db_interceptor db) ctx q"
  shows "db_Query ord exec db w ctx q args = (db, exec (db_db db) (QueryContext ctx q args) w) \<and>
    db_Exec ord exec db w ctx q args = (db, exec (db_db db) (ExecContext ctx q args) w) \<and>
    db_QueryRow ord exec db w ctx q args =
      (db, fst (exec (db_db db) (QueryRowContext ctx q args) w),
       Ok (RowOf (snd (exec (db_db db) (QueryRowContext ctx q args) w))))"
  by (intro conjI methods_pass [OF assms])

lemma db_passes_other_statements_witness:
  "db_Query (\<lambda>ks. ks) record_call (shop_db PlaceholderDollar) [] (WithoutTenantFiltering acme) select_users [GInt 1] =
     (shop_db PlaceholderDollar, [(select_users, [GInt 1])], Ok ())"
proof -
  have "\<not> needs_tenant (db_interceptor (shop_db PlaceholderDollar)) (WithoutTenantFiltering acme) select_users"
    by (simp add: needs_tenant_def)
  from db_passes_other_statements [OF this, of "\<lambda>ks. ks" record_call "[]" "[GInt 1]"]
  show ?thesis by (simp add: record_call_def)
qed

text \<open>
  C8. The cache never changes an answer: what a \<^verbatim>\<open>DB\<close> sends for a statement it has seen is what it
  would send rewriting it anew, for all statements in the \<^verbatim>\<open>?\<close> style and for all but INSERT in the
  others, as long as no other statement with the same hash is stored.
\<close>

theorem cached_rewriting:
  assumes "map_order ord" "db_reach ord exec beginTx db w" "no_collision db q"
    "placeholderStyle db = PlaceholderQuestion \<or> \<not> has_prefix (to_upper (trim_space q)) ''INSERT''"
  shows "snd (injectTenantFilter ord db q t args) = uncached db q t args"
  using injectTenantFilter_uncached [OF _ assms(3,4)] db_reach_ok [OF assms(1,2)] by (simp add: db_ok_def)

text \<open>The same statement twice, for two tenants: the second is a hit.\<close>

definition warm_db :: "unit db" where
  "warm_db = fst (db_Exec (\<lambda>ks. ks) record_call (shop_db PlaceholderDollar) [] acme delete_all_users [])"

lemma warm_db_reach: "\<exists>w. db_reach (\<lambda>ks. ks) record_call begin_tx warm_db w"
proof -
  obtain db' w' r where e:
    "db_Exec (\<lambda>ks. ks) record_call (shop_db PlaceholderDollar) [] acme delete_all_users [] = (db', w', r)"
    by (metis prod_cases3)
  show ?thesis using db_reach.exec [OF shop_db_reach e] by (auto simp: warm_db_def e)
qed

lemma warm_db_inject:
  "warm_db = fst (injectTenantFilter (\<lambda>ks. ks) (shop_db PlaceholderDollar) delete_all_users ''acme'' [])"
  using methods_send(2) [of "shop_db PlaceholderDollar" acme delete_all_users "''acme''" "\<lambda>ks. ks" record_call "[]" "[]"]
    shop_statements(7) [OF acme_no_bypass] acme_tenant by (simp add: warm_db_def)

lemma warm_db_hit:
  "qc_lookup (queryCache warm_db) delete_all_users =
     Some (delete_all_users, ''DELETE FROM users WHERE tenant_id = $1'', 1, True)"
proof -
  have m: "inject_miss shop_config PlaceholderDollar delete_all_users ''acme'' [] =
      Some (Ok (''DELETE FROM users WHERE tenant_id = $1'', [GStr ''acme'']))" by code_simp
  have "qc_Get (NewQueryCache 1000) delete_all_users = (NewQueryCache 1000\<lparr>misses := 1\<rparr>, None)"
    by (simp add: qc_Get_def NewQueryCache_def)
  then show ?thesis
    by (simp add: warm_db_inject injectTenantFilter_def trim_statements m qc_lookup_def qc_Put_def Let_def
        NewQueryCache_def)
qed

lemma cached_rewriting_witness:
  "snd (injectTenantFilter (\<lambda>ks. ks) warm_db delete_all_users ''globex'' []) =
     Ok (''DELETE FROM users WHERE tenant_id = $1'', [GStr ''globex''])"
proof -
  obtain w where r: "db_reach (\<lambda>ks. ks) record_call begin_tx warm_db w" using warm_db_reach by blast
  have f: "placeholderStyle warm_db = PlaceholderDollar" "db_config warm_db = shop_config"
    by (simp_all add: warm_db_inject injectTenantFilter_frame)
  have n: "no_collision warm_db delete_all_users"
    by (simp add: no_collision_def trim_statements warm_db_hit)
  have k: "placeholderStyle warm_db = PlaceholderQuestion \<or>
      \<not> has_prefix (to_upper (trim_space delete_all_users)) ''INSERT''" by code_simp
  have m: "inject_miss shop_config PlaceholderDollar delete_all_users ''globex'' [] =
      Some (Ok (''DELETE FROM users WHERE tenant_id = $1'', [GStr ''globex'']))" by code_simp
  show ?thesis
    using cached_rewriting [OF map_order_id r n k, of "''globex''" "[]"]
    by (simp add: uncached_def trim_statements f m)
qed

text \<open>
  C5. Whatever a \<^verbatim>\<open>DB\<close> goes through after its constructor, calls, transactions and clearing of the
  cache in any order, its cache holds at most a thousand entries, each the rewriting of the
  statement it was stored for, and its interceptor is the one of its configuration.
\<close>

theorem db_invariant:
  assumes "map_order ord" "db_reach ord exec beginTx db w"
  shows "length (entries (queryCache db)) \<le> 1000 \<and>
    (\<forall>q q' v. qc_lookup (queryCache db) q = Some (q', v) \<longrightarrow>
       plan3 (db_config db) (placeholderStyle db) q' = Some v \<and> hashQuery q' = hashQuery q) \<and>
    NewInterceptor (db_config db) = Ok (db_interceptor db)"
proof -
  have ok: "db_ok db" by (rule db_reach_ok [OF assms])
  then have h: "\<forall>(h, e) \<in> set (entries (queryCache db)). h = hashQuery (originalQuery e)"
    and d: "distinct (map fst (entries (queryCache db)))"
    by (auto simp: db_ok_def qc_ok_def)
  have "hashQuery q' = hashQuery q" if "qc_lookup (queryCache db) q = Some (q', v)" for q q' v
    using that h by (auto simp: qc_lookup_def dest!: map_of_SomeD)
  with ok show ?thesis by (auto simp: db_ok_def qc_ok_def db_sound_def qc.sound_def)
qed

lemma db_invariant_witness:
  "length (entries (queryCache warm_db)) \<le> 1000 \<and> NewInterceptor (db_config warm_db) = Ok (db_interceptor warm_db)"
proof -
  obtain w where r: "db_reach (\<lambda>ks. ks) record_call begin_tx warm_db w" using warm_db_reach by blast
  show ?thesis using db_invariant [OF map_order_id r] by blast
qed

text \<open>
  C26. A transaction applies the same rules: each of its methods does what the method of the \<^verbatim>\<open>DB\<close>
  does, on the driver's transaction instead of the connection.
\<close>

theorem transaction_like_db:
  assumes "db_Begin beginTx db w ctx opts = (w', Ok t)" "db' = db\<lparr>queryCache := c\<rparr>"
  shows "tx_Query ord exec t db' v ctx' q args = db_Query ord (\<lambda>_. exec (tx_tx t)) db' v ctx' q args \<and>
    tx_QueryRow ord exec t db' v ctx' q args = db_QueryRow ord (\<lambda>_. exec (tx_tx t)) db' v ctx' q args \<and>
    tx_Exec ord exec t db' v ctx' q args = db_Exec ord (\<lambda>_. exec (tx_tx t)) db' v ctx' q args"
  by (intro conjI tx_methods [OF assms])

definition shop_tx :: "unit tx" where
  "shop_tx = \<lparr>tx_tx = (), tx_interceptor = shop_interceptor, tx_config = shop_config,
     tx_placeholderStyle = PlaceholderDollar\<rparr>"

lemma transaction_like_db_witness:
  "tx_Exec (\<lambda>ks. ks) record_call shop_tx (shop_db PlaceholderDollar) [] background delete_all_users [] =
   db_Exec (\<lambda>ks. ks) (\<lambda>_. record_call ()) (shop_db PlaceholderDollar) [] background delete_all_users []"
proof -
  have b: "db_Begin begin_tx (shop_db PlaceholderDollar) [] background () = ([], Ok shop_tx)"
    by (simp add: db_Begin_def begin_tx_def shop_tx_def)
  have e: "shop_db PlaceholderDollar = (shop_db PlaceholderDollar)\<lparr>queryCache := NewQueryCache 1000\<rparr>"
    by (simp add: shop_db_def)
  show ?thesis
    using transaction_like_db [OF b e, of "\<lambda>ks. ks" record_call "[]" background delete_all_users "[]"]
    by (simp add: shop_tx_def)
qed

end
