(* ===== verification/Sql_Enforcer.thy ===== *)
theory Sql_Enforcer
  imports Sql_Driver
begin

text \<open>
  adapters/sql/enforcer.go: the rewriting of the SQL adapter, with the tenant identifier as a
  literal in the text. The positions are found in the trimmed upper case copy and used in the
  statement as it was given.
\<close>

section \<open>The enforcer\<close>

record enforcer =
  tenantColumn :: string

definition NewEnforcer :: enforcer where
  "NewEnforcer = \<lparr>tenantColumn = ''tenant_id''\<rparr>"

definition NewEnforcerWithColumn :: "string \<Rightarrow> enforcer" where
  "NewEnforcerWithColumn column = \<lparr>tenantColumn = column\<rparr>"

definition dangerous :: "string list" where
  "dangerous = [''DROP TABLE'', ''DROP DATABASE'', ''TRUNCATE'', ''ALTER TABLE'']"

definition ValidateQuery :: "string \<Rightarrow> go_error option" where
  "ValidateQuery query =
     (if query = [] then Some (NewErr ''query cannot be empty'')
      else let upper = to_upper (trim_space query)
           in map_option (\<lambda>d. NewErr (''dangerous operation not allowed: '' @ d))
                (find (\<lambda>d. contains upper d) dangerous))"

definition SupportedOperations :: "string list" where
  "SupportedOperations = [''SELECT'', ''INSERT'', ''UPDATE'', ''DELETE'']"

text \<open>The condition after a WHERE at \<open>p\<close>: everything that follows goes between parentheses.\<close>

definition enf_where :: "string \<Rightarrow> string \<Rightarrow> nat \<Rightarrow> string" where
  "enf_where query cond p =
     take (p + 7) query @ cond @ '' AND ('' @ trim_space (drop (p + 7) query) @ '')''"

definition tailKeywords :: "string list" where
  "tailKeywords = ['' ORDER BY '', '' GROUP BY '', '' LIMIT '', '' HAVING '']"

definition rewriteQuery :: "enforcer \<Rightarrow> string \<Rightarrow> string \<Rightarrow> string" where
  "rewriteQuery e query tenantID =
     (let upper = to_upper (trim_space query);
          cond = tenantColumn e @ '' = '' @ [CHR 0x27] @ tenantID @ [CHR 0x27]
      in if has_prefix upper ''SELECT'' \<or> has_prefix upper ''DELETE'' then
           (case str_index upper '' WHERE '' of
              Some p \<Rightarrow> enf_where query cond p
            | None \<Rightarrow>
               (case List.map_filter (str_index upper) tailKeywords of
                  p # _ \<Rightarrow> take p query @ '' WHERE '' @ cond @ drop p query
                | [] \<Rightarrow> query @ '' WHERE '' @ cond))
         else if has_prefix upper ''UPDATE'' then
           (case str_index upper '' WHERE '' of
              Some p \<Rightarrow> enf_where query cond p
            | None \<Rightarrow> query @ '' WHERE '' @ cond)
         else query)"

definition EnforceQuery :: "enforcer \<Rightarrow> go_ctx \<Rightarrow> string \<Rightarrow> gval list \<Rightarrow> (string \<times> gval list) res" where
  "EnforceQuery e ctx query args =
     (case FromGoContext (Some ctx) of
        Err err \<Rightarrow> Err (WrapErr ''failed to extract tenant context: '' err [])
      | Panic \<Rightarrow> Panic
      | Ok tenantCtx \<Rightarrow>
         (case ValidateQuery query of
            Some err \<Rightarrow> Err (WrapErr ''query validation failed: '' err [])
          | None \<Rightarrow> Ok (rewriteQuery e query (tid_value (dc_tenantID tenantCtx)), args)))"

section \<open>Checking a rewritten query\<close>

text \<open>The text after the first occurrence of a separator.\<close>

definition after_first :: "string \<Rightarrow> string \<Rightarrow> string option" where
  "after_first s sep = map_option (\<lambda>i. drop (i + length sep) s) (str_index s sep)"

definition extractTenantIDFromQuery :: "enforcer \<Rightarrow> string \<Rightarrow> string" where
  "extractTenantIDFromQuery e query =
     (let lower = to_lower query in
      case str_index lower (tenantColumn e) of
        None \<Rightarrow> []
      | Some idx \<Rightarrow>
         (case after_first (drop idx lower) ''='' of
            None \<Rightarrow> []
          | Some afterEq \<Rightarrow>
             (case after_first afterEq [CHR 0x27] of
                None \<Rightarrow> []
              | Some afterQuote \<Rightarrow>
                 (case str_index afterQuote [CHR 0x27] of
                    None \<Rightarrow> []
                  | Some endQuoteIdx \<Rightarrow> take endQuoteIdx afterQuote))))"

definition VerifyTenantIsolation :: "enforcer \<Rightarrow> string \<Rightarrow> string \<Rightarrow> bool" where
  "VerifyTenantIsolation e query expectedTenantID \<longleftrightarrow> extractTenantIDFromQuery e query = expectedTenantID"

section \<open>Where the condition goes\<close>

lemma EnforceQuery_Ok_iff:
  "EnforceQuery e ctx query args = Ok (q', args') \<longleftrightarrow>
     (\<exists>tc. FromGoContext (Some ctx) = Ok tc \<and> ValidateQuery query = None \<and> args' = args \<and>
        q' = rewriteQuery e query (tid_value (dc_tenantID tc)))"
  by (auto simp: EnforceQuery_def split: res.splits option.splits)

lemma EnforceQuery_no_panic: "EnforceQuery e ctx query args \<noteq> Panic"
  by (auto simp: EnforceQuery_def FromGoContext_def split: res.splits option.splits ctx_val.splits)

text \<open>The statements the enforcer filters.\<close>

definition filtered_kind :: "string \<Rightarrow> bool" where
  "filtered_kind query \<longleftrightarrow>
     (let upper = to_upper (trim_space query)
      in has_prefix upper ''SELECT'' \<or> has_prefix upper ''DELETE'' \<or> has_prefix upper ''UPDATE'')"

definition tenant_literal :: "enforcer \<Rightarrow> string \<Rightarrow> string" where
  "tenant_literal e tid = tenantColumn e @ '' = '' @ [CHR 0x27] @ tid @ [CHR 0x27]"

text \<open>The text before the condition, in lower case: a part of the statement, then WHERE.\<close>

lemma rewriteQuery_shape:
  assumes "trim_space query = query" "filtered_kind query"
  shows "\<exists>p pre rest. rewriteQuery e query tid = pre @ tenant_literal e tid @ rest \<and>
    to_lower pre = to_lower (take p query) @ '' where ''"
proof (cases "str_index (to_upper query) '' WHERE ''")
  case (Some p)
  let ?w = "take (length '' WHERE '') (drop p query)"
  have "to_upper ?w = '' WHERE ''" by (rule str_index_to_upper_split(2) [OF Some])
  then have "to_lower ?w = to_lower '' WHERE ''" using to_lower_to_upper [of ?w] by simp
  moreover have "to_lower '' WHERE '' = '' where ''" by code_simp
  moreover have "take (p + 7) query = take p query @ ?w"
    using str_index_to_upper_split(1) [OF Some] by (simp add: numeral_eq_Suc)
  ultimately have "to_lower (take (p + 7) query) = to_lower (take p query) @ '' where ''" by simp
  moreover have "rewriteQuery e query tid = take (p + 7) query @ tenant_literal e tid
      @ '' AND ('' @ trim_space (drop (p + 7) query) @ '')''"
    using assms Some by (auto simp: rewriteQuery_def filtered_kind_def enf_where_def tenant_literal_def Let_def)
  ultimately show ?thesis by blast
next
  case None
  have w: "to_lower (x @ '' WHERE '') = to_lower x @ '' where ''" for x
  proof -
    have "to_lower '' WHERE '' = '' where ''" by code_simp
    then show ?thesis by simp
  qed
  have "\<exists>n rest. rewriteQuery e query tid = (take n query @ '' WHERE '') @ tenant_literal e tid @ rest"
  proof (cases "has_prefix (to_upper query) ''SELECT'' \<or> has_prefix (to_upper query) ''DELETE''")
    case True
    show ?thesis
    proof (cases "List.map_filter (str_index (to_upper query)) tailKeywords")
      case Nil
      then have "rewriteQuery e query tid = (take (length query) query @ '' WHERE '') @ tenant_literal e tid @ []"
        using True None assms(1) by (simp add: rewriteQuery_def tenant_literal_def Let_def)
      then show ?thesis by blast
    next
      case (Cons p ps)
      then have "rewriteQuery e query tid = (take p query @ '' WHERE '') @ tenant_literal e tid @ drop p query"
        using True None assms(1) by (simp add: rewriteQuery_def tenant_literal_def Let_def)
      then show ?thesis by blast
    qed
  next
    case False
    then have "rewriteQuery e query tid = (take (length query) query @ '' WHERE '') @ tenant_literal e tid @ []"
      using None assms by (simp add: rewriteQuery_def filtered_kind_def tenant_literal_def Let_def)
    then show ?thesis by blast
  qed
  with w show ?thesis by metis
qed

section \<open>The check accepts what the enforcer writes\<close>

text \<open>A column name and an identifier that the literal and the check can carry.\<close>

definition plain_column :: "string \<Rightarrow> bool" where
  "plain_column c \<longleftrightarrow> c \<noteq> [] \<and> to_lower c = c \<and> CHR '' '' \<notin> set c \<and> CHR ''='' \<notin> set c \<and>
     CHR 0x27 \<notin> set c \<and> \<not> contains ''where'' c"

lemma valid_id_plain: "valid_id t \<Longrightarrow> to_lower t = t \<and> CHR 0x27 \<notin> set t"
proof -
  assume v: "valid_id t"
  have "\<not> id_char CHR 0x27" by code_simp
  then show ?thesis using v by (auto simp: valid_id_def to_lower_id list_all_iff)
qed

lemma extract_literal:
  assumes "plain_column (tenantColumn e)" "to_lower t = t" "CHR 0x27 \<notin> set t"
    "\<not> contains a (tenantColumn e)" "to_lower pre = a @ '' where ''"
  shows "extractTenantIDFromQuery e (pre @ tenant_literal e t @ rest) = t"
proof -
  let ?c = "tenantColumn e" and ?q = "CHR 0x27"
  have c: "?c \<noteq> []" "to_lower ?c = ?c" "CHR '' '' \<notin> set ?c" "CHR ''='' \<notin> set ?c" "\<not> contains ''where'' ?c"
    using assms(1) by (simp_all add: plain_column_def)
  have low: "low_char CHR '' '' = CHR '' ''" "low_char CHR ''='' = CHR ''=''" "low_char ?q = ?q"
    by code_simp+
  have Cons: "to_lower (x # s) = low_char x # to_lower s" for x s by (simp add: to_lower_def)
  have lower: "to_lower (pre @ tenant_literal e t @ rest) =
      ((a @ '' where'') @ '' '') @ ?c @ ('' = '' @ [?q] @ t @ [?q] @ to_lower rest)"
    using assms(2,5) c(2) low by (simp add: tenant_literal_def Cons)
  have "\<not> contains (a @ '' where'') ?c"
    using contains_sep [of a "CHR '' ''" "''where''" ?c] assms(4) c by auto
  then have idx: "str_index (to_lower (pre @ tenant_literal e t @ rest)) ?c = Some (Suc (length (a @ '' where'')))"
    unfolding lower by (rule str_index_after_sep) (use c in simp_all)
  have drop: "drop (Suc (length (a @ '' where''))) (to_lower (pre @ tenant_literal e t @ rest)) =
      (?c @ '' '') @ CHR ''='' # ('' '' @ [?q] @ t @ [?q] @ to_lower rest)"
    unfolding lower by simp
  have eq: "after_first ((?c @ '' '') @ CHR ''='' # ('' '' @ [?q] @ t @ [?q] @ to_lower rest)) ''='' =
      Some ('' '' @ [?q] @ t @ [?q] @ to_lower rest)"
    unfolding after_first_def by (subst str_index_char) (use c in auto)
  have q: "after_first ('' '' @ [?q] @ t @ [?q] @ to_lower rest) [?q] = Some (t @ [?q] @ to_lower rest)"
    by (simp add: after_first_def)
  show ?thesis
    using str_index_char [OF assms(3), of "to_lower rest"]
    unfolding extractTenantIDFromQuery_def Let_def idx option.case drop eq q by simp
qed

lemma rewriteQuery_verified:
  assumes "trim_space query = query" "filtered_kind query" "plain_column (tenantColumn e)"
    "valid_id t" "\<not> contains (to_lower query) (tenantColumn e)"
  shows "VerifyTenantIsolation e (rewriteQuery e query t) t"
proof -
  obtain p pre rest where s: "rewriteQuery e query t = pre @ tenant_literal e t @ rest"
    "to_lower pre = to_lower (take p query) @ '' where ''"
    using rewriteQuery_shape [OF assms(1,2)] by blast
  have "to_lower (take p query) = take p (to_lower query)" by (simp add: to_lower_def take_map)
  then have "\<not> contains (to_lower (take p query)) (tenantColumn e)"
    using assms(5) contains_take by metis
  then show ?thesis
    using extract_literal [OF assms(3) _ _ _ s(2)] valid_id_plain [OF assms(4)]
    by (simp add: VerifyTenantIsolation_def s(1))
qed


section \<open>Properties\<close>

text \<open>The check lower-cases the statement but not the column: one with a capital letter is never found.\<close>

lemma verify_capital_column:
  assumes "to_lower (tenantColumn e) \<noteq> tenantColumn e"
  shows "extractTenantIDFromQuery e q = []"
proof (cases "str_index (to_lower q) (tenantColumn e)")
  case (Some i)
  have "to_lower q = take i (to_lower q) @ tenantColumn e @ drop (i + length (tenantColumn e)) (to_lower q)"
    by (rule str_index_split [OF Some])
  then have s: "set (tenantColumn e) \<subseteq> low_char ` set q" by (metis Un_upper1 Un_upper2 set_append set_map subset_trans to_lower_def)
  have "low_char (low_char c) = low_char c" for c
    using to_lower_idem [of "[c]"] by (simp add: to_lower_def)
  then have "\<forall>c \<in> set (tenantColumn e). low_char c = c" using s by auto
  then have "to_lower (tenantColumn e) = tenantColumn e" by (simp add: to_lower_def map_idI)
  then show ?thesis using assms by contradiction
qed (simp add: extractTenantIDFromQuery_def)

text \<open>
  C39. The enforcer and its check agree: for a tenant context, a SELECT, UPDATE or DELETE that passes
  the validation, has no white space at its ends and does not mention the tenant column itself is
  rewritten, with its arguments unchanged, to one in which \<^verbatim>\<open>VerifyTenantIsolation\<close> finds exactly this
  tenant. The column is a plain name (\<open>plain_column\<close>): in lower case, without blanks, quotes and \<^verbatim>\<open>=\<close>, and without
  the word where. With a column that has a capital letter the check finds no tenant in any statement, the
  enforcer's own included.
\<close>

theorem enforced_query_verifies:
  assumes "FromGoContext (Some ctx) = Ok tc" "valid_id (tid_value (dc_tenantID tc))" "ValidateQuery query = None"
    "trim_space query = query" "filtered_kind query" "plain_column (tenantColumn e)"
    "\<not> contains (to_lower query) (tenantColumn e)"
  shows "(\<exists>q'. EnforceQuery e ctx query args = Ok (q', args) \<and>
      VerifyTenantIsolation e q' (tid_value (dc_tenantID tc))) \<and>
    (\<forall>e' q' t. to_lower (tenantColumn e') \<noteq> tenantColumn e' \<longrightarrow> t \<noteq> [] \<longrightarrow> \<not> VerifyTenantIsolation e' q' t)"
  using rewriteQuery_verified [OF assms(4-6,2,7)] assms(1,3)
  by (auto simp: EnforceQuery_def VerifyTenantIsolation_def verify_capital_column)

lemma enforced_query_verifies_witness:
  "\<exists>q'. EnforceQuery NewEnforcer (ToGoContext \<lparr>dc_tenantID = \<lparr>tid_value = ''acme''\<rparr>, dc_userID = ''u'',
       dc_requestID = ''r'', dc_timestamp = 0\<rparr> background) ''DELETE FROM users WHERE id = 1'' [] = Ok (q', []) \<and>
     VerifyTenantIsolation NewEnforcer q' ''acme''"
proof -
  have c: "FromGoContext (Some (ToGoContext \<lparr>dc_tenantID = \<lparr>tid_value = ''acme''\<rparr>, dc_userID = ''u'',
       dc_requestID = ''r'', dc_timestamp = 0\<rparr> background)) =
     Ok \<lparr>dc_tenantID = \<lparr>tid_value = ''acme''\<rparr>, dc_userID = ''u'', dc_requestID = ''r'', dc_timestamp = 0\<rparr>"
    by (simp add: FromGoContext_ToGoContext)
  have v: "valid_id (tid_value (dc_tenantID \<lparr>dc_tenantID = \<lparr>tid_value = ''acme''\<rparr>, dc_userID = ''u'',
       dc_requestID = ''r'', dc_timestamp = 0\<rparr>))" by code_simp
  have q: "ValidateQuery ''DELETE FROM users WHERE id = 1'' = None"
    "trim_space ''DELETE FROM users WHERE id = 1'' = ''DELETE FROM users WHERE id = 1''"
    "filtered_kind ''DELETE FROM users WHERE id = 1''" "plain_column (tenantColumn NewEnforcer)"
    "\<not> contains (to_lower ''DELETE FROM users WHERE id = 1'') (tenantColumn NewEnforcer)"
    by code_simp+
  show ?thesis using enforced_query_verifies [OF c v q, of "[]"] by simp
qed

end
