(* ===== verification/Sql_Storage.thy ===== *)
theory Sql_Storage
  imports Sql_Enforcer
begin

text \<open>
  adapters/sql: the health check configuration (health_config.go), the configuration builder and
  the storage adapter (storage.go) and its transactions (transaction.go). Pointers to a
  configuration are values, nil is \<open>None\<close>. The connection is a handle; \<open>exec\<close> runs a call on a
  world. A nil handle or configuration that the code dereferences is a panic.

  A context is its values and its deadline. \<open>WithTimeout\<close> with \<^verbatim>\<open>defer cancel()\<close> is seen from
  outside by its flag: the context the call was made with is cancelled when the method returns.
\<close>

section \<open>Health check configuration (health_config.go)\<close>

record health_config =
  hc_Timeout :: int
  hc_Interval :: int

definition DefaultHealthCheckConfig :: health_config where
  "DefaultHealthCheckConfig = \<lparr>hc_Timeout = 5 * second, hc_Interval = 30 * second\<rparr>"

definition FastHealthCheckConfig :: health_config where
  "FastHealthCheckConfig = \<lparr>hc_Timeout = 1 * second, hc_Interval = 5 * second\<rparr>"

definition RelaxedHealthCheckConfig :: health_config where
  "RelaxedHealthCheckConfig = \<lparr>hc_Timeout = 10 * second, hc_Interval = 60 * second\<rparr>"

definition CustomHealthCheckConfig :: "int \<Rightarrow> int \<Rightarrow> health_config" where
  "CustomHealthCheckConfig timeout interval =
     \<lparr>hc_Timeout = (if timeout \<le> 0 then 5 * second else timeout),
      hc_Interval = (if interval \<le> 0 then 30 * second else interval)\<rparr>"

section \<open>The configuration builder (storage.go)\<close>

record storage_config =
  MaxOpenConnections :: int
  MaxIdleConnections :: int
  ConnMaxLifetime :: int
  ConnMaxIdleTime :: int
  QueryTimeout :: int
  HealthCheck :: "health_config option"

record config_builder =
  scb_config :: storage_config
  scb_errors :: "go_error list"

definition NewStorageConfigBuilder :: config_builder where
  "NewStorageConfigBuilder =
     \<lparr>scb_config =
        \<lparr>MaxOpenConnections = 25, MaxIdleConnections = 5, ConnMaxLifetime = hour,
         ConnMaxIdleTime = minute * 10, QueryTimeout = second * 30,
         HealthCheck = Some DefaultHealthCheckConfig\<rparr>,
      scb_errors = []\<rparr>"

text \<open>Append an error if a condition fails. \<open>fmt_dur\<close> is \<^verbatim>\<open>Duration.String\<close>.\<close>

definition check :: "bool \<Rightarrow> string \<Rightarrow> config_builder \<Rightarrow> config_builder" where
  "check bad msg scb = (if bad then scb\<lparr>scb_errors := scb_errors scb @ [NewErr msg]\<rparr> else scb)"

definition WithMaxOpenConnections :: "int \<Rightarrow> config_builder \<Rightarrow> config_builder" where
  "WithMaxOpenConnections n scb =
     (let scb = check (n \<le> 0) (''MaxOpenConnections must be > 0, got '' @ int_str n) scb
      in scb\<lparr>scb_config := (scb_config scb)\<lparr>MaxOpenConnections := n\<rparr>\<rparr>)"

definition WithMaxIdleConnections :: "int \<Rightarrow> config_builder \<Rightarrow> config_builder" where
  "WithMaxIdleConnections n scb =
     (let scb = check (n < 0) (''MaxIdleConnections must be >= 0, got '' @ int_str n) scb
      in scb\<lparr>scb_config := (scb_config scb)\<lparr>MaxIdleConnections := n\<rparr>\<rparr>)"

definition WithConnMaxLifetime :: "(int \<Rightarrow> string) \<Rightarrow> int \<Rightarrow> config_builder \<Rightarrow> config_builder" where
  "WithConnMaxLifetime fmt_dur d scb =
     (let scb = check (d \<le> 0) (''ConnMaxLifetime must be > 0, got '' @ fmt_dur d) scb
      in scb\<lparr>scb_config := (scb_config scb)\<lparr>ConnMaxLifetime := d\<rparr>\<rparr>)"

definition WithConnMaxIdleTime :: "(int \<Rightarrow> string) \<Rightarrow> int \<Rightarrow> config_builder \<Rightarrow> config_builder" where
  "WithConnMaxIdleTime fmt_dur d scb =
     (let scb = check (d < 0) (''ConnMaxIdleTime must be >= 0, got '' @ fmt_dur d) scb
      in scb\<lparr>scb_config := (scb_config scb)\<lparr>ConnMaxIdleTime := d\<rparr>\<rparr>)"

definition WithQueryTimeout :: "(int \<Rightarrow> string) \<Rightarrow> int \<Rightarrow> config_builder \<Rightarrow> config_builder" where
  "WithQueryTimeout fmt_dur d scb =
     (let scb = check (d \<le> 0) (''QueryTimeout must be > 0, got '' @ fmt_dur d) scb
      in scb\<lparr>scb_config := (scb_config scb)\<lparr>QueryTimeout := d\<rparr>\<rparr>)"

definition WithHealthCheckConfig :: "health_config option \<Rightarrow> config_builder \<Rightarrow> config_builder" where
  "WithHealthCheckConfig hc scb =
     (case hc of
        None \<Rightarrow> scb
      | Some h \<Rightarrow> scb\<lparr>scb_config := (scb_config scb)\<lparr>HealthCheck := Some h\<rparr>\<rparr>)"

text \<open>Go's division truncates toward zero.\<close>

definition half :: "int \<Rightarrow> int" where
  "half n = (if 0 \<le> n then n div 2 else - ((- n) div 2))"

text \<open>\<open>Build\<close> changes the builder's own configuration and returns it.\<close>

definition Build :: "config_builder \<Rightarrow> config_builder \<times> storage_config" where
  "Build scb =
     (let c = scb_config scb;
          c = (if MaxOpenConnections c < MaxIdleConnections c
               then c\<lparr>MaxIdleConnections := half (MaxOpenConnections c)\<rparr> else c)
      in (scb\<lparr>scb_config := c\<rparr>, c))"

fun err_text :: "go_error \<Rightarrow> string" where
  "err_text (NewErr m) = m"
| "err_text (WrapErr a e b) = a @ err_text e @ b"
| "err_text (TenantErr q ts e) = err_text e"

definition BuildWithValidation :: "config_builder \<Rightarrow> config_builder \<times> storage_config res" where
  "BuildWithValidation scb =
     (if 0 < length (scb_errors scb)
      then (scb, Err (NewErr (''storage config validation failed: ''
                              @ str_join (map err_text (scb_errors scb)) ''; '')))
      else let (scb', c) = Build scb in (scb', Ok c))"

definition DefaultConfig :: storage_config where
  "DefaultConfig = snd (Build NewStorageConfigBuilder)"

section \<open>The adapter (storage.go)\<close>

record deadline_ctx =
  dl_values :: go_ctx
  dl_deadline :: "int option"

record 'h storage =
  st_db :: "'h option"
  st_enforcer :: enforcer
  st_config :: storage_config

datatype pool_call =
    SetMaxOpenConns int | SetMaxIdleConns int | SetConnMaxLifetime int | SetConnMaxIdleTime int

text \<open>The settings made on the connection, and the adapter.\<close>

definition NewWithConfig :: "'h option \<Rightarrow> storage_config option \<Rightarrow> (pool_call list \<times> 'h storage) res" where
  "NewWithConfig db cfg =
     (let c = (case cfg of None \<Rightarrow> DefaultConfig | Some c \<Rightarrow> c) in
      case db of
        None \<Rightarrow> Panic
      | Some h \<Rightarrow>
          Ok ([SetMaxOpenConns (MaxOpenConnections c), SetMaxIdleConns (MaxIdleConnections c),
               SetConnMaxLifetime (ConnMaxLifetime c), SetConnMaxIdleTime (ConnMaxIdleTime c)],
              \<lparr>st_db = Some h, st_enforcer = NewEnforcer, st_config = c\<rparr>))"

definition NewStorage :: "'h option \<Rightarrow> (pool_call list \<times> 'h storage) res" where
  "NewStorage db = NewWithConfig db (Some DefaultConfig)"

text \<open>The context of a call, and whether the method cancels it when it returns.\<close>

definition query_ctx :: "storage_config \<Rightarrow> int \<Rightarrow> deadline_ctx \<Rightarrow> deadline_ctx \<times> bool" where
  "query_ctx cfg now ctx =
     (if dl_deadline ctx = None \<and> 0 < QueryTimeout cfg
      then (ctx\<lparr>dl_deadline := Some (now + QueryTimeout cfg)\<rparr>, True)
      else (ctx, False))"

text \<open>An error of the enforcer, an error of the driver.\<close>

definition enforce_err :: "go_error \<Rightarrow> go_error" where
  "enforce_err e = WrapErr ''query enforcement failed: '' e []"

definition exec_err :: "'r res \<Rightarrow> 'r res" where
  "exec_err r = (case r of Err e \<Rightarrow> Err (WrapErr ''query execution failed: '' e []) | _ \<Rightarrow> r)"

text \<open>Run a call on a handle that may be nil.\<close>

definition on_handle :: "'h option \<Rightarrow> ('h \<Rightarrow> 'w \<Rightarrow> 'w \<times> 'r res) \<Rightarrow> 'w \<Rightarrow> 'w \<times> 'r res" where
  "on_handle h f w = (case h of None \<Rightarrow> (w, Panic) | Some h \<Rightarrow> f h w)"

text \<open>
  The bodies shared by the adapter and its transactions: \<open>cfg\<close>, \<open>e\<close> and \<open>h\<close> are the configuration,
  the enforcer and the connection of either. The result is the world, the value, and the flag of
  \<open>query_ctx\<close>.
\<close>

definition run_query where
  "run_query exec cfg e h w now ctx query args =
     (let (ctx, cancelled) = query_ctx cfg now ctx in
      case EnforceQuery e (dl_values ctx) query args of
        Err err \<Rightarrow> (w, Err (enforce_err err), cancelled)
      | Panic \<Rightarrow> (w, Panic, cancelled)
      | Ok (q', args') \<Rightarrow>
          let (w', r) = on_handle h (\<lambda>h. exec h (QueryContext ctx q' args')) w
          in (w', exec_err r, cancelled))"

definition run_exec where
  "run_exec exec cfg e h w now ctx query args =
     (let (ctx, cancelled) = query_ctx cfg now ctx in
      case EnforceQuery e (dl_values ctx) query args of
        Err err \<Rightarrow> (w, Err (enforce_err err), cancelled)
      | Panic \<Rightarrow> (w, Panic, cancelled)
      | Ok (q', args') \<Rightarrow>
          let (w', r) = on_handle h (\<lambda>h. exec h (ExecContext ctx q' args')) w
          in (w', exec_err r, cancelled))"

text \<open>A row is what the driver answered; a nil handle panics before there is a row.\<close>

definition as_row :: "'h option \<Rightarrow> 'r res \<Rightarrow> 'r row res" where
  "as_row h r = (case h of None \<Rightarrow> Panic | Some _ \<Rightarrow> Ok (RowOf r))"

definition run_query_row_with_error where
  "run_query_row_with_error exec cfg e h w now ctx query args =
     (let (ctx, cancelled) = query_ctx cfg now ctx in
      case EnforceQuery e (dl_values ctx) query args of
        Err err \<Rightarrow> (w, Err (enforce_err err), cancelled)
      | Panic \<Rightarrow> (w, Panic, cancelled)
      | Ok (q', args') \<Rightarrow>
          let (w', r) = on_handle h (\<lambda>h. exec h (QueryRowContext ctx q' args')) w
          in (w', as_row h r, cancelled))"

definition no_row_query :: string where
  "no_row_query = ''SELECT NULL WHERE FALSE''"

definition run_query_row where
  "run_query_row exec cfg e h w now ctx query args =
     (let (ctx, cancelled) = query_ctx cfg now ctx in
      case EnforceQuery e (dl_values ctx) query args of
        Err err \<Rightarrow>
          let (w', r) = on_handle h (\<lambda>h. exec h (QueryRowContext ctx no_row_query [])) w
          in (w', as_row h r, cancelled)
      | Panic \<Rightarrow> (w, Panic, cancelled)
      | Ok (q', args') \<Rightarrow>
          let (w', r) = on_handle h (\<lambda>h. exec h (QueryRowContext ctx q' args')) w
          in (w', as_row h r, cancelled))"

definition storage_Query where
  "storage_Query exec s w now ctx query args =
     run_query exec (st_config s) (st_enforcer s) (st_db s) w now ctx query args"

definition storage_QueryRowWithError where
  "storage_QueryRowWithError exec s w now ctx query args =
     run_query_row_with_error exec (st_config s) (st_enforcer s) (st_db s) w now ctx query args"

definition storage_QueryRow where
  "storage_QueryRow exec s w now ctx query args =
     run_query_row exec (st_config s) (st_enforcer s) (st_db s) w now ctx query args"

definition storage_Exec where
  "storage_Exec exec s w now ctx query args =
     run_exec exec (st_config s) (st_enforcer s) (st_db s) w now ctx query args"

text \<open>\<open>Scan\<close> of a \<^verbatim>\<open>QueryRowResult\<close>: the row's own \<^verbatim>\<open>Scan\<close>, a parameter, unless an error is kept.\<close>

record 'r query_row_result =
  qr_row :: "'r row"
  qr_err :: "go_error option"

definition qr_Scan :: "('r row \<Rightarrow> go_error option) \<Rightarrow> 'r query_row_result \<Rightarrow> go_error option" where
  "qr_Scan scan qr = (case qr_err qr of Some e \<Rightarrow> Some e | None \<Rightarrow> scan (qr_row qr))"

definition qr_Err :: "'r query_row_result \<Rightarrow> go_error option" where
  "qr_Err qr = qr_err qr"

text \<open>The ways around the enforcement.\<close>

definition GetDB :: "'h storage \<Rightarrow> 'h option" where
  "GetDB s = st_db s"

definition GetEnforcer :: "'h storage \<Rightarrow> enforcer" where
  "GetEnforcer s = st_enforcer s"

definition storage_Close where
  "storage_Close close s w = (case st_db s of None \<Rightarrow> (w, Ok ()) | Some h \<Rightarrow> close h w)"

definition storage_Health where
  "storage_Health ping s w now ctx =
     (case st_db s of
        None \<Rightarrow> (w, Err (NewErr ''database connection not available''))
      | Some h \<Rightarrow>
         (case HealthCheck (st_config s) of
            None \<Rightarrow> (w, Panic)
          | Some hc \<Rightarrow>
              let ctx = ctx\<lparr>dl_deadline :=
                    (case dl_deadline ctx of
                       None \<Rightarrow> Some (now + hc_Timeout hc)
                     | Some d \<Rightarrow> Some (min d (now + hc_Timeout hc)))\<rparr>
              in case ping h ctx w of
                   (w', Err e) \<Rightarrow> (w', Err (WrapErr ''database health check failed: '' e []))
                 | (w', r) \<Rightarrow> (w', r)))"

section \<open>Transactions (transaction.go)\<close>

text \<open>The channel \<^verbatim>\<open>done\<close> is whether it is closed; closing it twice is a panic.\<close>

record 'x transaction =
  t_tx :: "'x option"
  t_enforcer :: enforcer
  t_config :: storage_config
  t_done :: bool

definition NewTransaction :: "'x option \<Rightarrow> enforcer \<Rightarrow> storage_config option \<Rightarrow> 'x transaction" where
  "NewTransaction t e cfg =
     \<lparr>t_tx = t, t_enforcer = e, t_config = (case cfg of None \<Rightarrow> DefaultConfig | Some c \<Rightarrow> c),
      t_done = False\<rparr>"

definition storage_Begin where
  "storage_Begin beginTx s w now ctx =
     (let (ctx, cancelled) = query_ctx (st_config s) now ctx;
          (w', r) = on_handle (st_db s) (\<lambda>h. beginTx h ctx) w
      in (w',
          case r of
            Err e \<Rightarrow> Err (WrapErr ''transaction begin failed: '' e [])
          | Panic \<Rightarrow> Panic
          | Ok t \<Rightarrow> Ok (NewTransaction (Some t) (st_enforcer s) (Some (st_config s))),
          cancelled))"

definition t_Query where
  "t_Query exec t w now ctx query args =
     run_query exec (t_config t) (t_enforcer t) (t_tx t) w now ctx query args"

definition t_QueryRowWithError where
  "t_QueryRowWithError exec t w now ctx query args =
     run_query_row_with_error exec (t_config t) (t_enforcer t) (t_tx t) w now ctx query args"

definition t_QueryRow where
  "t_QueryRow exec t w now ctx query args =
     run_query_row exec (t_config t) (t_enforcer t) (t_tx t) w now ctx query args"

definition t_Exec where
  "t_Exec exec t w now ctx query args =
     run_exec exec (t_config t) (t_enforcer t) (t_tx t) w now ctx query args"

definition t_Begin :: "'x transaction \<Rightarrow> 'y res" where
  "t_Begin t = Err (NewErr ''nested transactions are not supported'')"

definition t_Close :: "'x transaction \<Rightarrow> unit res" where
  "t_Close t = Err (NewErr ''cannot close transaction directly; use Commit or Rollback'')"

definition t_Health :: "'x transaction \<Rightarrow> unit res" where
  "t_Health t = (if t_tx t = None then Err (NewErr ''transaction is closed'') else Ok ())"

text \<open>\<open>end_tx\<close> is the driver's \<^verbatim>\<open>Commit\<close> or \<^verbatim>\<open>Rollback\<close>; both methods then close the channel.\<close>

definition t_Commit where
  "t_Commit end_tx t w =
     (case t_tx t of
        None \<Rightarrow> (t, w, Err (NewErr ''transaction is already closed''))
      | Some x \<Rightarrow>
          let (w', r) = end_tx x w
          in if t_done t then (t, w', Panic) else (t\<lparr>t_done := True\<rparr>, w', r))"

definition t_Rollback where
  "t_Rollback end_tx t w =
     (case t_tx t of
        None \<Rightarrow> (t, w, Err (NewErr ''transaction is already closed''))
      | Some x \<Rightarrow>
          let (w', r) = end_tx x w
          in if t_done t then (t, w', Panic) else (t\<lparr>t_done := True\<rparr>, w', r))"


section \<open>Facts\<close>

lemma query_ctx_values [simp]: "dl_values (fst (query_ctx cfg now ctx)) = dl_values ctx"
  by (simp add: query_ctx_def)

text \<open>A builder made by the constructor and changed by its methods.\<close>

inductive built :: "(int \<Rightarrow> string) \<Rightarrow> config_builder \<Rightarrow> bool" for fmt_dur where
  new: "built fmt_dur NewStorageConfigBuilder"
| open_conns: "built fmt_dur b \<Longrightarrow> built fmt_dur (WithMaxOpenConnections n b)"
| idle_conns: "built fmt_dur b \<Longrightarrow> built fmt_dur (WithMaxIdleConnections n b)"
| lifetime: "built fmt_dur b \<Longrightarrow> built fmt_dur (WithConnMaxLifetime fmt_dur d b)"
| idle_time: "built fmt_dur b \<Longrightarrow> built fmt_dur (WithConnMaxIdleTime fmt_dur d b)"
| query_timeout: "built fmt_dur b \<Longrightarrow> built fmt_dur (WithQueryTimeout fmt_dur d b)"
| health: "built fmt_dur b \<Longrightarrow> built fmt_dur (WithHealthCheckConfig hc b)"
| build: "built fmt_dur b \<Longrightarrow> built fmt_dur (fst (Build b))"

definition storage_config_ok :: "storage_config \<Rightarrow> bool" where
  "storage_config_ok c \<longleftrightarrow> 0 < MaxOpenConnections c \<and> 0 \<le> MaxIdleConnections c \<and> 0 < ConnMaxLifetime c \<and>
     0 \<le> ConnMaxIdleTime c \<and> 0 < QueryTimeout c \<and> HealthCheck c \<noteq> None"

lemma check_errors: "scb_errors (check bad msg b) = [] \<longleftrightarrow> \<not> bad \<and> scb_errors b = []"
  "scb_config (check bad msg b) = scb_config b"
  by (simp_all add: check_def)

lemmas builder_defs = WithMaxOpenConnections_def WithMaxIdleConnections_def WithConnMaxLifetime_def
  WithConnMaxIdleTime_def WithQueryTimeout_def WithHealthCheckConfig_def Build_def

lemma built_ok: "built fmt_dur b \<Longrightarrow> scb_errors b = [] \<Longrightarrow> storage_config_ok (scb_config b)"
proof (induction rule: built.induct)
  case new
  then show ?case by (simp add: NewStorageConfigBuilder_def storage_config_ok_def go_time)
qed (auto simp: builder_defs storage_config_ok_def check_errors Let_def half_def split: option.splits)

section \<open>Properties\<close>

text \<open>
  What a builder's \<^verbatim>\<open>BuildWithValidation\<close> accepts, after any sequence of its methods, is a usable
  configuration, and it never allows more idle connections than open ones.
\<close>

theorem validated_config:
  assumes "built fmt_dur b" "BuildWithValidation b = (b', Ok c)"
  shows "storage_config_ok c \<and> MaxIdleConnections c \<le> MaxOpenConnections c"
proof -
  have c: "scb_errors b = []" "c = snd (Build b)"
    using assms(2) by (auto simp: BuildWithValidation_def split: if_splits prod.splits)
  from built_ok [OF assms(1) c(1)] c(2) show ?thesis
    by (auto simp: Build_def storage_config_ok_def half_def Let_def)
qed

lemma validated_config_witness:
  "\<exists>b' c. BuildWithValidation (WithMaxOpenConnections 3 NewStorageConfigBuilder) = (b', Ok c) \<and>
     MaxIdleConnections c \<le> 3"
proof -
  let ?b = "WithMaxOpenConnections 3 NewStorageConfigBuilder"
  obtain b' c where r: "BuildWithValidation ?b = (b', Ok c)" "MaxOpenConnections c = 3"
    by (auto simp: BuildWithValidation_def builder_defs check_def NewStorageConfigBuilder_def Let_def)
  show ?thesis using validated_config [OF built.open_conns [OF built.new] r(1)] r by auto
qed

definition no_tenant_err :: "go_error \<Rightarrow> go_error" where
  "no_tenant_err e = enforce_err (WrapErr ''failed to extract tenant context: '' e [])"

text \<open>
  Without a tenant context the storage adapter runs no statement of the caller, neither on the
  connection nor in a transaction: \<^verbatim>\<open>Query\<close>, \<^verbatim>\<open>Exec\<close> and \<^verbatim>\<open>QueryRowWithError\<close> fail with the
  world unchanged, and \<^verbatim>\<open>QueryRow\<close> sends a fixed statement that returns no row.
\<close>

theorem storage_refuses_without_tenant:
  assumes "FromGoContext (Some (dl_values ctx)) = Err e"
  shows "storage_Query exec s w now ctx q args = (w, Err (no_tenant_err e), snd (query_ctx (st_config s) now ctx)) \<and>
    storage_Exec exec s w now ctx q args = (w, Err (no_tenant_err e), snd (query_ctx (st_config s) now ctx)) \<and>
    storage_QueryRowWithError exec s w now ctx q args =
      (w, Err (no_tenant_err e), snd (query_ctx (st_config s) now ctx)) \<and>
    fst (storage_QueryRow exec s w now ctx q args) =
      fst (on_handle (st_db s) (\<lambda>h. exec h (QueryRowContext (fst (query_ctx (st_config s) now ctx)) no_row_query [])) w) \<and>
    t_Query exec' t w now ctx q args = (w, Err (no_tenant_err e), snd (query_ctx (t_config t) now ctx)) \<and>
    t_Exec exec' t w now ctx q args = (w, Err (no_tenant_err e), snd (query_ctx (t_config t) now ctx)) \<and>
    t_QueryRowWithError exec' t w now ctx q args =
      (w, Err (no_tenant_err e), snd (query_ctx (t_config t) now ctx))"
  using assms
  by (simp add: storage_Query_def storage_Exec_def storage_QueryRowWithError_def storage_QueryRow_def t_Query_def
      t_Exec_def t_QueryRowWithError_def run_query_def run_exec_def run_query_row_with_error_def run_query_row_def
      EnforceQuery_def no_tenant_err_def split_beta Let_def)

definition demo_storage :: "unit storage" where
  "demo_storage = \<lparr>st_db = Some (), st_enforcer = NewEnforcer, st_config = DefaultConfig\<rparr>"

definition bare_ctx :: deadline_ctx where
  "bare_ctx = \<lparr>dl_values = background, dl_deadline = None\<rparr>"

definition count_call :: "unit \<Rightarrow> deadline_ctx sql_call \<Rightarrow> nat \<Rightarrow> nat \<times> unit res" where
  "count_call h c w = (Suc w, Ok ())"

lemma storage_refuses_without_tenant_witness:
  "storage_Exec count_call demo_storage 0 0 bare_ctx ''DELETE FROM users'' [] =
     (0, Err (no_tenant_err ErrInvalidContext), True)"
proof -
  have c: "FromGoContext (Some (dl_values bare_ctx)) = Err ErrInvalidContext"
    by (simp add: bare_ctx_def background_def FromGoContext_def)
  have "snd (query_ctx DefaultConfig 0 bare_ctx) = True" by code_simp
  then show ?thesis
    using storage_refuses_without_tenant [OF c, where exec = count_call and s = demo_storage and w = 0 and now = 0
        and q = "''DELETE FROM users''" and args = "[]" and exec' = count_call and t = "NewTransaction (Some ()) NewEnforcer None"]
    by (simp add: demo_storage_def)
qed

text \<open>
  With a tenant, the connection gets exactly one call: the enforced statement with the caller's
  arguments, under the caller's context values and a deadline; its error is wrapped.
\<close>

theorem storage_sends_enforced:
  assumes "EnforceQuery (st_enforcer s) (dl_values ctx) q args = Ok (q', args')" "st_db s = Some h"
    "0 < QueryTimeout (st_config s)"
  shows "\<exists>ctx'. dl_values ctx' = dl_values ctx \<and> dl_deadline ctx' \<noteq> None \<and> args' = args \<and>
    (\<forall>d. dl_deadline ctx = Some d \<longrightarrow> dl_deadline ctx' = Some d) \<and>
    storage_Exec exec s w now ctx q args =
      (fst (exec h (ExecContext ctx' q' args) w), exec_err (snd (exec h (ExecContext ctx' q' args) w)),
       dl_deadline ctx = None)"
proof -
  have a: "args' = args" using assms(1) by (auto simp: EnforceQuery_Ok_iff)
  show ?thesis
    using assms unfolding a
    by (intro exI [of _ "fst (query_ctx (st_config s) now ctx)"])
      (auto simp: storage_Exec_def run_exec_def on_handle_def query_ctx_def split_beta Let_def)
qed

lemma storage_sends_enforced_witness:
  "\<exists>ctx' :: deadline_ctx. dl_deadline ctx' \<noteq> None \<and>
     storage_Exec (\<lambda>h c w. (w @ [(call_query c, call_args c)], Ok ())) demo_storage [] 0
       \<lparr>dl_values = ToGoContext \<lparr>dc_tenantID = \<lparr>tid_value = ''acme''\<rparr>, dc_userID = ''u'', dc_requestID = ''r'',
          dc_timestamp = 0\<rparr> background, dl_deadline = None\<rparr> ''DELETE FROM users'' [] =
     ([(''DELETE FROM users WHERE tenant_id = '' @ [CHR 0x27] @ ''acme'' @ [CHR 0x27], [])], Ok (), True)"
proof -
  let ?ctx = "\<lparr>dl_values = ToGoContext \<lparr>dc_tenantID = \<lparr>tid_value = ''acme''\<rparr>, dc_userID = ''u'', dc_requestID = ''r'',
          dc_timestamp = 0\<rparr> background, dl_deadline = None\<rparr>"
  have c: "FromGoContext (Some (dl_values ?ctx)) =
     Ok \<lparr>dc_tenantID = \<lparr>tid_value = ''acme''\<rparr>, dc_userID = ''u'', dc_requestID = ''r'', dc_timestamp = 0\<rparr>"
    by (simp add: FromGoContext_ToGoContext)
  have v: "ValidateQuery ''DELETE FROM users'' = None" by code_simp
  have r: "rewriteQuery NewEnforcer ''DELETE FROM users'' ''acme'' =
      ''DELETE FROM users WHERE tenant_id = '' @ [CHR 0x27] @ ''acme'' @ [CHR 0x27]" by code_simp
  have e: "EnforceQuery (st_enforcer demo_storage) (dl_values ?ctx) ''DELETE FROM users'' [] =
      Ok (''DELETE FROM users WHERE tenant_id = '' @ [CHR 0x27] @ ''acme'' @ [CHR 0x27], [])"
    unfolding EnforceQuery_Ok_iff using c v r by (simp add: demo_storage_def)
  have d: "st_db demo_storage = Some ()" "0 < QueryTimeout (st_config demo_storage)" by code_simp+
  show ?thesis
    using storage_sends_enforced [OF e d, of "\<lambda>h c w. (w @ [(call_query c, call_args c)], Ok ())" "[]" 0]
    by (auto simp: exec_err_def)
qed

text \<open>
  \<^verbatim>\<open>Commit\<close> or \<^verbatim>\<open>Rollback\<close> ends a transaction once: after either of them, either of them panics,
  as both close the channel \<^verbatim>\<open>done\<close>. The usual \<^verbatim>\<open>defer tx.Rollback()\<close> after a commit panics.
\<close>

theorem second_end_panics:
  assumes "t_tx t = Some x" "t_done t = False"
  shows "snd (snd (t_Rollback end2 (fst (t_Commit end1 t w)) w')) = Panic \<and>
    snd (snd (t_Commit end2 (fst (t_Commit end1 t w)) w')) = Panic \<and>
    snd (snd (t_Commit end2 (fst (t_Rollback end1 t w)) w')) = Panic \<and>
    fst (t_Commit end1 t w) = t\<lparr>t_done := True\<rparr>"
  using assms by (simp add: t_Commit_def t_Rollback_def split_beta Let_def)

lemma second_end_panics_witness:
  "snd (snd (t_Rollback (\<lambda>x w. (w, Ok ())) (fst (t_Commit (\<lambda>x w. (w, Ok ())) (NewTransaction (Some ()) NewEnforcer None) (0::nat))) (0::nat))) = (Panic :: unit res)"
proof -
  have t: "t_tx (NewTransaction (Some ()) NewEnforcer None) = Some ()"
    "t_done (NewTransaction (Some ()) NewEnforcer None) = False"
    by (simp_all add: NewTransaction_def)
  show ?thesis by (rule conjunct1 [OF second_end_panics [OF t]])
qed

end
