(* ===== verification/Http_Resolver.thy ===== *)
theory Http_Resolver
  imports Tenant_Domain
begin

text \<open>
  adapters/http-stdlib/resolver.go: the strategies that read the tenant identifier from a
  request. A request is the part of \<^verbatim>\<open>http.Request\<close> the code reads. The values of the interface
  \<^verbatim>\<open>Resolver\<close> are a datatype with one constructor for each type that implements it; the two
  functions of a JWT resolver are fields of it, nil is \<open>None\<close>.
\<close>

section \<open>Requests\<close>

text \<open>The headers map a canonical name to its values.\<close>

record request =
  rq_Host :: string
  rq_Header :: "(string \<times> string list) list"
  rq_Path :: string
  rq_RemoteAddr :: string
  rq_ctx :: go_ctx

text \<open>The bytes of a header name, and \<^verbatim>\<open>textproto.CanonicalMIMEHeaderKey\<close>.\<close>

definition token_char :: "char \<Rightarrow> bool" where
  "token_char c \<longleftrightarrow> is_lower c \<or> is_upper c \<or> is_digit c \<or>
     c \<in> set ''!#$%&*+-.^_`|~'' \<or> c = CHR 0x27"

fun canonical_from :: "bool \<Rightarrow> string \<Rightarrow> string" where
  "canonical_from up [] = []"
| "canonical_from up (c # s) = (if up then up_char c else low_char c) # canonical_from (c = CHR ''-'') s"

definition canonical_key :: "string \<Rightarrow> string" where
  "canonical_key k = (if list_all token_char k then canonical_from True k else k)"

definition Header_Get :: "request \<Rightarrow> string \<Rightarrow> string" where
  "Header_Get req name =
     (case map_of (rq_Header req) (canonical_key name) of
        Some (v # _) \<Rightarrow> v
      | _ \<Rightarrow> [])"

section \<open>Resolvers\<close>

datatype resolver =
    SubdomainResolver string
  | HeaderResolver string
  | PathResolver string int
  | JWTResolver string "(request \<Rightarrow> string res) option" "(string \<Rightarrow> string \<Rightarrow> string res) option"
  | ChainResolver "resolver list"

definition NewSubdomainResolver :: "string \<Rightarrow> resolver" where
  "NewSubdomainResolver domain = SubdomainResolver domain"

definition NewHeaderResolver :: "string \<Rightarrow> resolver" where
  "NewHeaderResolver headerName =
     HeaderResolver (if headerName = [] then ''X-Tenant-ID'' else headerName)"

definition NewPathResolver :: "string \<Rightarrow> int \<Rightarrow> resolver" where
  "NewPathResolver prefix pathSegment = PathResolver prefix pathSegment"

definition NewJWTResolver ::
  "string \<Rightarrow> (request \<Rightarrow> string res) option \<Rightarrow> (string \<Rightarrow> string \<Rightarrow> string res) option \<Rightarrow> resolver" where
  "NewJWTResolver claimName extractor parser =
     JWTResolver (if claimName = [] then ''tenant_id'' else claimName) extractor parser"

definition ChainResolvers :: "resolver list \<Rightarrow> resolver" where
  "ChainResolvers rs = ChainResolver rs"

definition resolve_subdomain :: "string \<Rightarrow> request \<Rightarrow> string res" where
  "resolve_subdomain domain req =
     (let host = (if rq_Host req = [] then Header_Get req ''Host'' else rq_Host req) in
      if host = [] then Err (NewErr ''host header not found in request'')
      else let host = hd (split_char host CHR '':'') in
        if host = domain then Err (NewErr (''no tenant subdomain found in host: '' @ host))
        else if \<not> has_suffix host (''.'' @ domain)
        then Err (NewErr (''host '' @ host @ '' does not belong to domain '' @ domain))
        else let sub = trim_suffix host (''.'' @ domain) in
          if sub = [] then Err (NewErr (''empty subdomain extracted from host: '' @ host))
          else if contains sub ''.''
          then Err (NewErr (''nested subdomains not allowed, host: '' @ host))
          else Ok sub)"

definition resolve_header :: "string \<Rightarrow> request \<Rightarrow> string res" where
  "resolve_header headerName req =
     (let tenantID = Header_Get req headerName in
      if tenantID = [] then Err (NewErr (''header '' @ headerName @ '' not found or empty in request''))
      else let trimmed = trim_space tenantID in
        if trimmed = [] then Err (NewErr (''header '' @ headerName @ '' contains only whitespace''))
        else Ok trimmed)"

text \<open>The check of the prefix: the number of its segments.\<close>

definition path_prefix :: "string \<Rightarrow> string list \<Rightarrow> nat res" where
  "path_prefix prefix segments =
     (if prefix = [] then Ok 0
      else let prefixSegments = split_char (trim_prefix prefix ''/'') CHR ''/'' in
        if length segments < length prefixSegments
        then Err (NewErr (''path does not have enough segments for prefix: '' @ prefix))
        else if take (length prefixSegments) segments \<noteq> prefixSegments
        then Err (NewErr (''path does not start with expected prefix: '' @ prefix))
        else Ok (length prefixSegments))"

definition resolve_path :: "string \<Rightarrow> int \<Rightarrow> request \<Rightarrow> string res" where
  "resolve_path prefix pathSegment req =
     (let segments = split_char (trim_prefix (rq_Path req) ''/'') CHR ''/'' in
      res_bind (path_prefix prefix segments) (\<lambda>prefixStart.
        let segmentIndex = add64 (int prefixStart) pathSegment in
        if int (length segments) \<le> segmentIndex
        then Err (NewErr (''path segment '' @ int_str pathSegment @ '' not found in path: '' @ rq_Path req))
        else if segmentIndex < 0 then Panic
        else let tenantID = trim_space (segments ! nat segmentIndex) in
          if tenantID = []
          then Err (NewErr (''empty tenant ID at path segment '' @ int_str pathSegment
                            @ '' in path: '' @ rq_Path req))
          else Ok tenantID))"

definition resolve_jwt ::
  "string \<Rightarrow> (request \<Rightarrow> string res) option \<Rightarrow> (string \<Rightarrow> string \<Rightarrow> string res) option
     \<Rightarrow> request \<Rightarrow> string res" where
  "resolve_jwt claimName extractor parser req =
     (case extractor of
        None \<Rightarrow> Err (NewErr ''JWT token extractor not configured'')
      | Some extract \<Rightarrow>
     (case parser of
        None \<Rightarrow> Err (NewErr ''JWT claim parser not configured'')
      | Some parse \<Rightarrow>
     (case extract req of
        Err e \<Rightarrow> Err (WrapErr ''failed to extract JWT token: '' e [])
      | Panic \<Rightarrow> Panic
      | Ok token \<Rightarrow>
          if token = [] then Err (NewErr ''JWT token not found in request'')
          else
     (case parse token claimName of
        Err e \<Rightarrow> Err (WrapErr ''failed to extract tenant claim from JWT: '' e [])
      | Panic \<Rightarrow> Panic
      | Ok tenantID \<Rightarrow>
          if tenantID = [] then Err (NewErr (''tenant ID claim '' @ claimName @ '' is empty in JWT''))
          else Ok tenantID))))"

definition ExtractBearerToken :: "request \<Rightarrow> string res" where
  "ExtractBearerToken req =
     (let authHeader = Header_Get req ''Authorization'' in
      if authHeader = [] then Err (NewErr ''Authorization header not found'')
      else case split_char authHeader CHR '' '' of
        [scheme, token] \<Rightarrow>
          if scheme \<noteq> ''Bearer''
          then Err (NewErr (''invalid Authorization header format, expected '' @ [CHR 0x27]
                            @ ''Bearer <token>'' @ [CHR 0x27]))
          else Ok token
      | _ \<Rightarrow> Err (NewErr (''invalid Authorization header format, expected '' @ [CHR 0x27]
                          @ ''Bearer <token>'' @ [CHR 0x27])))"

text \<open>A chain keeps the last error; the first success ends it.\<close>

fun Resolve :: "resolver \<Rightarrow> request \<Rightarrow> string res"
  and resolve_chain :: "resolver list \<Rightarrow> go_error option \<Rightarrow> request \<Rightarrow> string res" where
  "Resolve (SubdomainResolver domain) req = resolve_subdomain domain req"
| "Resolve (HeaderResolver headerName) req = resolve_header headerName req"
| "Resolve (PathResolver prefix pathSegment) req = resolve_path prefix pathSegment req"
| "Resolve (JWTResolver claimName extractor parser) req = resolve_jwt claimName extractor parser req"
| "Resolve (ChainResolver rs) req = resolve_chain rs None req"
| "resolve_chain [] lastErr req =
     (case lastErr of Some e \<Rightarrow> Err e | None \<Rightarrow> Err (NewErr ''no resolvers available''))"
| "resolve_chain (r # rs) lastErr req =
     (case Resolve r req of
        Ok tenantID \<Rightarrow> Ok tenantID
      | Err e \<Rightarrow> resolve_chain rs (Some e) req
      | Panic \<Rightarrow> Panic)"

section \<open>The port\<close>

text \<open>What a middleware relies on: a resolver that succeeds names a tenant, and it does not panic.\<close>

locale tenant_resolver =
  fixes resolve :: "'c \<Rightarrow> string res"
  assumes names: "resolve req = Ok t \<Longrightarrow> t \<noteq> []"
    and safe: "resolve req \<noteq> Panic"
begin

lemma outcome: "(\<exists>t. resolve req = Ok t \<and> t \<noteq> []) \<or> (\<exists>e. resolve req = Err e)"
  using names [of req] safe [of req] by (cases "resolve req") auto

end

locale resolver_port = tenant_resolver resolve for resolve :: "request \<Rightarrow> string res"
begin

lemma request_outcome: "resolve (req :: request) = Ok t \<Longrightarrow> t \<noteq> [] \<and> (\<forall>e. resolve req \<noteq> Err e)"
  using names by simp

end

lemma subdomain_Ok: "resolve_subdomain d req = Ok t \<Longrightarrow> t \<noteq> [] \<and> \<not> contains t ''.''"
  by (auto simp: resolve_subdomain_def Let_def split: if_splits)

lemma subdomain_safe: "resolve_subdomain d req \<noteq> Panic"
  by (simp add: resolve_subdomain_def Let_def)

lemma header_Ok: "resolve_header h req = Ok t \<Longrightarrow> t \<noteq> [] \<and> t = trim_space (Header_Get req h)"
  by (auto simp: resolve_header_def Let_def split: if_splits)

lemma header_safe: "resolve_header h req \<noteq> Panic"
  by (simp add: resolve_header_def Let_def)

lemma path_prefix_Ok: "path_prefix p segs = Ok n \<Longrightarrow> n \<le> length segs"
  by (auto simp: path_prefix_def Let_def split: if_splits)

lemma path_Ok: "resolve_path p n req = Ok t \<Longrightarrow> t \<noteq> []"
  by (auto simp: resolve_path_def res_bind_Ok_iff Let_def split: if_splits)

lemma jwt_Ok: "resolve_jwt c x p req = Ok t \<Longrightarrow> t \<noteq> []"
  by (auto simp: resolve_jwt_def split: option.splits res.splits if_splits)

lemma Resolve_nonempty:
  "Resolve r req = Ok t \<Longrightarrow> t \<noteq> []"
  "resolve_chain rs lastErr req = Ok t \<Longrightarrow> t \<noteq> []"
  by (induction r req and rs lastErr req arbitrary: t and t rule: Resolve_resolve_chain.induct)
    (auto simp: subdomain_Ok header_Ok path_Ok jwt_Ok split: option.splits res.splits
      dest: subdomain_Ok header_Ok path_Ok jwt_Ok)

text \<open>The resolvers that cannot panic: no negative segment, no function that panics.\<close>

fun resolver_safe :: "resolver \<Rightarrow> bool" where
  "resolver_safe (SubdomainResolver d) = True"
| "resolver_safe (HeaderResolver h) = True"
| "resolver_safe (PathResolver p n) =
     (0 \<le> n \<and> n < 4611686018427387904 \<and> int (length p) < 4611686018427387904)"
| "resolver_safe (JWTResolver c x p) =
     ((\<forall>f. x = Some f \<longrightarrow> (\<forall>req. f req \<noteq> Panic)) \<and> (\<forall>f. p = Some f \<longrightarrow> (\<forall>t c. f t c \<noteq> Panic)))"
| "resolver_safe (ChainResolver rs) = (\<forall>r \<in> set rs. resolver_safe r)"

lemma length_split_by: "length (split_by P s) \<le> Suc (length s)"
  by (induction P s rule: split_by.induct) (auto split: list.split)

lemma path_prefix_bound: "path_prefix p segs = Ok n \<Longrightarrow> n \<le> Suc (length p)"
proof -
  assume "path_prefix p segs = Ok n"
  then have "n = 0 \<or> n = length (split_char (trim_prefix p ''/'') CHR ''/'')"
    by (auto simp: path_prefix_def Let_def split: if_splits)
  moreover have "length (split_char (trim_prefix p ''/'') CHR ''/'') \<le> Suc (length (trim_prefix p ''/''))"
    unfolding split_char_def by (rule length_split_by)
  moreover have "length (trim_prefix p ''/'') \<le> length p" by (simp add: trim_prefix_def)
  ultimately show ?thesis by auto
qed

lemma path_safe:
  assumes "0 \<le> n" "n < 4611686018427387904" "int (length p) < 4611686018427387904"
  shows "resolve_path p n req \<noteq> Panic"
proof -
  let ?segs = "split_char (trim_prefix (rq_Path req) ''/'') CHR ''/''"
  have "add64 (int k) n = int k + n" if "path_prefix p ?segs = Ok k" for k
    using path_prefix_bound [OF that] assms by (intro add64_exact) (simp add: i64_defs)
  moreover have "path_prefix p ?segs \<noteq> Panic" by (simp add: path_prefix_def Let_def)
  ultimately show ?thesis
    using assms(1) by (cases "path_prefix p ?segs") (auto simp: resolve_path_def Let_def)
qed

lemma jwt_safe:
  "resolver_safe (JWTResolver c x p) \<Longrightarrow> resolve_jwt c x p req \<noteq> Panic"
  by (auto simp: resolve_jwt_def split: option.splits res.splits)

lemma Resolve_safe:
  "resolver_safe r \<Longrightarrow> Resolve r req \<noteq> Panic"
  "\<forall>r \<in> set rs. resolver_safe r \<Longrightarrow> resolve_chain rs lastErr req \<noteq> Panic"
proof (induction r req and rs lastErr req rule: Resolve_resolve_chain.induct)
  case (4 c x p req)
  then show ?case using jwt_safe [of c x p req] by simp
qed (auto simp: subdomain_safe header_safe path_safe split: option.splits res.splits)

lemma Resolve_port: "resolver_safe r \<Longrightarrow> resolver_port (Resolve r)"
  by unfold_locales (auto dest: Resolve_nonempty(1) Resolve_safe(1))

interpretation header: resolver_port "Resolve (HeaderResolver h)" for h
  by (rule Resolve_port) simp

interpretation subdomain: resolver_port "Resolve (SubdomainResolver d)" for d
  by (rule Resolve_port) simp

section \<open>What the strategies find\<close>

text \<open>A host of one label before the domain, with or without a port.\<close>

lemma split_char_hd: "x \<notin> set a \<Longrightarrow> hd (split_char (a @ b) x) = a" if "b = [] \<or> hd b = x" for b
proof -
  assume x: "x \<notin> set a"
  have a: "split_by (\<lambda>c. c = x) a = [a]" by (rule split_by_none) (use x in auto)
  show ?thesis
  proof (cases b)
    case Nil
    then show ?thesis using a by (simp add: split_char_def)
  next
    case (Cons y b')
    have "\<forall>c \<in> set a. c \<noteq> x" using x by auto
    then show ?thesis
      using Cons that split_by_append_sep [of a "\<lambda>c. c = x" y b'] by (simp add: split_char_def)
  qed
qed

lemma resolve_subdomain_label:
  assumes "rq_Host req = t @ ''.'' @ d @ port" "port = [] \<or> hd port = CHR '':''"
    "t \<noteq> []" "CHR ''.'' \<notin> set t" "CHR '':'' \<notin> set t" "CHR '':'' \<notin> set d"
  shows "resolve_subdomain d req = Ok t"
proof -
  have h: "hd (split_char (rq_Host req) CHR '':'') = t @ ''.'' @ d"
    using split_char_hd [OF assms(2), of "t @ ''.'' @ d"] assms by simp
  have "rq_Host req \<noteq> []" using assms(1) by simp
  moreover have "t @ ''.'' @ d \<noteq> d" by simp
  moreover have "has_suffix (t @ ''.'' @ d) (''.'' @ d)" using has_suffix_append [of t "''.'' @ d"] by simp
  moreover have "trim_suffix (t @ ''.'' @ d) (''.'' @ d) = t" using trim_suffix_append [of t "''.'' @ d"] by simp
  moreover have "\<not> contains t ''.''" using assms(4) by (auto simp: contains_iff)
  ultimately show ?thesis
    using assms(3) by (simp add: resolve_subdomain_def h Let_def)
qed

text \<open>And nothing else: whatever is resolved, the host is that label before the domain.\<close>

lemma resolve_subdomain_sound:
  assumes "resolve_subdomain d req = Ok t" "rq_Host req \<noteq> []"
  shows "hd (split_char (rq_Host req) CHR '':'') = t @ ''.'' @ d \<and> CHR ''.'' \<notin> set t \<and> t \<noteq> []"
proof -
  let ?h = "hd (split_char (rq_Host req) CHR '':'')"
  have a: "has_suffix ?h (''.'' @ d)" "t = trim_suffix ?h (''.'' @ d)" "t \<noteq> []" "\<not> contains t ''.''"
    using assms by (auto simp: resolve_subdomain_def Let_def split: if_splits)
  then obtain u where "?h = u @ ''.'' @ d" by (auto simp: has_suffix_iff)
  then have "?h = t @ ''.'' @ d" using a(2) trim_suffix_append [of u "''.'' @ d"] by simp
  moreover have "CHR ''.'' \<notin> set t"
    using a(4) by (force simp: contains_iff in_set_conv_decomp)
  ultimately show ?thesis using a(3) by simp
qed

text \<open>A chain returns what its first successful member returns.\<close>

lemma resolve_chain_Ok_iff:
  "resolve_chain rs lastErr req = Ok t \<longleftrightarrow>
     (\<exists>as r bs. rs = as @ r # bs \<and> Resolve r req = Ok t \<and> (\<forall>a \<in> set as. \<exists>e. Resolve a req = Err e))"
proof (induction rs arbitrary: lastErr)
  case Nil
  then show ?case by (simp split: option.split)
next
  case (Cons r rs)
  have split: "(\<exists>as q bs. r # rs = as @ q # bs \<and> Resolve q req = Ok t \<and> (\<forall>a \<in> set as. \<exists>e. Resolve a req = Err e))
      \<longleftrightarrow> Resolve r req = Ok t \<or> (\<exists>e. Resolve r req = Err e) \<and>
        (\<exists>as q bs. rs = as @ q # bs \<and> Resolve q req = Ok t \<and> (\<forall>a \<in> set as. \<exists>e. Resolve a req = Err e))"
    (is "?l \<longleftrightarrow> ?h \<or> ?t")
  proof
    assume ?l
    then obtain as q bs where l: "r # rs = as @ q # bs" "Resolve q req = Ok t"
      "\<forall>a \<in> set as. \<exists>e. Resolve a req = Err e" by blast
    then show "?h \<or> ?t" by (cases as) auto
  next
    assume "?h \<or> ?t"
    then show ?l
    proof
      assume ?h
      then show ?l by (intro exI [of _ "[]"] exI [of _ r] exI [of _ rs]) simp
    next
      assume ?t
      then obtain as q bs where "rs = as @ q # bs" "Resolve q req = Ok t"
        "\<forall>a \<in> set as. \<exists>e. Resolve a req = Err e" "\<exists>e. Resolve r req = Err e" by blast
      then show ?l by (intro exI [of _ "r # as"] exI [of _ q] exI [of _ bs]) simp
    qed
  qed
  show ?case
    unfolding split by (cases "Resolve r req") (auto simp: Cons.IH)
qed

lemma ExtractBearerToken_Ok:
  "CHR '' '' \<notin> set token \<Longrightarrow> Header_Get req ''Authorization'' = ''Bearer '' @ token \<Longrightarrow>
     ExtractBearerToken req = Ok token"
proof -
  assume a: "CHR '' '' \<notin> set token" "Header_Get req ''Authorization'' = ''Bearer '' @ token"
  have "split_char (''Bearer'' @ CHR '' '' # token) CHR '' '' = [''Bearer'', token]"
    using a(1) split_by_append_sep [of "''Bearer''" "\<lambda>c. c = CHR '' ''" "CHR '' ''" token]
      split_by_none [of token "\<lambda>c. c = CHR '' ''"] by (auto simp: split_char_def)
  then show ?thesis using a(2) by (simp add: ExtractBearerToken_def)
qed


section \<open>Properties\<close>

text \<open>
  Subdomains: for a domain without a colon, a host resolves to a tenant exactly if, without its
  port, it is that one label, a dot and the domain.
\<close>

theorem subdomain_iff:
  assumes "rq_Host req \<noteq> []"
  shows "resolve_subdomain d req = Ok t \<longleftrightarrow>
    hd (split_char (rq_Host req) CHR '':'') = t @ ''.'' @ d \<and> CHR ''.'' \<notin> set t \<and> t \<noteq> []"
proof
  assume "resolve_subdomain d req = Ok t"
  then show "hd (split_char (rq_Host req) CHR '':'') = t @ ''.'' @ d \<and> CHR ''.'' \<notin> set t \<and> t \<noteq> []"
    by (rule resolve_subdomain_sound [OF _ assms])
next
  assume h: "hd (split_char (rq_Host req) CHR '':'') = t @ ''.'' @ d \<and> CHR ''.'' \<notin> set t \<and> t \<noteq> []"
  have "has_suffix (t @ ''.'' @ d) (''.'' @ d)" "trim_suffix (t @ ''.'' @ d) (''.'' @ d) = t"
    using has_suffix_append [of t "''.'' @ d"] trim_suffix_append [of t "''.'' @ d"] by simp_all
  moreover have "\<not> contains t ''.''" using h by (auto simp: contains_iff)
  ultimately show "resolve_subdomain d req = Ok t"
    using assms h by (simp add: resolve_subdomain_def Let_def)
qed

definition sample_request :: request where
  "sample_request = \<lparr>rq_Host = ''acme.example.com:8080'', rq_Header = [(''Authorization'', [''Bearer abc''])],
     rq_Path = ''/tenants/acme/users'', rq_RemoteAddr = ''10.0.0.1:99'', rq_ctx = background\<rparr>"

lemma subdomain_iff_witness: "resolve_subdomain ''example.com'' sample_request = Ok ''acme''"
proof -
  have n: "rq_Host sample_request \<noteq> []" by (simp add: sample_request_def)
  have h: "hd (split_char (rq_Host sample_request) CHR '':'') = ''acme'' @ ''.'' @ ''example.com''" by code_simp
  show ?thesis unfolding subdomain_iff [OF n] using h by simp
qed

text \<open>
  A chain of resolvers names the tenant of its first member that names one: all before it
  failed with an error, and a chain in which all fail has no tenant.
\<close>

theorem chain_first_success:
  "Resolve (ChainResolver rs) req = Ok t \<longleftrightarrow>
     (\<exists>as r bs. rs = as @ r # bs \<and> Resolve r req = Ok t \<and> (\<forall>a \<in> set as. \<exists>e. Resolve a req = Err e))"
  by (simp add: resolve_chain_Ok_iff)

lemma chain_first_success_witness:
  "Resolve (ChainResolvers [NewHeaderResolver ''X-Org'', NewHeaderResolver ''X-Tenant-ID''])
     (sample_request\<lparr>rq_Header := [(''X-Tenant-Id'', [''acme''])]\<rparr>) = Ok ''acme''"
  (is "Resolve (ChainResolvers [?a, ?b]) ?r = _")
proof -
  have "canonical_key ''X-Org'' = ''X-Org''" "canonical_key ''X-Tenant-ID'' = ''X-Tenant-Id''"
    "trim_space ''acme'' = ''acme''" by code_simp+
  then have "\<exists>e. Resolve ?a ?r = Err e" "Resolve ?b ?r = Ok ''acme''"
    by (simp_all add: NewHeaderResolver_def resolve_header_def Header_Get_def)
  then show ?thesis
    unfolding ChainResolvers_def chain_first_success
    by (intro exI [of _ "[?a]"] exI [of _ ?b] exI [of _ "[]"]) simp
qed

lemma split_two: "split_char s x = [a, b] \<longleftrightarrow> s = a @ x # b \<and> x \<notin> set a \<and> x \<notin> set b"
proof -
  have plain: "\<forall>c \<in> set s. \<not> P c \<Longrightarrow> split_by P s = [s]" for P and s :: string
    by (induction s) auto
  have more: "\<exists>c \<in> set s. P c \<Longrightarrow> split_by P s \<noteq> [a]" for P and s a :: string
    by (induction s arbitrary: a) (auto split: list.splits)
  have one: "split_by P s = [a] \<longleftrightarrow> s = a \<and> (\<forall>c \<in> set s. \<not> P c)" for P and s a :: string
    using plain [of s P] more [of s P a] by (cases "\<forall>c \<in> set s. \<not> P c") auto
  show ?thesis
    unfolding split_char_def
  proof (induction s arbitrary: a)
    case Nil
    then show ?case by simp
  next
    case (Cons c s)
    obtain w ws where sp: "split_by (\<lambda>c. c = x) s = w # ws" by (cases "split_by (\<lambda>c. c = x) s") simp_all
    show ?case
    proof (cases "c = x")
      case True
      then show ?thesis by (cases a) (auto simp: one)
    next
      case False
      then show ?thesis using Cons.IH [of "tl a"] sp by (cases a) auto
    qed
  qed
qed

text \<open>
  C38. A bearer token is read back as it was sent, and nothing else is: the extraction succeeds with
  a token exactly if the header is that token after the word Bearer and one blank.
\<close>

theorem bearer_iff:
  "ExtractBearerToken req = Ok token \<longleftrightarrow>
     Header_Get req ''Authorization'' = ''Bearer'' @ CHR '' '' # token \<and> CHR '' '' \<notin> set token"
proof (cases "split_char (Header_Get req ''Authorization'') CHR '' '' = [''Bearer'', token]")
  case True
  then have "Header_Get req ''Authorization'' = ''Bearer'' @ CHR '' '' # token \<and> CHR '' '' \<notin> set token"
    unfolding split_two by blast
  moreover from this have "Header_Get req ''Authorization'' \<noteq> []" by simp
  with True have "ExtractBearerToken req = Ok token" by (simp add: ExtractBearerToken_def)
  ultimately show ?thesis by blast
next
  case False
  then have "ExtractBearerToken req \<noteq> Ok token"
    by (auto simp: ExtractBearerToken_def Let_def split: list.splits)
  moreover have "\<not> (Header_Get req ''Authorization'' = ''Bearer'' @ CHR '' '' # token \<and> CHR '' '' \<notin> set token)"
    using False by (auto simp: split_two)
  ultimately show ?thesis by blast
qed

end
