(* ===== verification/Limiter_Port.thy ===== *)
theory Limiter_Port
  imports Go_Strings
begin

text \<open>
  tenantkit/ports/limiter.go: the port \<^verbatim>\<open>Limiter\<close>. The laws its three in-memory implementations
  share are a locale; what a caller may conclude from them is proved in it once.
\<close>

section \<open>Clock readings\<close>

text \<open>
  The readings of \<^verbatim>\<open>time.Now()\<close> one call may take, in the order it takes them: in \<^verbatim>\<open>time.Since\<close>,
  in \<^verbatim>\<open>cleanup\<close>, for the time of the last cleanup, for a new entry, and for the request.
\<close>

record clock =
  c_since :: int
  c_cleanup :: int
  c_mark :: int
  c_new :: int
  c_now :: int

text \<open>Go's monotonic clock never runs backwards; \<open>t\<close> is the last reading taken before.\<close>

definition clock_ok :: "int \<Rightarrow> clock \<Rightarrow> bool" where
  "clock_ok t c \<longleftrightarrow>
     t \<le> c_since c \<and> c_since c \<le> c_cleanup c \<and> c_cleanup c \<le> c_mark c \<and>
     c_mark c \<le> c_new c \<and> c_new c \<le> c_now c"

lemma clock_ok_now: "clock_ok t c \<Longrightarrow> t \<le> c_now c"
  by (simp add: clock_ok_def)

text \<open>A call that reads the same instant throughout.\<close>

definition tick :: "int \<Rightarrow> clock" where
  "tick t = \<lparr>c_since = t, c_cleanup = t, c_mark = t, c_new = t, c_now = t\<rparr>"

lemma clock_ok_tick [simp]: "clock_ok t (tick t') \<longleftrightarrow> t \<le> t'"
  by (auto simp: clock_ok_def tick_def)

lemma c_now_tick [simp]: "c_now (tick t) = t"
  by (simp add: tick_def)

section \<open>Requests\<close>

text \<open>A request: its clock readings, its key and the amount asked for.\<close>

type_synonym limit_request = "clock \<times> string \<times> int"

fun requests_ok :: "int \<Rightarrow> limit_request list \<Rightarrow> bool" where
  "requests_ok t [] = True"
| "requests_ok t ((c, k, n) # rs) = (clock_ok t c \<and> requests_ok (c_now c) rs)"

fun last_now :: "int \<Rightarrow> limit_request list \<Rightarrow> int" where
  "last_now t [] = t"
| "last_now t ((c, k, n) # rs) = last_now (c_now c) rs"

lemma last_now_mono: "requests_ok t rs \<Longrightarrow> t \<le> last_now t rs"
  by (induction t rs rule: requests_ok.induct) (auto dest: clock_ok_now)

text \<open>The amount a list of verdicts grants to one key.\<close>

fun granted :: "string \<Rightarrow> limit_request list \<Rightarrow> bool list \<Rightarrow> int" where
  "granted k ((c, k', n) # rs) (b # bs) = (if b \<and> k' = k \<and> 0 < n then n else 0) + granted k rs bs"
| "granted k _ _ = 0"

lemma granted_Nil [simp]: "granted k [] bs = 0"
  by simp

text \<open>The instants at which amounts are granted to a key, one entry per unit.\<close>

fun grant_times :: "string \<Rightarrow> limit_request list \<Rightarrow> bool list \<Rightarrow> int list" where
  "grant_times k ((c, k', n) # rs) (b # bs) =
     (if b \<and> k' = k \<and> 0 < n then replicate (nat n) (c_now c) else []) @ grant_times k rs bs"
| "grant_times k _ _ = []"

text \<open>The number of entries in the interval from \<open>x\<close>, excluded, to \<open>y\<close>, included.\<close>

definition in_span :: "int \<Rightarrow> int \<Rightarrow> int list \<Rightarrow> int" where
  "in_span x y ts = int (length (filter (\<lambda>t. x < t \<and> t \<le> y) ts))"

text \<open>A run of requests over any limiter: the last state and the verdicts.\<close>

fun run_requests :: "('s \<Rightarrow> clock \<Rightarrow> string \<Rightarrow> int \<Rightarrow> 's \<times> bool) \<Rightarrow> 's \<Rightarrow> limit_request list \<Rightarrow> 's \<times> bool list" where
  "run_requests allowN s [] = (s, [])"
| "run_requests allowN s ((c, k, n) # rs) =
     (let (s', b) = allowN s c k n;
          (s'', bs) = run_requests allowN s' rs
      in (s'', b # bs))"

lemma run_requests_Cons:
  "run_requests f s ((c, k, n) # rs) =
     (fst (run_requests f (fst (f s c k n)) rs),
      snd (f s c k n) # snd (run_requests f (fst (f s c k n)) rs))"
  by (simp add: split_beta)

declare run_requests.simps(2) [simp del]
declare run_requests_Cons [simp]

lemma last_now_instant:
  "\<forall>(c, k, n) \<in> set rs. c_now c = u \<Longrightarrow> t \<le> u \<Longrightarrow> last_now t rs \<le> u"
  by (induction t rs rule: requests_ok.induct) auto

section \<open>The port\<close>

text \<open>
  \<open>cap\<close> is the limit of a state, \<open>inv s t\<close> says that \<open>s\<close> is a state a limiter can be in at
  time \<open>t\<close>, \<open>fits s n\<close> that the amount \<open>n\<close> does not overflow the counters.
\<close>

locale ports_limiter =
  fixes allowN :: "'s \<Rightarrow> clock \<Rightarrow> string \<Rightarrow> int \<Rightarrow> 's \<times> bool"
    and remaining :: "'s \<Rightarrow> int \<Rightarrow> string \<Rightarrow> int"
    and reset :: "'s \<Rightarrow> string \<Rightarrow> 's"
    and cap :: "'s \<Rightarrow> int"
    and inv :: "'s \<Rightarrow> int \<Rightarrow> bool"
    and fits :: "'s \<Rightarrow> int \<Rightarrow> bool"
  assumes free: "n \<le> 0 \<Longrightarrow> allowN s c k n = (s, True)"
    and inv_allowN: "inv s t \<Longrightarrow> clock_ok t c \<Longrightarrow> fits s n \<Longrightarrow> inv (fst (allowN s c k n)) (c_now c)"
    and inv_reset: "inv s t \<Longrightarrow> inv (reset s k) t"
    and inv_later: "inv s t \<Longrightarrow> t \<le> t' \<Longrightarrow> inv s t'"
    and fits_allowN: "fits (fst (allowN s c k n)) m = fits s m"
    and cap_allowN: "cap (fst (allowN s c k n)) = cap s"
    and cap_reset: "cap (reset s k) = cap s"
    and remaining_bounds: "inv s t \<Longrightarrow> 0 \<le> remaining s t k \<and> remaining s t k \<le> cap s"
    and remaining_later: "inv s t \<Longrightarrow> t \<le> t' \<Longrightarrow> remaining s t k \<le> remaining s t' k"
    and decides: "inv s t \<Longrightarrow> clock_ok t c \<Longrightarrow> fits s n \<Longrightarrow> 0 < n \<Longrightarrow>
      snd (allowN s c k n) = (n \<le> remaining s (c_now c) k)"
    and consumes: "inv s t \<Longrightarrow> clock_ok t c \<Longrightarrow> fits s n \<Longrightarrow> 0 < n \<Longrightarrow>
      remaining (fst (allowN s c k n)) (c_now c) k =
        remaining s (c_now c) k - (if snd (allowN s c k n) then n else 0)"
    and isolates: "inv s t \<Longrightarrow> clock_ok t c \<Longrightarrow> fits s n \<Longrightarrow> k' \<noteq> k \<Longrightarrow> c_now c \<le> t' \<Longrightarrow>
      remaining (fst (allowN s c k n)) t' k' = remaining s t' k'"
    and reset_full: "inv s t \<Longrightarrow> remaining (reset s k) t k = cap s"
    and reset_other: "inv s t \<Longrightarrow> k' \<noteq> k \<Longrightarrow> remaining (reset s k) t k' = remaining s t k'"
begin

lemma run_inv:
  assumes "inv s t" "requests_ok t rs" "\<forall>(c, k, n) \<in> set rs. fits s n"
  shows "inv (fst (run_requests allowN s rs)) (last_now t rs)"
  using assms
proof (induction t rs arbitrary: s rule: requests_ok.induct)
  case (1 t)
  then show ?case by simp
next
  case (2 t c k n rs)
  then show ?case
    using "2.IH" [of "fst (allowN s c k n)"] inv_allowN [of s t c n k] by (simp add: split_beta fits_allowN)
qed

lemma run_cap: "cap (fst (run_requests allowN s rs)) = cap s"
  by (induction rs arbitrary: s) (auto simp: cap_allowN)

text \<open>Requests with other keys change nothing for a key, at any later time.\<close>

lemma run_isolates:
  assumes "inv s t" "requests_ok t rs" "\<forall>(c, k', n) \<in> set rs. fits s n \<and> k' \<noteq> k"
    "last_now t rs \<le> u"
  shows "remaining (fst (run_requests allowN s rs)) u k = remaining s u k"
  using assms
proof (induction t rs arbitrary: s rule: requests_ok.induct)
  case (1 t)
  then show ?case by simp
next
  case (2 t c k' n rs)
  let ?s = "fst (allowN s c k' n)"
  have "c_now c \<le> u" using "2.prems"(2,4) last_now_mono [of "c_now c" rs] by simp
  then have "remaining ?s u k = remaining s u k"
    using isolates [of s t c n k k' u] "2.prems" by auto
  moreover have "remaining (fst (run_requests allowN ?s rs)) u k = remaining ?s u k"
    using "2.IH" [of ?s] "2.prems" inv_allowN by (auto simp: fits_allowN)
  ultimately show ?case by simp
qed

lemma remaining_step:
  assumes "inv s t" "clock_ok t c" "fits s n"
  shows "remaining (fst (allowN s c k' n)) (c_now c) k =
    remaining s (c_now c) k - (if snd (allowN s c k' n) \<and> k' = k \<and> 0 < n then n else 0)"
proof (cases "0 < n")
  case False
  then show ?thesis using free [of n s c k'] by simp
next
  case True
  then show ?thesis
    using isolates [OF assms, of k k' "c_now c"] consumes [OF assms True, of k]
    by (cases "k' = k") auto
qed

text \<open>
  All the requests made at one instant, whatever their keys: what is granted to a key is exactly
  what its remaining amount goes down by.
\<close>

lemma run_instant:
  assumes "inv s t" "requests_ok t rs" "\<forall>(c, k', n) \<in> set rs. fits s n" "t \<le> u"
    "\<forall>(c, k', n) \<in> set rs. c_now c = u"
  shows "granted k rs (snd (run_requests allowN s rs)) =
    remaining s u k - remaining (fst (run_requests allowN s rs)) u k"
  using assms
proof (induction t rs arbitrary: s rule: requests_ok.induct)
  case (1 t)
  then show ?case by simp
next
  case (2 t c k' n rs)
  let ?s = "fst (allowN s c k' n)"
  have "granted k rs (snd (run_requests allowN ?s rs)) =
      remaining ?s u k - remaining (fst (run_requests allowN ?s rs)) u k"
    using "2.IH" [of ?s] "2.prems" inv_allowN by (auto simp: fits_allowN)
  then show ?case
    using remaining_step [of s t c n k' k] "2.prems" by auto
qed

lemma run_instant_bound:
  assumes "inv s t" "requests_ok t rs" "\<forall>(c, k', n) \<in> set rs. fits s n" "t \<le> u"
    "\<forall>(c, k', n) \<in> set rs. c_now c = u"
  shows "granted k rs (snd (run_requests allowN s rs)) \<le> remaining s u k"
proof -
  have "inv (fst (run_requests allowN s rs)) u"
    using run_inv [OF assms(1-3)] last_now_instant [OF assms(5,4)] by (rule inv_later)
  then have "0 \<le> remaining (fst (run_requests allowN s rs)) u k"
    using remaining_bounds by blast
  with run_instant [OF assms] show ?thesis by simp
qed

end

end
