(* ===== verification/Fixed_Window.thy ===== *)
theory Fixed_Window
  imports Limiter_Port
begin

text \<open>
  adapters/limiter-memory/fixed_window.go. The map of windows is an association list with
  distinct keys. The mutex makes every method one atomic step, which is what a definition is
  here. The warning \<^verbatim>\<open>NewFixedWindow\<close> logs in production is left out.
\<close>

section \<open>State and operations\<close>

record window_data =
  wd_count :: int
  wd_windowEnd :: int
  wd_lastAccess :: int

record fixed_window =
  fw_limit :: int
  fw_windowSize :: int
  fw_windows :: "(string \<times> window_data) list"
  fw_lastCleanupTime :: int

definition NewFixedWindow :: "int \<Rightarrow> int \<Rightarrow> int \<Rightarrow> fixed_window" where
  "NewFixedWindow limit windowSize now =
     (let limit = (if limit < 1 then 1 else limit);
          windowSize = (if windowSize < second then second else windowSize)
      in \<lparr>fw_limit = limit, fw_windowSize = windowSize, fw_windows = [],
          fw_lastCleanupTime = now\<rparr>)"

definition fw_cleanup :: "fixed_window \<Rightarrow> int \<Rightarrow> fixed_window" where
  "fw_cleanup fw now =
     fw\<lparr>fw_windows := filter (\<lambda>(k, wd). \<not> wd_lastAccess wd < now - 24 * hour) (fw_windows fw)\<rparr>"

text \<open>The periodic cleanup at the start of \<^verbatim>\<open>AllowN\<close>.\<close>

definition fw_periodic :: "fixed_window \<Rightarrow> clock \<Rightarrow> fixed_window" where
  "fw_periodic fw c =
     (if hour < c_since c - fw_lastCleanupTime fw
      then (fw_cleanup fw (c_cleanup c))\<lparr>fw_lastCleanupTime := c_mark c\<rparr> else fw)"

text \<open>The window of a key at \<open>now\<close>: created, or started anew after its end; it is being used.\<close>

definition fw_window :: "fixed_window \<Rightarrow> int \<Rightarrow> string \<Rightarrow> window_data" where
  "fw_window fw now key =
     (let wd = (case map_of (fw_windows fw) key of
                  Some wd \<Rightarrow> wd
                | None \<Rightarrow> \<lparr>wd_count = 0, wd_windowEnd = now + fw_windowSize fw, wd_lastAccess = now\<rparr>);
          wd = (if wd_windowEnd wd < now
                then wd\<lparr>wd_count := 0, wd_windowEnd := now + fw_windowSize fw\<rparr> else wd)
      in wd\<lparr>wd_lastAccess := now\<rparr>)"

definition fw_put :: "fixed_window \<Rightarrow> string \<Rightarrow> window_data \<Rightarrow> fixed_window" where
  "fw_put fw key wd = fw\<lparr>fw_windows := AList.update key wd (fw_windows fw)\<rparr>"

definition fw_AllowN :: "fixed_window \<Rightarrow> clock \<Rightarrow> string \<Rightarrow> int \<Rightarrow> fixed_window \<times> bool" where
  "fw_AllowN fw c key n =
     (if n \<le> 0 then (fw, True)
      else let fw = fw_periodic fw c;
               wd = fw_window fw (c_now c) key
           in if fw_limit fw \<le> wd_count wd then (fw_put fw key wd, False)
              else if fw_limit fw < add64 (wd_count wd) n then (fw_put fw key wd, False)
              else (fw_put fw key (wd\<lparr>wd_count := add64 (wd_count wd) n\<rparr>), True))"

definition fw_Allow :: "fixed_window \<Rightarrow> clock \<Rightarrow> string \<Rightarrow> fixed_window \<times> bool" where
  "fw_Allow fw c key = fw_AllowN fw c key 1"

definition fw_Remaining :: "fixed_window \<Rightarrow> int \<Rightarrow> string \<Rightarrow> int" where
  "fw_Remaining fw now key =
     (case map_of (fw_windows fw) key of
        None \<Rightarrow> fw_limit fw
      | Some wd \<Rightarrow> if wd_windowEnd wd < now then fw_limit fw else fw_limit fw - wd_count wd)"

definition fw_Reset :: "fixed_window \<Rightarrow> string \<Rightarrow> fixed_window" where
  "fw_Reset fw key = fw\<lparr>fw_windows := AList.delete key (fw_windows fw)\<rparr>"

definition fw_Health :: "fixed_window \<Rightarrow> unit res" where
  "fw_Health fw = Ok ()"

text \<open>\<^verbatim>\<open>limit\<close>, \<^verbatim>\<open>windowSize\<close> and \<^verbatim>\<open>activeWindows\<close>.\<close>

definition fw_Stats :: "fixed_window \<Rightarrow> int \<times> int \<times> nat" where
  "fw_Stats fw = (fw_limit fw, fw_windowSize fw, length (fw_windows fw))"

section \<open>The invariant\<close>

definition fw_wd_ok :: "int \<Rightarrow> int \<Rightarrow> int \<Rightarrow> window_data \<Rightarrow> bool" where
  "fw_wd_ok limit sz t wd \<longleftrightarrow>
     0 \<le> wd_count wd \<and> wd_count wd \<le> limit \<and>
     wd_windowEnd wd \<le> wd_lastAccess wd + sz \<and> wd_lastAccess wd \<le> t"

definition fw_ok :: "fixed_window \<Rightarrow> int \<Rightarrow> bool" where
  "fw_ok fw t \<longleftrightarrow>
     1 \<le> fw_limit fw \<and> fw_limit fw \<le> max_i64 \<and> 0 < fw_windowSize fw \<and>
     fw_windowSize fw \<le> 24 * hour \<and> distinct (map fst (fw_windows fw)) \<and>
     (\<forall>(k, wd) \<in> set (fw_windows fw). fw_wd_ok (fw_limit fw) (fw_windowSize fw) t wd)"

definition fw_fits :: "fixed_window \<Rightarrow> int \<Rightarrow> bool" where
  "fw_fits fw n \<longleftrightarrow> n \<le> max_i64 - fw_limit fw"

lemma fw_ok_lookup:
  "fw_ok fw t \<Longrightarrow> map_of (fw_windows fw) k = Some wd \<Longrightarrow>
     fw_wd_ok (fw_limit fw) (fw_windowSize fw) t wd"
  by (auto simp: fw_ok_def dest!: map_of_SomeD)

lemma fw_frame [simp]:
  "fw_limit (fw_put fw k wd) = fw_limit fw" "fw_windowSize (fw_put fw k wd) = fw_windowSize fw"
  "fw_limit (fw_periodic fw c) = fw_limit fw" "fw_windowSize (fw_periodic fw c) = fw_windowSize fw"
  "fw_limit (fw_Reset fw k) = fw_limit fw" "fw_windowSize (fw_Reset fw k) = fw_windowSize fw"
  by (simp_all add: fw_put_def fw_periodic_def fw_cleanup_def fw_Reset_def)

lemma fw_limit_AllowN [simp]: "fw_limit (fst (fw_AllowN fw c k n)) = fw_limit fw"
  by (simp add: fw_AllowN_def Let_def)

lemma fw_ok_New:
  "limit \<le> max_i64 \<Longrightarrow> sz \<le> 24 * hour \<Longrightarrow> fw_ok (NewFixedWindow limit sz now) t"
  by (auto simp: fw_ok_def NewFixedWindow_def go_time max_i64_def Let_def)

lemma fw_ok_later: "fw_ok fw t \<Longrightarrow> t \<le> t' \<Longrightarrow> fw_ok fw t'"
  by (fastforce simp: fw_ok_def fw_wd_ok_def)

lemma fw_ok_filter:
  assumes "fw_ok fw t"
  shows "fw_ok (fw\<lparr>fw_windows := filter P (fw_windows fw), fw_lastCleanupTime := m\<rparr>) t"
    "fw_ok (fw\<lparr>fw_windows := filter P (fw_windows fw)\<rparr>) t"
  using assms by (auto simp: fw_ok_def intro: distinct_map_filter)

lemma fw_ok_periodic: "fw_ok fw t \<Longrightarrow> fw_ok (fw_periodic fw c) t"
  by (simp add: fw_periodic_def fw_cleanup_def fw_ok_filter)

lemma fw_ok_Reset: "fw_ok fw t \<Longrightarrow> fw_ok (fw_Reset fw k) t"
  by (simp add: fw_Reset_def AList.delete_eq fw_ok_filter)

lemma fw_ok_put:
  "fw_ok fw t \<Longrightarrow> fw_wd_ok (fw_limit fw) (fw_windowSize fw) t wd \<Longrightarrow> fw_ok (fw_put fw k wd) t"
  using set_AList_update_subset [of k wd "fw_windows fw"]
  by (fastforce simp: fw_ok_def fw_put_def distinct_update)

lemma fw_window_ok:
  assumes "fw_ok fw t" "t \<le> now"
  shows "fw_wd_ok (fw_limit fw) (fw_windowSize fw) now (fw_window fw now k)"
proof (cases "map_of (fw_windows fw) k")
  case None
  then show ?thesis using assms by (auto simp: fw_window_def fw_wd_ok_def fw_ok_def Let_def)
next
  case (Some wd)
  show ?thesis
    using fw_ok_lookup [OF assms(1) Some] assms Some
    by (auto simp: fw_window_def fw_wd_ok_def fw_ok_def Let_def)
qed

text \<open>What is left is the limit less the count of the current window.\<close>

lemma fw_Remaining_window: "fw_Remaining fw now k = fw_limit fw - wd_count (fw_window fw now k)"
  by (auto simp: fw_Remaining_def fw_window_def Let_def split: option.splits)

text \<open>The cleanup drops only windows that are over.\<close>

lemma fw_Remaining_periodic:
  assumes "fw_ok fw t" "clock_ok t' c" "c_now c \<le> u"
  shows "fw_Remaining (fw_periodic fw c) u k = fw_Remaining fw u k"
proof -
  have le: "c_cleanup c \<le> u" using assms(2,3) by (simp add: clock_ok_def)
  have "wd_windowEnd wd < u"
    if "map_of (fw_windows fw) k = Some wd" "wd_lastAccess wd < c_cleanup c - 24 * hour" for wd
    using fw_ok_lookup [OF assms(1) that(1)] that(2) le assms(1)
    by (simp add: fw_wd_ok_def fw_ok_def)
  then show ?thesis
    using assms(1)
    by (auto simp: fw_Remaining_def fw_periodic_def fw_cleanup_def fw_ok_def map_of_filter_keys
        split: option.splits)
qed

lemma fw_Remaining_put_other: "k' \<noteq> k \<Longrightarrow> fw_Remaining (fw_put fw k wd) u k' = fw_Remaining fw u k'"
  by (simp add: fw_Remaining_def fw_put_def map_of_AList_update split: option.split)

lemma fw_Remaining_put_window:
  "fw_ok fw t \<Longrightarrow> t \<le> now \<Longrightarrow>
     fw_Remaining (fw_put fw k ((fw_window fw now k)\<lparr>wd_count := m\<rparr>)) now k = fw_limit fw - m"
  by (auto simp: fw_Remaining_def fw_put_def map_of_AList_update fw_window_def fw_ok_def Let_def
      split: option.splits)

text \<open>One request of a positive amount, in one equation.\<close>

lemma fw_AllowN_eq:
  assumes "fw_ok fw t" "clock_ok t c" "fw_fits fw n" "0 < n"
  shows "fw_AllowN fw c k n =
    (let fw' = fw_periodic fw c; wd = fw_window fw' (c_now c) k;
         b = (n \<le> fw_Remaining fw (c_now c) k)
     in (fw_put fw' k (wd\<lparr>wd_count := wd_count wd + (if b then n else 0)\<rparr>), b))"
proof -
  let ?fw = "fw_periodic fw c"
  let ?wd = "fw_window ?fw (c_now c) k"
  have rem: "fw_Remaining fw (c_now c) k = fw_limit fw - wd_count ?wd"
    using fw_Remaining_periodic [OF assms(1,2) order_refl, of k] by (simp add: fw_Remaining_window)
  have "fw_wd_ok (fw_limit fw) (fw_windowSize fw) (c_now c) ?wd"
    using fw_window_ok [OF fw_ok_periodic [OF assms(1)] clock_ok_now [OF assms(2)], of c k] by simp
  then have "in_i64 (wd_count ?wd + n)"
    using assms(3,4) by (simp add: fw_wd_ok_def fw_fits_def i64_defs)
  then show ?thesis
    using assms(4) by (auto simp: fw_AllowN_def rem Let_def)
qed

lemma fw_ok_AllowN:
  assumes "fw_ok fw t" "clock_ok t c" "fw_fits fw n"
  shows "fw_ok (fst (fw_AllowN fw c k n)) (c_now c)"
proof (cases "0 < n")
  case False
  then show ?thesis
    using fw_ok_later [OF assms(1) clock_ok_now [OF assms(2)]] by (simp add: fw_AllowN_def)
next
  case True
  let ?fw = "fw_periodic fw c"
  have ok: "fw_ok ?fw (c_now c)"
    using fw_ok_later [OF fw_ok_periodic [OF assms(1)] clock_ok_now [OF assms(2)]] .
  have rem: "fw_Remaining fw (c_now c) k = fw_limit fw - wd_count (fw_window ?fw (c_now c) k)"
    using fw_Remaining_periodic [OF assms(1,2) order_refl, of k] by (simp add: fw_Remaining_window)
  show ?thesis
    using fw_window_ok [OF ok order_refl, of k] True
    by (auto simp: fw_AllowN_eq [OF assms True] Let_def rem fw_wd_ok_def intro!: fw_ok_put [OF ok])
qed

section \<open>The port\<close>

interpretation fw: ports_limiter fw_AllowN fw_Remaining fw_Reset fw_limit fw_ok fw_fits
proof unfold_locales
  fix fw :: fixed_window and c :: clock and k k' :: string and n m t t' u :: int
  show "n \<le> 0 \<Longrightarrow> fw_AllowN fw c k n = (fw, True)" by (simp add: fw_AllowN_def)
  show "fw_ok fw t \<Longrightarrow> clock_ok t c \<Longrightarrow> fw_fits fw n \<Longrightarrow> fw_ok (fst (fw_AllowN fw c k n)) (c_now c)"
    by (rule fw_ok_AllowN)
  show "fw_ok fw t \<Longrightarrow> fw_ok (fw_Reset fw k) t" by (rule fw_ok_Reset)
  show "fw_ok fw t \<Longrightarrow> t \<le> t' \<Longrightarrow> fw_ok fw t'" by (rule fw_ok_later)
  show "fw_fits (fst (fw_AllowN fw c k n)) m = fw_fits fw m" by (simp add: fw_fits_def)
  show "fw_limit (fst (fw_AllowN fw c k n)) = fw_limit fw" "fw_limit (fw_Reset fw k) = fw_limit fw"
    by simp_all
  show "fw_ok fw t \<Longrightarrow> 0 \<le> fw_Remaining fw t k \<and> fw_Remaining fw t k \<le> fw_limit fw"
    using fw_window_ok [of fw t t k] by (simp add: fw_Remaining_window fw_wd_ok_def)
  show "fw_ok fw t \<Longrightarrow> t \<le> t' \<Longrightarrow> fw_Remaining fw t k \<le> fw_Remaining fw t' k"
    using fw_ok_lookup [of fw t k] by (auto simp: fw_Remaining_def fw_wd_ok_def split: option.splits)
  show "fw_ok fw t \<Longrightarrow> clock_ok t c \<Longrightarrow> fw_fits fw n \<Longrightarrow> 0 < n \<Longrightarrow>
      snd (fw_AllowN fw c k n) = (n \<le> fw_Remaining fw (c_now c) k)"
    by (simp add: fw_AllowN_eq Let_def)
  show "fw_ok fw t \<Longrightarrow> clock_ok t c \<Longrightarrow> fw_fits fw n \<Longrightarrow> 0 < n \<Longrightarrow>
      fw_Remaining (fst (fw_AllowN fw c k n)) (c_now c) k =
        fw_Remaining fw (c_now c) k - (if snd (fw_AllowN fw c k n) then n else 0)"
    using fw_Remaining_periodic [of fw t t c "c_now c" k]
      fw_Remaining_put_window [of "fw_periodic fw c" t "c_now c" k]
      fw_ok_periodic [of fw t c] clock_ok_now [of t c]
    by (simp add: fw_AllowN_eq Let_def fw_Remaining_window)
  show "fw_ok fw t \<Longrightarrow> clock_ok t c \<Longrightarrow> fw_fits fw n \<Longrightarrow> k' \<noteq> k \<Longrightarrow> c_now c \<le> u \<Longrightarrow>
      fw_Remaining (fst (fw_AllowN fw c k n)) u k' = fw_Remaining fw u k'"
    by (simp add: fw_AllowN_def Let_def fw_Remaining_put_other fw_Remaining_periodic)
  show "fw_ok fw t \<Longrightarrow> fw_Remaining (fw_Reset fw k) t k = fw_limit fw"
    by (simp add: fw_Remaining_def fw_Reset_def map_of_AList_delete)
  show "fw_ok fw t \<Longrightarrow> k' \<noteq> k \<Longrightarrow> fw_Remaining (fw_Reset fw k) t k' = fw_Remaining fw t k'"
    by (simp add: fw_Remaining_def fw_Reset_def map_of_AList_delete split: option.split)
qed

end
