(* ===== verification/Sliding_Window.thy ===== *)
theory Sliding_Window
  imports Limiter_Port
begin

text \<open>
  adapters/limiter-memory/sliding_window.go, in the way of \<^verbatim>\<open>FixedWindow\<close>: the map of request
  histories is an association list, a method is one atomic step, the warning of the constructor
  is left out. The last section states the guarantee the algorithm is named after.
\<close>

section \<open>State and operations\<close>

record sliding_request =
  sr_timestamps :: "int list"
  sr_lastRead :: int

record sliding_window =
  sw_limit :: int
  sw_windowSize :: int
  sw_requests :: "(string \<times> sliding_request) list"
  sw_lastCleanupTime :: int

definition NewSlidingWindow :: "int \<Rightarrow> int \<Rightarrow> int \<Rightarrow> sliding_window" where
  "NewSlidingWindow limit windowSize now =
     (let limit = (if limit < 1 then 1 else limit);
          windowSize = (if windowSize < second then second else windowSize)
      in \<lparr>sw_limit = limit, sw_windowSize = windowSize, sw_requests = [],
          sw_lastCleanupTime = now\<rparr>)"

definition sw_cleanup :: "sliding_window \<Rightarrow> int \<Rightarrow> sliding_window" where
  "sw_cleanup sw now =
     sw\<lparr>sw_requests := filter (\<lambda>(k, req). \<not> sr_lastRead req < now - 24 * hour) (sw_requests sw)\<rparr>"

definition sw_periodic :: "sliding_window \<Rightarrow> clock \<Rightarrow> sliding_window" where
  "sw_periodic sw c =
     (if hour < c_since c - sw_lastCleanupTime sw
      then (sw_cleanup sw (c_cleanup c))\<lparr>sw_lastCleanupTime := c_mark c\<rparr> else sw)"

text \<open>The history of a key at \<open>now\<close>: created if absent, timestamps outside the window removed.\<close>

definition sw_request :: "sliding_window \<Rightarrow> int \<Rightarrow> string \<Rightarrow> sliding_request" where
  "sw_request sw now key =
     (let req = (case map_of (sw_requests sw) key of
                   Some req \<Rightarrow> req
                 | None \<Rightarrow> \<lparr>sr_timestamps = [], sr_lastRead = now\<rparr>);
          cutoff = now - sw_windowSize sw
      in req\<lparr>sr_timestamps := filter (\<lambda>ts. cutoff < ts) (sr_timestamps req), sr_lastRead := now\<rparr>)"

definition sw_put :: "sliding_window \<Rightarrow> string \<Rightarrow> sliding_request \<Rightarrow> sliding_window" where
  "sw_put sw key req = sw\<lparr>sw_requests := AList.update key req (sw_requests sw)\<rparr>"

definition sw_AllowN :: "sliding_window \<Rightarrow> clock \<Rightarrow> string \<Rightarrow> int \<Rightarrow> sliding_window \<times> bool" where
  "sw_AllowN sw c key n =
     (if n \<le> 0 then (sw, True)
      else let sw = sw_periodic sw c;
               req = sw_request sw (c_now c) key
           in if sw_limit sw \<le> int (length (sr_timestamps req)) then (sw_put sw key req, False)
              else if sw_limit sw < add64 (int (length (sr_timestamps req))) n
              then (sw_put sw key req, False)
              else (sw_put sw key (req\<lparr>sr_timestamps :=
                      sr_timestamps req @ replicate (nat n) (c_now c)\<rparr>), True))"

definition sw_Allow :: "sliding_window \<Rightarrow> clock \<Rightarrow> string \<Rightarrow> sliding_window \<times> bool" where
  "sw_Allow sw c key = sw_AllowN sw c key 1"

definition sw_Remaining :: "sliding_window \<Rightarrow> int \<Rightarrow> string \<Rightarrow> int" where
  "sw_Remaining sw now key =
     (case map_of (sw_requests sw) key of
        None \<Rightarrow> sw_limit sw
      | Some req \<Rightarrow>
          let cutoff = now - sw_windowSize sw
          in sw_limit sw - int (length (filter (\<lambda>ts. cutoff < ts) (sr_timestamps req))))"

definition sw_Reset :: "sliding_window \<Rightarrow> string \<Rightarrow> sliding_window" where
  "sw_Reset sw key = sw\<lparr>sw_requests := AList.delete key (sw_requests sw)\<rparr>"

definition sw_Health :: "sliding_window \<Rightarrow> unit res" where
  "sw_Health sw = Ok ()"

text \<open>\<^verbatim>\<open>limit\<close>, \<^verbatim>\<open>windowSize\<close>, \<^verbatim>\<open>activeWindows\<close> and \<^verbatim>\<open>totalTimestamps\<close>.\<close>

definition sw_Stats :: "sliding_window \<Rightarrow> int \<times> int \<times> nat \<times> nat" where
  "sw_Stats sw =
     (sw_limit sw, sw_windowSize sw, length (sw_requests sw),
      sum_list (map (\<lambda>(k, req). length (sr_timestamps req)) (sw_requests sw)))"

section \<open>The invariant\<close>

definition sr_ok :: "int \<Rightarrow> int \<Rightarrow> sliding_request \<Rightarrow> bool" where
  "sr_ok limit t req \<longleftrightarrow>
     int (length (sr_timestamps req)) \<le> limit \<and> sr_lastRead req \<le> t \<and>
     (\<forall>ts \<in> set (sr_timestamps req). ts \<le> sr_lastRead req)"

definition sw_ok :: "sliding_window \<Rightarrow> int \<Rightarrow> bool" where
  "sw_ok sw t \<longleftrightarrow>
     1 \<le> sw_limit sw \<and> sw_limit sw \<le> max_i64 \<and> 0 < sw_windowSize sw \<and>
     sw_windowSize sw \<le> 24 * hour \<and> distinct (map fst (sw_requests sw)) \<and>
     (\<forall>(k, req) \<in> set (sw_requests sw). sr_ok (sw_limit sw) t req)"

definition sw_fits :: "sliding_window \<Rightarrow> int \<Rightarrow> bool" where
  "sw_fits sw n \<longleftrightarrow> n \<le> max_i64 - sw_limit sw"

text \<open>The timestamps kept for a key, and how many of a list lie after a cutoff.\<close>

definition sw_times :: "sliding_window \<Rightarrow> string \<Rightarrow> int list" where
  "sw_times sw k = (case map_of (sw_requests sw) k of Some req \<Rightarrow> sr_timestamps req | None \<Rightarrow> [])"

definition after :: "int \<Rightarrow> int list \<Rightarrow> int" where
  "after x ts = int (length (filter (\<lambda>t. x < t) ts))"

lemma after_append [simp]: "after x (ts @ us) = after x ts + after x us"
  by (simp add: after_def)

lemma after_replicate: "after x (replicate m a) = (if x < a then int m else 0)"
  by (simp add: after_def)

lemma after_nonneg [simp]: "0 \<le> after x ts"
  by (simp add: after_def)

lemma after_le_length: "after x ts \<le> int (length ts)"
  by (simp add: after_def)

lemma after_mono: "x \<le> y \<Longrightarrow> after y ts \<le> after x ts"
  by (induction ts) (auto simp: after_def)

lemma after_filter: "x \<le> y \<Longrightarrow> after y (filter (\<lambda>t. x < t) ts) = after y ts"
  by (induction ts) (auto simp: after_def)

lemma after_zero: "\<forall>t \<in> set ts. t \<le> x \<Longrightarrow> after x ts = 0"
  by (induction ts) (auto simp: after_def)

lemma sw_ok_lookup:
  "sw_ok sw t \<Longrightarrow> map_of (sw_requests sw) k = Some req \<Longrightarrow> sr_ok (sw_limit sw) t req"
  by (auto simp: sw_ok_def dest!: map_of_SomeD)

lemma sw_frame [simp]:
  "sw_limit (sw_put sw k r) = sw_limit sw" "sw_windowSize (sw_put sw k r) = sw_windowSize sw"
  "sw_limit (sw_periodic sw c) = sw_limit sw" "sw_windowSize (sw_periodic sw c) = sw_windowSize sw"
  "sw_limit (sw_Reset sw k) = sw_limit sw" "sw_windowSize (sw_Reset sw k) = sw_windowSize sw"
  by (simp_all add: sw_put_def sw_periodic_def sw_cleanup_def sw_Reset_def)

lemma sw_frame_AllowN [simp]:
  "sw_limit (fst (sw_AllowN sw c k n)) = sw_limit sw"
  "sw_windowSize (fst (sw_AllowN sw c k n)) = sw_windowSize sw"
  by (simp_all add: sw_AllowN_def Let_def)

lemma sw_times_put: "sw_times (sw_put sw k r) k' = (if k' = k then sr_timestamps r else sw_times sw k')"
  by (simp add: sw_times_def sw_put_def map_of_AList_update)

lemma sw_times_Reset: "sw_times (sw_Reset sw k) k' = (if k' = k then [] else sw_times sw k')"
  by (simp add: sw_times_def sw_Reset_def map_of_AList_delete)

lemma sw_Remaining_times:
  "sw_Remaining sw now k = sw_limit sw - after (now - sw_windowSize sw) (sw_times sw k)"
  by (simp add: sw_Remaining_def sw_times_def after_def Let_def split: option.split)

lemma sw_request_times:
  "sr_timestamps (sw_request sw now k) = filter (\<lambda>ts. now - sw_windowSize sw < ts) (sw_times sw k)"
  "sr_lastRead (sw_request sw now k) = now"
  by (simp_all add: sw_request_def sw_times_def Let_def split: option.split)

lemma sw_times_ok:
  assumes "sw_ok sw t"
  shows "int (length (sw_times sw k)) \<le> sw_limit sw" "\<forall>ts \<in> set (sw_times sw k). ts \<le> t"
proof -
  have "int (length (sw_times sw k)) \<le> sw_limit sw \<and> (\<forall>ts \<in> set (sw_times sw k). ts \<le> t)"
  proof (cases "map_of (sw_requests sw) k")
    case None
    then show ?thesis using assms by (simp add: sw_times_def sw_ok_def)
  next
    case (Some req)
    show ?thesis
      using sw_ok_lookup [OF assms Some] Some by (fastforce simp: sw_times_def sr_ok_def)
  qed
  then show "int (length (sw_times sw k)) \<le> sw_limit sw" "\<forall>ts \<in> set (sw_times sw k). ts \<le> t"
    by simp_all
qed

lemma sw_request_length:
  assumes "sw_ok sw t"
  shows "int (length (sr_timestamps (sw_request sw now k))) \<le> sw_limit sw"
proof -
  have "length (sr_timestamps (sw_request sw now k)) \<le> length (sw_times sw k)"
    by (simp add: sw_request_times)
  then show ?thesis using sw_times_ok(1) [OF assms, of k] by linarith
qed

lemma sw_ok_New:
  "limit \<le> max_i64 \<Longrightarrow> sz \<le> 24 * hour \<Longrightarrow> sw_ok (NewSlidingWindow limit sz now) t"
  by (auto simp: sw_ok_def NewSlidingWindow_def go_time max_i64_def Let_def)

lemma sw_ok_later: "sw_ok sw t \<Longrightarrow> t \<le> t' \<Longrightarrow> sw_ok sw t'"
  by (fastforce simp: sw_ok_def sr_ok_def)

lemma sw_ok_filter:
  assumes "sw_ok sw t"
  shows "sw_ok (sw\<lparr>sw_requests := filter P (sw_requests sw), sw_lastCleanupTime := m\<rparr>) t"
    "sw_ok (sw\<lparr>sw_requests := filter P (sw_requests sw)\<rparr>) t"
  using assms by (auto simp: sw_ok_def intro: distinct_map_filter)

lemma sw_ok_periodic: "sw_ok sw t \<Longrightarrow> sw_ok (sw_periodic sw c) t"
  by (simp add: sw_periodic_def sw_cleanup_def sw_ok_filter)

lemma sw_ok_Reset: "sw_ok sw t \<Longrightarrow> sw_ok (sw_Reset sw k) t"
  by (simp add: sw_Reset_def AList.delete_eq sw_ok_filter)

lemma sw_ok_put: "sw_ok sw t \<Longrightarrow> sr_ok (sw_limit sw) t req \<Longrightarrow> sw_ok (sw_put sw k req) t"
  using set_AList_update_subset [of k req "sw_requests sw"]
  by (fastforce simp: sw_ok_def sw_put_def distinct_update)

text \<open>The cleanup drops only histories that are outside the window.\<close>

lemma after_periodic:
  assumes "sw_ok sw t" "clock_ok t' c" "c_now c - sw_windowSize sw \<le> x"
  shows "after x (sw_times (sw_periodic sw c) k) = after x (sw_times sw k)"
proof -
  have le: "c_cleanup c \<le> c_now c" using assms(2) by (simp add: clock_ok_def)
  have "after x (sr_timestamps req) = 0"
    if "map_of (sw_requests sw) k = Some req" "sr_lastRead req < c_cleanup c - 24 * hour" for req
    using sw_ok_lookup [OF assms(1) that(1)] that(2) le assms(1,3)
    by (intro after_zero) (fastforce simp: sr_ok_def sw_ok_def)
  moreover have "after x [] = 0" by (simp add: after_def)
  ultimately show ?thesis
    using assms(1)
    by (auto simp: sw_times_def sw_periodic_def sw_cleanup_def sw_ok_def map_of_filter_keys
        split: option.splits)
qed

text \<open>One request of a positive amount, in one equation.\<close>

lemma sw_AllowN_eq:
  assumes "sw_ok sw t" "clock_ok t c" "sw_fits sw n" "0 < n"
  shows "sw_AllowN sw c k n =
    (let sw' = sw_periodic sw c; req = sw_request sw' (c_now c) k;
         b = (n \<le> sw_Remaining sw (c_now c) k)
     in (sw_put sw' k (req\<lparr>sr_timestamps := sr_timestamps req @
           (if b then replicate (nat n) (c_now c) else [])\<rparr>), b))"
proof -
  let ?sw = "sw_periodic sw c"
  let ?l = "int (length (sr_timestamps (sw_request ?sw (c_now c) k)))"
  have rem: "sw_Remaining sw (c_now c) k = sw_limit sw - ?l"
    using after_periodic [OF assms(1,2) order_refl, of k]
    by (simp add: sw_Remaining_times sw_request_times after_def)
  have "?l \<le> sw_limit sw"
    using sw_request_length [OF sw_ok_periodic [OF assms(1)]] by simp
  then have "in_i64 (?l + n)"
    using assms(3,4) by (simp add: sw_fits_def i64_defs)
  then show ?thesis
    using assms(4) by (auto simp: sw_AllowN_def rem Let_def)
qed

lemma sw_ok_AllowN:
  assumes "sw_ok sw t" "clock_ok t c" "sw_fits sw n"
  shows "sw_ok (fst (sw_AllowN sw c k n)) (c_now c)"
proof (cases "0 < n")
  case False
  then show ?thesis
    using sw_ok_later [OF assms(1) clock_ok_now [OF assms(2)]] by (simp add: sw_AllowN_def)
next
  case True
  let ?sw = "sw_periodic sw c"
  have ok: "sw_ok ?sw (c_now c)"
    using sw_ok_later [OF sw_ok_periodic [OF assms(1)] clock_ok_now [OF assms(2)]] .
  have rem: "sw_Remaining sw (c_now c) k =
      sw_limit sw - int (length (sr_timestamps (sw_request ?sw (c_now c) k)))"
    using after_periodic [OF assms(1,2) order_refl, of k]
    by (simp add: sw_Remaining_times sw_request_times after_def)
  have len: "int (length (sr_timestamps (sw_request ?sw (c_now c) k))) \<le> sw_limit sw"
    using sw_request_length [OF ok] by simp
  have "\<forall>ts \<in> set (sr_timestamps (sw_request ?sw (c_now c) k)). ts \<le> c_now c"
    using sw_times_ok(2) [OF ok, of k] by (simp add: sw_request_times)
  then show ?thesis
    using len True
    by (auto simp: sw_AllowN_eq [OF assms True] Let_def rem sr_ok_def sw_request_times(2)
        intro!: sw_ok_put [OF ok])
qed

text \<open>What is kept after a request, seen from any cutoff at or after the window's start.\<close>

lemma after_AllowN:
  assumes "sw_ok sw t" "clock_ok t c" "sw_fits sw n" "c_now c - sw_windowSize sw \<le> x"
  shows "after x (sw_times (fst (sw_AllowN sw c k' n)) k) = after x (sw_times sw k)
    + (if k = k' \<and> 0 < n \<and> snd (sw_AllowN sw c k' n) \<and> x < c_now c then n else 0)"
  using after_periodic [OF assms(1,2,4), of k] assms(4)
  by (cases "0 < n")
    (auto simp: sw_AllowN_eq [OF assms(1-3)] sw_AllowN_def [of _ _ _ n] Let_def sw_times_put
      sw_request_times after_filter after_replicate)

section \<open>The port\<close>

interpretation sw: ports_limiter sw_AllowN sw_Remaining sw_Reset sw_limit sw_ok sw_fits
proof unfold_locales
  fix sw :: sliding_window and c :: clock and k k' :: string and n m t t' u :: int
  show "n \<le> 0 \<Longrightarrow> sw_AllowN sw c k n = (sw, True)" by (simp add: sw_AllowN_def)
  show "sw_ok sw t \<Longrightarrow> clock_ok t c \<Longrightarrow> sw_fits sw n \<Longrightarrow> sw_ok (fst (sw_AllowN sw c k n)) (c_now c)"
    by (rule sw_ok_AllowN)
  show "sw_ok sw t \<Longrightarrow> sw_ok (sw_Reset sw k) t" by (rule sw_ok_Reset)
  show "sw_ok sw t \<Longrightarrow> t \<le> t' \<Longrightarrow> sw_ok sw t'" by (rule sw_ok_later)
  show "sw_fits (fst (sw_AllowN sw c k n)) m = sw_fits sw m" by (simp add: sw_fits_def)
  show "sw_limit (fst (sw_AllowN sw c k n)) = sw_limit sw" "sw_limit (sw_Reset sw k) = sw_limit sw"
    by simp_all
  show "sw_ok sw t \<Longrightarrow> 0 \<le> sw_Remaining sw t k \<and> sw_Remaining sw t k \<le> sw_limit sw"
    using sw_times_ok(1) [of sw t k] after_le_length [of "t - sw_windowSize sw" "sw_times sw k"]
    by (simp add: sw_Remaining_times)
  show "sw_ok sw t \<Longrightarrow> t \<le> t' \<Longrightarrow> sw_Remaining sw t k \<le> sw_Remaining sw t' k"
    by (simp add: sw_Remaining_times after_mono)
  show "sw_ok sw t \<Longrightarrow> clock_ok t c \<Longrightarrow> sw_fits sw n \<Longrightarrow> 0 < n \<Longrightarrow>
      snd (sw_AllowN sw c k n) = (n \<le> sw_Remaining sw (c_now c) k)"
    by (simp add: sw_AllowN_eq Let_def)
  show "sw_ok sw t \<Longrightarrow> clock_ok t c \<Longrightarrow> sw_fits sw n \<Longrightarrow> 0 < n \<Longrightarrow>
      sw_Remaining (fst (sw_AllowN sw c k n)) (c_now c) k =
        sw_Remaining sw (c_now c) k - (if snd (sw_AllowN sw c k n) then n else 0)"
    using after_AllowN [of sw t c n "c_now c - sw_windowSize sw" k k]
    by (auto simp: sw_Remaining_times sw_ok_def)
  show "sw_ok sw t \<Longrightarrow> clock_ok t c \<Longrightarrow> sw_fits sw n \<Longrightarrow> k' \<noteq> k \<Longrightarrow> c_now c \<le> u \<Longrightarrow>
      sw_Remaining (fst (sw_AllowN sw c k n)) u k' = sw_Remaining sw u k'"
    by (simp add: sw_Remaining_times after_AllowN)
  show "sw_ok sw t \<Longrightarrow> sw_Remaining (sw_Reset sw k) t k = sw_limit sw"
    by (simp add: sw_Remaining_times sw_times_Reset after_def)
  show "sw_ok sw t \<Longrightarrow> k' \<noteq> k \<Longrightarrow> sw_Remaining (sw_Reset sw k) t k' = sw_Remaining sw t k'"
    by (simp add: sw_Remaining_times sw_times_Reset)
qed

section \<open>The sliding guarantee\<close>

text \<open>
  \<open>h\<close> is the whole history of the grants to a key. The state keeps enough of it to decide, and
  no interval of the length of the window holds more than the limit.
\<close>

definition sw_hist :: "sliding_window \<Rightarrow> int \<Rightarrow> string \<Rightarrow> int list \<Rightarrow> bool" where
  "sw_hist sw t k h \<longleftrightarrow>
     (\<forall>x \<ge> t - sw_windowSize sw. after x (sw_times sw k) = after x h) \<and> (\<forall>a \<in> set h. a \<le> t) \<and>
     (\<forall>u. in_span (u - sw_windowSize sw) u h \<le> sw_limit sw)"

lemma in_span_append [simp]: "in_span x y (ts @ us) = in_span x y ts + in_span x y us"
  by (simp add: in_span_def)

lemma in_span_le_after: "in_span x y ts \<le> after x ts"
  by (induction ts) (auto simp: in_span_def after_def)

lemma in_span_replicate_later: "y < a \<Longrightarrow> in_span x y (replicate m a) = 0"
  by (simp add: in_span_def)

lemma sw_hist_step:
  assumes "sw_ok sw t" "clock_ok t c" "sw_fits sw n" "sw_hist sw t k h"
    "h' = h @ (if snd (sw_AllowN sw c k' n) \<and> k' = k \<and> 0 < n then replicate (nat n) (c_now c) else [])"
  shows "sw_hist (fst (sw_AllowN sw c k' n)) (c_now c) k h'"
proof -
  let ?sw = "fst (sw_AllowN sw c k' n)"
  let ?w = "sw_windowSize sw"
  have t: "t \<le> c_now c" using assms(2) by (rule clock_ok_now)
  have kept: "after x (sw_times ?sw k) = after x h'" if "c_now c - ?w \<le> x" for x
    using after_AllowN [OF assms(1-3) that, of k' k] assms(4) t that
    by (auto simp: sw_hist_def assms(5) after_replicate after_def [of _ "[]"])
  have "in_span (u - ?w) u h' \<le> sw_limit sw" for u
  proof (cases "u < c_now c")
    case True
    have "in_span (u - ?w) u h \<le> sw_limit sw" using assms(4) by (simp add: sw_hist_def)
    then show ?thesis using True by (simp add: assms(5) in_span_replicate_later in_span_def [of _ _ "[]"])
  next
    case False
    have "in_span (u - ?w) u h' \<le> after (u - ?w) (sw_times ?sw k)"
      using False in_span_le_after [of "u - ?w" u h'] kept [of "u - ?w"] by simp
    also have "\<dots> \<le> int (length (sw_times ?sw k))" by (rule after_le_length)
    also have "\<dots> \<le> sw_limit sw"
      using sw_times_ok(1) [OF sw_ok_AllowN [OF assms(1-3)], of k' k] by simp
    finally show ?thesis .
  qed
  moreover have "\<forall>a \<in> set h'. a \<le> c_now c"
    using assms(4) t by (auto simp: sw_hist_def assms(5))
  ultimately show ?thesis using kept by (simp add: sw_hist_def)
qed

lemma sw_hist_run:
  assumes "sw_ok sw t" "requests_ok t rs" "\<forall>(c, k', n) \<in> set rs. sw_fits sw n" "sw_hist sw t k h"
  shows "sw_hist (fst (run_requests sw_AllowN sw rs)) (last_now t rs) k
    (h @ grant_times k rs (snd (run_requests sw_AllowN sw rs)))"
  using assms
proof (induction t rs arbitrary: sw h rule: requests_ok.induct)
  case (1 t)
  then show ?case by simp
next
  case (2 t c k' n rs)
  let ?sw = "fst (sw_AllowN sw c k' n)"
  let ?h = "h @ (if snd (sw_AllowN sw c k' n) \<and> k' = k \<and> 0 < n then replicate (nat n) (c_now c) else [])"
  have "sw_hist ?sw (c_now c) k ?h"
    using sw_hist_step [OF _ _ _ _ refl, of sw t c n k h k'] "2.prems" by simp
  moreover have "sw_ok ?sw (c_now c)" using sw_ok_AllowN [of sw t c n k'] "2.prems" by simp
  ultimately show ?case
    using "2.IH" [of ?sw ?h] "2.prems" by (simp add: sw_fits_def split_beta)
qed

lemma sw_hist_New:
  assumes "limit \<le> max_i64"
  shows "sw_hist (NewSlidingWindow limit sz now) t k []"
  by (auto simp: sw_hist_def NewSlidingWindow_def sw_times_def in_span_def Let_def)


text \<open>The cleanup forgets a history that was last read a day ago, also when the window is longer.\<close>

lemma sw_early_cleanup:
  assumes "1 \<le> limit" "limit \<le> max_i64" "24 * hour + 1 < w"
  shows "in_span (24 * hour + 1 - w) (24 * hour + 1)
      (grant_times k [(tick 0, k, limit), (tick (24 * hour + 1), k, limit)]
        (snd (run_requests sw_AllowN (NewSlidingWindow limit w 0) [(tick 0, k, limit), (tick (24 * hour + 1), k, limit)])))
    = 2 * limit"
proof -
  have i: "in_i64 limit" using assms(1,2) by (simp add: i64_defs)
  let ?s = "NewSlidingWindow limit w 0"
  let ?s1 = "sw_put ?s k \<lparr>sr_timestamps = replicate (nat limit) 0, sr_lastRead = 0\<rparr>"
  have w: "\<not> w < second" using assms(3) by (simp add: go_time)
  have s: "sw_limit ?s = limit" "sw_windowSize ?s = w" "sw_requests ?s = []" "sw_lastCleanupTime ?s = 0"
    using assms(1) w by (simp_all add: NewSlidingWindow_def Let_def)
  have 1: "sw_AllowN ?s (tick 0) k limit = (?s1, True)"
    using assms(1,2) i by (simp add: sw_AllowN_def sw_periodic_def sw_request_def s tick_def go_time Let_def)
  have "\<exists>s2. sw_AllowN ?s1 (tick (24 * hour + 1)) k limit = (s2, True)"
    using assms(1,2) i by (simp add: sw_AllowN_def sw_periodic_def sw_cleanup_def sw_request_def sw_put_def s tick_def go_time Let_def)
  then obtain s2 where 2: "sw_AllowN ?s1 (tick (24 * hour + 1)) k limit = (s2, True)" by blast
  have a: "24 * hour + 1 - w < 0" "(0::int) \<le> 24 * hour + 1" "24 * hour + 1 - w < 24 * hour + 1" using assms(3) by (simp_all add: go_time)
  show ?thesis using assms(1) a by (simp add: 1 2 in_span_def)
qed

section \<open>Properties\<close>

text \<open>
  C20. The guarantee a sliding window is named after: over any run of requests from a new limiter with a
  window of at most 24 hours, whatever their keys and instants, no stretch of time as long as the window
  holds more grants to a key than the limit. No amount may exceed the largest \<^verbatim>\<open>int64\<close> minus the limit:
  for more the sum of \<^verbatim>\<open>AllowN\<close> wraps around. The bound on the window is needed: in every longer one twice
  the limit is granted, at its start and again a day later, since the cleanup drops a history that was
  last read 24 hours ago.
\<close>

theorem sliding_guarantee:
  assumes "limit \<le> max_i64" "sz \<le> 24 * hour" "requests_ok now rs"
    "\<forall>(c, k', n) \<in> set rs. sw_fits (NewSlidingWindow limit sz now) n"
  shows "in_span (u - sw_windowSize (NewSlidingWindow limit sz now)) u
      (grant_times k rs (snd (run_requests sw_AllowN (NewSlidingWindow limit sz now) rs)))
    \<le> sw_limit (NewSlidingWindow limit sz now) \<and>
    (\<forall>limit w k. 1 \<le> limit \<longrightarrow> limit \<le> max_i64 \<longrightarrow> 24 * hour + 1 < w \<longrightarrow>
       in_span (24 * hour + 1 - w) (24 * hour + 1)
         (grant_times k [(tick 0, k, limit), (tick (24 * hour + 1), k, limit)]
           (snd (run_requests sw_AllowN (NewSlidingWindow limit w 0) [(tick 0, k, limit), (tick (24 * hour + 1), k, limit)])))
       = 2 * limit)"
proof -
  let ?sw = "NewSlidingWindow limit sz now"
  have f: "sw_limit (fst (run_requests sw_AllowN s qs)) = sw_limit s"
    "sw_windowSize (fst (run_requests sw_AllowN s qs)) = sw_windowSize s" for s qs
    by (induction qs arbitrary: s) (auto simp del: run_requests.simps(2))
  have "sw_hist (fst (run_requests sw_AllowN ?sw rs)) (last_now now rs) k
      ([] @ grant_times k rs (snd (run_requests sw_AllowN ?sw rs)))"
    by (rule sw_hist_run [OF sw_ok_New [OF assms(1,2)] assms(3,4) sw_hist_New [OF assms(1)]])
  then have "in_span (u - sw_windowSize ?sw) u (grant_times k rs (snd (run_requests sw_AllowN ?sw rs))) \<le> sw_limit ?sw"
    by (simp add: sw_hist_def f)
  then show ?thesis using sw_early_cleanup by blast
qed

lemma sliding_guarantee_witness:
  "in_span 0 1000000000 (grant_times ''k'' [(tick 5, ''k'', 1), (tick 6, ''k'', 1)]
     (snd (run_requests sw_AllowN (NewSlidingWindow 1 second 0) [(tick 5, ''k'', 1), (tick 6, ''k'', 1)]))) \<le> 1"
  using sliding_guarantee [of 1 second 0 "[(tick 5, ''k'', 1), (tick 6, ''k'', 1)]" 1000000000 "''k''", THEN conjunct1]
  by (simp add: NewSlidingWindow_def sw_fits_def max_i64_def go_time)

end
