(* ===== verification/Token_Bucket.thy ===== *)
theory Token_Bucket
  imports Limiter_Port "HOL-Library.Signed_Division"
begin

text \<open>
  adapters/limiter-memory/token_bucket.go. A \<^verbatim>\<open>float64\<close> is the rational number it stands for;
  every operation rounds its exact result with the parameter \<open>fl\<close>. \<open>fl_ok\<close> states what the
  proofs use of rounding to binary64. The infinities and NaN are not modelled.
\<close>

section \<open>Floating point\<close>

text \<open>
  Rounding is monotone, leaves what is already rounded alone, is exact on integers up to
  \<open>2 ^ 53\<close>, and taking an integer away from a larger number up to \<open>2 ^ 53\<close> is exact.
\<close>

definition fl_ok :: "(rat \<Rightarrow> rat) \<Rightarrow> bool" where
  "fl_ok fl \<longleftrightarrow>
     mono fl \<and> (\<forall>x. fl (fl x) = fl x) \<and>
     (\<forall>n. \<bar>n\<bar> \<le> 9007199254740992 \<longrightarrow> fl (of_int n) = of_int n) \<and>
     (\<forall>x n. fl x = x \<and> 0 \<le> n \<and> of_int n \<le> x \<and> x \<le> 9007199254740992 \<longrightarrow>
        fl (x - of_int n) = x - of_int n)"

text \<open>\<^verbatim>\<open>int64(x)\<close> truncates toward zero.\<close>

definition to_int64 :: "rat \<Rightarrow> int" where
  "to_int64 x = (if 0 \<le> x then \<lfloor>x\<rfloor> else \<lceil>x\<rceil>)"

text \<open>\<^verbatim>\<open>Time.Sub\<close> saturates; \<^verbatim>\<open>Duration.Seconds\<close> adds the seconds and the fraction.\<close>

definition time_sub :: "int \<Rightarrow> int \<Rightarrow> int" where
  "time_sub t u = max min_i64 (min max_i64 (t - u))"

definition seconds :: "(rat \<Rightarrow> rat) \<Rightarrow> int \<Rightarrow> rat" where
  "seconds fl d =
     fl (fl (of_int (d sdiv 1000000000)) + fl (fl (of_int (d smod 1000000000)) / 1000000000))"

section \<open>State and operations\<close>

record token_data =
  td_tokens :: rat
  td_lastRefil :: int

record token_bucket =
  tb_rps :: rat
  tb_burstSize :: int
  tb_tokens :: "(string \<times> token_data) list"
  tb_windowDuration :: int
  tb_lastCleanupTime :: int

definition NewTokenBucket :: "rat \<Rightarrow> int \<Rightarrow> int \<Rightarrow> token_bucket" where
  "NewTokenBucket rps burstSize now =
     (let rps = (if rps \<le> 0 then 1 else rps);
          burstSize = (if burstSize < 1 then to_int64 rps else burstSize)
      in \<lparr>tb_rps = rps, tb_burstSize = burstSize, tb_tokens = [], tb_windowDuration = hour,
          tb_lastCleanupTime = now\<rparr>)"

definition tb_cleanup :: "token_bucket \<Rightarrow> int \<Rightarrow> token_bucket" where
  "tb_cleanup tb now =
     tb\<lparr>tb_tokens := filter (\<lambda>(k, data). \<not> td_lastRefil data < now - 1 * hour) (tb_tokens tb)\<rparr>"

definition tb_periodic :: "token_bucket \<Rightarrow> clock \<Rightarrow> token_bucket" where
  "tb_periodic tb c =
     (if tb_windowDuration tb < time_sub (c_since c) (tb_lastCleanupTime tb)
      then (tb_cleanup tb (c_cleanup c))\<lparr>tb_lastCleanupTime := c_mark c\<rparr> else tb)"

text \<open>The tokens at \<open>now\<close>: those stored and those the elapsed time adds, capped at the burst.\<close>

definition tb_refill :: "(rat \<Rightarrow> rat) \<Rightarrow> token_bucket \<Rightarrow> int \<Rightarrow> token_data \<Rightarrow> rat" where
  "tb_refill fl tb now data =
     (let elapsed = seconds fl (time_sub now (td_lastRefil data));
          tokens = fl (td_tokens data + fl (elapsed * tb_rps tb))
      in if fl (of_int (tb_burstSize tb)) < tokens then fl (of_int (tb_burstSize tb)) else tokens)"

definition tb_put :: "token_bucket \<Rightarrow> string \<Rightarrow> token_data \<Rightarrow> token_bucket" where
  "tb_put tb key data = tb\<lparr>tb_tokens := AList.update key data (tb_tokens tb)\<rparr>"

definition tb_AllowN ::
  "(rat \<Rightarrow> rat) \<Rightarrow> token_bucket \<Rightarrow> clock \<Rightarrow> string \<Rightarrow> int \<Rightarrow> token_bucket \<times> bool" where
  "tb_AllowN fl tb c key n =
     (if n \<le> 0 then (tb, True)
      else let tb = tb_periodic tb c;
               data = (case map_of (tb_tokens tb) key of
                         Some data \<Rightarrow> data
                       | None \<Rightarrow> \<lparr>td_tokens = fl (of_int (tb_burstSize tb)), td_lastRefil = c_new c\<rparr>);
               now = c_now c;
               tokens = tb_refill fl tb now data
           in if fl (of_int n) \<le> tokens
              then (tb_put tb key \<lparr>td_tokens = fl (tokens - fl (of_int n)), td_lastRefil = now\<rparr>, True)
              else (tb_put tb key \<lparr>td_tokens = tokens, td_lastRefil = now\<rparr>, False))"

definition tb_Allow :: "(rat \<Rightarrow> rat) \<Rightarrow> token_bucket \<Rightarrow> clock \<Rightarrow> string \<Rightarrow> token_bucket \<times> bool" where
  "tb_Allow fl tb c key = tb_AllowN fl tb c key 1"

definition tb_Remaining :: "(rat \<Rightarrow> rat) \<Rightarrow> token_bucket \<Rightarrow> int \<Rightarrow> string \<Rightarrow> int" where
  "tb_Remaining fl tb now key =
     (case map_of (tb_tokens tb) key of
        None \<Rightarrow> tb_burstSize tb
      | Some data \<Rightarrow> to_int64 (tb_refill fl tb now data))"

definition tb_Reset :: "token_bucket \<Rightarrow> string \<Rightarrow> token_bucket" where
  "tb_Reset tb key = tb\<lparr>tb_tokens := AList.delete key (tb_tokens tb)\<rparr>"

definition tb_Health :: "token_bucket \<Rightarrow> unit res" where
  "tb_Health tb = Ok ()"

text \<open>\<^verbatim>\<open>rps\<close>, \<^verbatim>\<open>burstSize\<close>, \<^verbatim>\<open>activeBuckets\<close> and \<^verbatim>\<open>windowDuration\<close>.\<close>

definition tb_Stats :: "token_bucket \<Rightarrow> rat \<times> int \<times> nat \<times> int" where
  "tb_Stats tb = (tb_rps tb, tb_burstSize tb, length (tb_tokens tb), tb_windowDuration tb)"

section \<open>Rounding and elapsed time\<close>

lemma fl_mono: "fl_ok fl \<Longrightarrow> x \<le> y \<Longrightarrow> fl x \<le> fl y"
  by (simp add: fl_ok_def monoD)

lemma fl_idem: "fl_ok fl \<Longrightarrow> fl (fl x) = fl x"
  by (simp add: fl_ok_def)

lemma fl_int: "fl_ok fl \<Longrightarrow> \<bar>n\<bar> \<le> 9007199254740992 \<Longrightarrow> fl (of_int n) = of_int n"
  by (simp add: fl_ok_def)

lemma fl_sub:
  "fl_ok fl \<Longrightarrow> fl x = x \<Longrightarrow> 0 \<le> n \<Longrightarrow> of_int n \<le> x \<Longrightarrow> x \<le> 9007199254740992 \<Longrightarrow>
     fl (x - of_int n) = x - of_int n"
  by (simp add: fl_ok_def)

lemma fl_ok_exact: "fl_ok (\<lambda>x. x)"
  by (simp add: fl_ok_def mono_def)

lemma fl_0 [simp]: "fl_ok fl \<Longrightarrow> fl 0 = 0"
  using fl_int [of fl 0] by simp

lemma fl_nonneg: "fl_ok fl \<Longrightarrow> 0 \<le> x \<Longrightarrow> 0 \<le> fl x"
  using fl_mono [of fl 0 x] by simp

lemma fl_ge_int: "fl_ok fl \<Longrightarrow> \<bar>n\<bar> \<le> 9007199254740992 \<Longrightarrow> of_int n \<le> x \<Longrightarrow> of_int n \<le> fl x"
  using fl_mono [of fl "of_int n" x] by (simp add: fl_int)

lemma fl_le_int: "fl_ok fl \<Longrightarrow> \<bar>n\<bar> \<le> 9007199254740992 \<Longrightarrow> x \<le> of_int n \<Longrightarrow> fl x \<le> of_int n"
  using fl_mono [of fl x "of_int n"] by (simp add: fl_int)

lemma time_sub_nonneg: "u \<le> t \<Longrightarrow> 0 \<le> time_sub t u"
  by (simp add: time_sub_def i64_defs)

lemma time_sub_mono: "t \<le> t' \<Longrightarrow> time_sub t u \<le> time_sub t' u"
  by (simp add: time_sub_def)

lemma time_sub_max: "time_sub t u \<le> max_i64"
  by (simp add: time_sub_def i64_defs)

lemma seconds_pos:
  "0 \<le> d \<Longrightarrow> seconds fl d =
     fl (fl (of_int (d div 1000000000)) + fl (fl (of_int (d mod 1000000000)) / 1000000000))"
  by (simp add: seconds_def signed_divide_int_def signed_modulo_int_def minus_div_mult_eq_mod
      sgn_if minus_mult_div_eq_mod mult.commute)

lemma seconds_0 [simp]: "fl_ok fl \<Longrightarrow> seconds fl 0 = 0"
  by (simp add: seconds_pos)

text \<open>The fraction of a second stays between 0 and 1, and the whole seconds are exact.\<close>

lemma seconds_bounds:
  assumes "fl_ok fl" "0 \<le> d" "d \<le> max_i64"
  shows "of_int (d div 1000000000) \<le> seconds fl d" "seconds fl d \<le> of_int (d div 1000000000 + 1)"
proof -
  let ?q = "d div 1000000000" and ?r = "d mod 1000000000"
  have q: "0 \<le> ?q" "?q \<le> 9223372036" using assms(2,3) by (simp_all add: max_i64_def)
  have r: "fl (of_int ?r) = of_int ?r" using assms(1) by (intro fl_int) (auto simp: abs_of_nonneg)
  have f0: "0 \<le> fl (of_int ?r / 1000000000)" by (rule fl_nonneg [OF assms(1)]) simp
  have "of_int ?r / 1000000000 \<le> (of_int 1 :: rat)" by (simp add: of_int_le_numeral_iff)
  then have f1: "fl (of_int ?r / 1000000000) \<le> 1" using fl_le_int [OF assms(1), of 1] by simp
  have e: "seconds fl d = fl (of_int ?q + fl (of_int ?r / 1000000000))"
    using q by (simp add: seconds_pos [OF assms(2)] r fl_int [OF assms(1)])
  show "of_int ?q \<le> seconds fl d"
    unfolding e using q f0 by (intro fl_ge_int [OF assms(1)]) auto
  show "seconds fl d \<le> of_int (?q + 1)"
    unfolding e using q f1 by (intro fl_le_int [OF assms(1)]) auto
qed

lemma seconds_mono:
  assumes "fl_ok fl" "0 \<le> d" "d \<le> d'" "d' \<le> max_i64"
  shows "seconds fl d \<le> seconds fl d'"
proof (cases "d div 1000000000 = d' div 1000000000")
  case False
  then have "d div 1000000000 + 1 \<le> d' div 1000000000"
    using zdiv_mono1 [OF assms(3), of 1000000000] by simp
  then have "(of_int (d div 1000000000 + 1) :: rat) \<le> of_int (d' div 1000000000)"
    by (simp only: of_int_le_iff)
  then show ?thesis
    using seconds_bounds(2) [of fl d] seconds_bounds(1) [of fl d'] assms by linarith
next
  case True
  then have "d mod 1000000000 \<le> d' mod 1000000000"
    using assms(3) by (simp add: minus_div_mult_eq_mod [symmetric])
  then have "(of_int (d mod 1000000000) :: rat) \<le> of_int (d' mod 1000000000)"
    by (simp only: of_int_le_iff)
  then have "fl (of_int (d mod 1000000000)) / 1000000000 \<le> fl (of_int (d' mod 1000000000)) / 1000000000"
    by (intro divide_right_mono fl_mono [OF assms(1)]) simp_all
  then have "fl (of_int (d div 1000000000)) + fl (fl (of_int (d mod 1000000000)) / 1000000000)
      \<le> fl (of_int (d div 1000000000)) + fl (fl (of_int (d' mod 1000000000)) / 1000000000)"
    by (intro add_left_mono fl_mono [OF assms(1)])
  then show ?thesis
    unfolding seconds_pos [OF assms(2)] seconds_pos [OF order_trans [OF assms(2,3)]] True [symmetric]
    by (rule fl_mono [OF assms(1)])
qed

section \<open>The invariant\<close>

definition td_ok :: "(rat \<Rightarrow> rat) \<Rightarrow> int \<Rightarrow> int \<Rightarrow> token_data \<Rightarrow> bool" where
  "td_ok fl burst t data \<longleftrightarrow>
     0 \<le> td_tokens data \<and> td_tokens data \<le> of_int burst \<and>
     fl (td_tokens data) = td_tokens data \<and> td_lastRefil data \<le> t"

text \<open>The last condition says that an hour fills the bucket: an hour is how long it is kept.\<close>

definition tb_ok :: "(rat \<Rightarrow> rat) \<Rightarrow> token_bucket \<Rightarrow> int \<Rightarrow> bool" where
  "tb_ok fl tb t \<longleftrightarrow>
     0 < tb_rps tb \<and> 0 \<le> tb_burstSize tb \<and> tb_burstSize tb < 9007199254740992 \<and>
     of_int (tb_burstSize tb) \<le> fl (3600 * tb_rps tb) \<and> distinct (map fst (tb_tokens tb)) \<and>
     (\<forall>(k, data) \<in> set (tb_tokens tb). td_ok fl (tb_burstSize tb) t data)"

lemma tb_ok_lookup:
  "tb_ok fl tb t \<Longrightarrow> map_of (tb_tokens tb) k = Some data \<Longrightarrow> td_ok fl (tb_burstSize tb) t data"
  by (auto simp: tb_ok_def dest!: map_of_SomeD)

lemma tb_frame [simp]:
  "tb_burstSize (tb_put tb k d) = tb_burstSize tb" "tb_rps (tb_put tb k d) = tb_rps tb"
  "tb_burstSize (tb_periodic tb c) = tb_burstSize tb" "tb_rps (tb_periodic tb c) = tb_rps tb"
  "tb_burstSize (tb_Reset tb k) = tb_burstSize tb" "tb_rps (tb_Reset tb k) = tb_rps tb"
  by (simp_all add: tb_put_def tb_periodic_def tb_cleanup_def tb_Reset_def)

lemma tb_burst_AllowN [simp]: "tb_burstSize (fst (tb_AllowN fl tb c k n)) = tb_burstSize tb"
  by (simp add: tb_AllowN_def Let_def)

lemma tb_refill_frame [simp]:
  "tb_refill fl (tb_put tb k d) = tb_refill fl tb" "tb_refill fl (tb_periodic tb c) = tb_refill fl tb"
  "tb_refill fl (tb_Reset tb k) = tb_refill fl tb"
  by (simp_all add: tb_refill_def fun_eq_iff Let_def cong: if_cong)

lemma tb_ok_later: "tb_ok fl tb t \<Longrightarrow> t \<le> t' \<Longrightarrow> tb_ok fl tb t'"
  by (fastforce simp: tb_ok_def td_ok_def)

lemma tb_ok_filter:
  assumes "tb_ok fl tb t"
  shows "tb_ok fl (tb\<lparr>tb_tokens := filter P (tb_tokens tb), tb_lastCleanupTime := m\<rparr>) t"
    "tb_ok fl (tb\<lparr>tb_tokens := filter P (tb_tokens tb)\<rparr>) t"
  using assms by (auto simp: tb_ok_def intro: distinct_map_filter)

lemma tb_ok_periodic: "tb_ok fl tb t \<Longrightarrow> tb_ok fl (tb_periodic tb c) t"
  by (simp add: tb_periodic_def tb_cleanup_def tb_ok_filter)

lemma tb_ok_Reset: "tb_ok fl tb t \<Longrightarrow> tb_ok fl (tb_Reset tb k) t"
  by (simp add: tb_Reset_def AList.delete_eq tb_ok_filter)

lemma tb_ok_put:
  "tb_ok fl tb t \<Longrightarrow> td_ok fl (tb_burstSize tb) t d \<Longrightarrow> tb_ok fl (tb_put tb k d) t"
  using set_AList_update_subset [of k d "tb_tokens tb"]
  by (fastforce simp: tb_ok_def tb_put_def distinct_update)

lemma tb_okD:
  assumes "tb_ok fl tb t"
  shows "0 < tb_rps tb" "0 \<le> tb_burstSize tb" "tb_burstSize tb < 9007199254740992"
    "of_int (tb_burstSize tb) \<le> fl (3600 * tb_rps tb)"
  using assms by (simp_all add: tb_ok_def)

lemma tb_ok_burst: "fl_ok fl \<Longrightarrow> tb_ok fl tb t \<Longrightarrow> fl (of_int (tb_burstSize tb)) = of_int (tb_burstSize tb)"
  by (simp add: tb_ok_def fl_int)

section \<open>Refilling\<close>

lemma tb_refill_bounds:
  assumes "fl_ok fl" "tb_ok fl tb t" "0 \<le> td_tokens data" "td_lastRefil data \<le> now"
  shows "0 \<le> tb_refill fl tb now data" "tb_refill fl tb now data \<le> of_int (tb_burstSize tb)"
    "fl (tb_refill fl tb now data) = tb_refill fl tb now data"
proof -
  let ?s = "seconds fl (time_sub now (td_lastRefil data))"
  have "0 \<le> ?s"
    using seconds_mono [OF assms(1) order_refl time_sub_nonneg [OF assms(4)] time_sub_max] assms(1)
    by simp
  then have "0 \<le> fl (td_tokens data + fl (?s * tb_rps tb))"
    using assms(3) tb_okD(1) [OF assms(2)]
    by (intro fl_nonneg [OF assms(1)] add_nonneg_nonneg mult_nonneg_nonneg) simp_all
  then show "0 \<le> tb_refill fl tb now data" "tb_refill fl tb now data \<le> of_int (tb_burstSize tb)"
    "fl (tb_refill fl tb now data) = tb_refill fl tb now data"
    using tb_okD(2) [OF assms(2)] tb_ok_burst [OF assms(1,2)]
    by (simp_all add: tb_refill_def Let_def fl_idem [OF assms(1)])
qed

lemma tb_refill_later:
  assumes "fl_ok fl" "tb_ok fl tb t" "td_lastRefil data \<le> u" "u \<le> u'"
  shows "tb_refill fl tb u data \<le> tb_refill fl tb u' data"
proof -
  have "seconds fl (time_sub u (td_lastRefil data)) \<le> seconds fl (time_sub u' (td_lastRefil data))"
    using assms by (intro seconds_mono time_sub_nonneg time_sub_mono time_sub_max)
  then have "fl (td_tokens data + fl (seconds fl (time_sub u (td_lastRefil data)) * tb_rps tb)) \<le>
      fl (td_tokens data + fl (seconds fl (time_sub u' (td_lastRefil data)) * tb_rps tb))"
    using tb_okD(1) [OF assms(2)] by (intro fl_mono [OF assms(1)] add_left_mono mult_right_mono) simp_all
  then show ?thesis by (auto simp: tb_refill_def Let_def)
qed

lemma tb_refill_same:
  assumes "fl_ok fl" "td_ok fl (tb_burstSize tb) t data" "tb_ok fl tb t'" "td_lastRefil data = now"
  shows "tb_refill fl tb now data = td_tokens data"
  using assms(1,2,4) tb_ok_burst [OF assms(1,3)]
  by (auto simp: tb_refill_def td_ok_def time_sub_def i64_defs Let_def)

lemma tb_refill_full:
  assumes "fl_ok fl" "tb_ok fl tb t" "td_tokens data = of_int (tb_burstSize tb)" "td_lastRefil data \<le> now"
  shows "tb_refill fl tb now data = of_int (tb_burstSize tb)"
proof (rule antisym)
  have 0: "0 \<le> td_tokens data" using tb_okD(2) [OF assms(2)] assms(3) by simp
  then show "tb_refill fl tb now data \<le> of_int (tb_burstSize tb)"
    using tb_refill_bounds(2) [OF assms(1,2) 0 assms(4)] by simp
  have "td_ok fl (tb_burstSize tb) (td_lastRefil data) data"
    using 0 assms(3) tb_ok_burst [OF assms(1,2)] by (simp add: td_ok_def)
  then have "tb_refill fl tb (td_lastRefil data) data = td_tokens data"
    using tb_refill_same [OF assms(1)] assms(2) by blast
  then show "of_int (tb_burstSize tb) \<le> tb_refill fl tb now data"
    using tb_refill_later [OF assms(1,2) order_refl assms(4)] assms(3) by simp
qed

text \<open>An hour fills the bucket, which is why the cleanup changes nothing.\<close>

lemma tb_refill_hour:
  assumes "fl_ok fl" "tb_ok fl tb t" "0 \<le> td_tokens data" "td_lastRefil data + 1 * hour \<le> now"
  shows "tb_refill fl tb now data = of_int (tb_burstSize tb)"
proof -
  let ?d = "time_sub now (td_lastRefil data)"
  have d: "hour \<le> ?d" using assms(4) by (simp add: time_sub_def i64_defs hour_def)
  then have "3600 \<le> ?d div 1000000000"
    using zdiv_mono1 [OF d, of 1000000000] by (simp add: hour_def)
  then have "(of_int 3600 :: rat) \<le> of_int (?d div 1000000000)" by (simp only: of_int_le_iff)
  then have s: "3600 \<le> seconds fl ?d"
    using seconds_bounds(1) [OF assms(1) _ time_sub_max, of now "td_lastRefil data"] d
    by (simp add: hour_def)
  have "fl (3600 * tb_rps tb) \<le> fl (seconds fl ?d * tb_rps tb)"
    using s tb_okD(1) [OF assms(2)] by (intro fl_mono [OF assms(1)] mult_right_mono) simp_all
  then have "of_int (tb_burstSize tb) \<le> td_tokens data + fl (seconds fl ?d * tb_rps tb)"
    using tb_okD(4) [OF assms(2)] assms(3) by linarith
  then have "of_int (tb_burstSize tb) \<le> fl (td_tokens data + fl (seconds fl ?d * tb_rps tb))"
    using tb_okD(2,3) [OF assms(2)] by (intro fl_ge_int [OF assms(1)]) simp_all
  then show ?thesis using tb_ok_burst [OF assms(1,2)] by (simp add: tb_refill_def Let_def)
qed

section \<open>Requests\<close>

text \<open>The tokens a key has at \<open>now\<close>: a key without an entry has a full bucket.\<close>

definition tb_level :: "(rat \<Rightarrow> rat) \<Rightarrow> token_bucket \<Rightarrow> int \<Rightarrow> string \<Rightarrow> rat" where
  "tb_level fl tb now key =
     (case map_of (tb_tokens tb) key of
        Some data \<Rightarrow> tb_refill fl tb now data
      | None \<Rightarrow> of_int (tb_burstSize tb))"

lemma tb_level_bounds:
  assumes "fl_ok fl" "tb_ok fl tb t" "t \<le> u"
  shows "0 \<le> tb_level fl tb u k" "tb_level fl tb u k \<le> of_int (tb_burstSize tb)"
    "fl (tb_level fl tb u k) = tb_level fl tb u k"
proof -
  have "0 \<le> tb_level fl tb u k \<and> tb_level fl tb u k \<le> of_int (tb_burstSize tb) \<and>
      fl (tb_level fl tb u k) = tb_level fl tb u k"
  proof (cases "map_of (tb_tokens tb) k")
    case None
    then show ?thesis
      using tb_okD(2) [OF assms(2)] tb_ok_burst [OF assms(1,2)] by (simp add: tb_level_def)
  next
    case (Some data)
    have "0 \<le> td_tokens data" "td_lastRefil data \<le> u"
      using tb_ok_lookup [OF assms(2) Some] assms(3) by (simp_all add: td_ok_def)
    then show ?thesis using Some tb_refill_bounds [OF assms(1,2)] by (simp add: tb_level_def)
  qed
  then show "0 \<le> tb_level fl tb u k" "tb_level fl tb u k \<le> of_int (tb_burstSize tb)"
    "fl (tb_level fl tb u k) = tb_level fl tb u k" by simp_all
qed

lemma tb_Remaining_level:
  assumes "fl_ok fl" "tb_ok fl tb t" "t \<le> u"
  shows "tb_Remaining fl tb u k = \<lfloor>tb_level fl tb u k\<rfloor>"
  using tb_level_bounds(1) [OF assms, of k]
  by (auto simp: tb_Remaining_def tb_level_def to_int64_def split: option.splits)

lemma tb_level_periodic:
  assumes "fl_ok fl" "tb_ok fl tb t" "clock_ok t' c" "c_now c \<le> u"
  shows "tb_level fl (tb_periodic tb c) u k = tb_level fl tb u k"
proof -
  have "c_cleanup c \<le> u" using assms(3,4) by (simp add: clock_ok_def)
  then have "tb_refill fl tb u data = of_int (tb_burstSize tb)"
    if "map_of (tb_tokens tb) k = Some data" "td_lastRefil data < c_cleanup c - hour" for data
    using tb_ok_lookup [OF assms(2) that(1)] that(2)
    by (intro tb_refill_hour [OF assms(1,2)]) (simp_all add: td_ok_def)
  moreover have "map_of (tb_tokens (tb_periodic tb c)) k =
      (if tb_windowDuration tb < time_sub (c_since c) (tb_lastCleanupTime tb)
       then case map_of (tb_tokens tb) k of
              Some d \<Rightarrow> if \<not> td_lastRefil d < c_cleanup c - hour then Some d else None
            | None \<Rightarrow> None
       else map_of (tb_tokens tb) k)"
    using assms(2) by (simp add: tb_periodic_def tb_cleanup_def tb_ok_def map_of_filter_keys)
  ultimately show ?thesis
    by (auto simp: tb_level_def split: option.splits if_splits)
qed

lemma tb_level_put:
  "tb_level fl (tb_put tb k d) u k' = (if k' = k then tb_refill fl tb u d else tb_level fl tb u k')"
  by (simp add: tb_level_def tb_put_def map_of_AList_update tb_refill_def Let_def split: option.split)

lemma tb_level_Reset:
  "tb_level fl (tb_Reset tb k) u k' = (if k' = k then of_int (tb_burstSize tb) else tb_level fl tb u k')"
  by (simp add: tb_level_def tb_Reset_def map_of_AList_delete tb_refill_def Let_def split: option.split)

lemma fl_le_floor_iff:
  assumes "fl_ok fl" "0 < n" "x < 9007199254740992"
  shows "fl (of_int n) \<le> x \<longleftrightarrow> n \<le> \<lfloor>x\<rfloor>"
proof (cases "n \<le> 9007199254740992")
  case True
  then show ?thesis using assms(1,2) by (simp add: fl_int le_floor_iff)
next
  case False
  then have "(of_int 9007199254740992 :: rat) \<le> of_int n" by (simp only: of_int_le_iff)
  then have "of_int 9007199254740992 \<le> fl (of_int n)" by (intro fl_ge_int [OF assms(1)]) simp_all
  then have "\<not> fl (of_int n) \<le> x" using assms(3) by simp
  moreover have "\<lfloor>x\<rfloor> < 9007199254740992" using assms(3) by (simp add: floor_less_iff)
  then have "\<not> n \<le> \<lfloor>x\<rfloor>" using False by linarith
  ultimately show ?thesis by blast
qed

text \<open>One request of a positive amount, in one equation.\<close>

lemma tb_AllowN_eq:
  assumes "fl_ok fl" "tb_ok fl tb t" "clock_ok t c" "0 < n"
  shows "tb_AllowN fl tb c k n =
    (let lv = tb_level fl tb (c_now c) k; b = (n \<le> \<lfloor>lv\<rfloor>)
     in (tb_put (tb_periodic tb c) k
           \<lparr>td_tokens = lv - (if b then of_int n else 0), td_lastRefil = c_now c\<rparr>, b))"
proof -
  let ?tb = "tb_periodic tb c" and ?lv = "tb_level fl tb (c_now c) k"
  let ?new = "\<lparr>td_tokens = fl (of_int (tb_burstSize ?tb)), td_lastRefil = c_new c\<rparr>"
  have burst: "fl (of_int (tb_burstSize tb)) = of_int (tb_burstSize tb)"
    by (rule tb_ok_burst [OF assms(1,2)])
  have "tb_refill fl tb (c_now c) ?new = of_int (tb_burstSize tb)"
    using assms(3) by (intro tb_refill_full [OF assms(1,2)]) (simp_all add: clock_ok_def burst)
  then have tokens: "tb_refill fl tb (c_now c)
      (case map_of (tb_tokens ?tb) k of Some data \<Rightarrow> data | None \<Rightarrow> ?new) = ?lv"
    using tb_level_periodic [OF assms(1-3) order_refl, of k]
    by (simp add: tb_level_def split: option.splits)
  have lv: "?lv \<le> of_int (tb_burstSize tb)" "fl ?lv = ?lv"
    using tb_level_bounds [OF assms(1,2) clock_ok_now [OF assms(3)]] by simp_all
  have "(of_int (tb_burstSize tb) :: rat) < of_int 9007199254740992"
    using tb_okD(3) [OF assms(2)] by (simp only: of_int_less_iff)
  then have small: "?lv < 9007199254740992" using lv(1) by simp
  have "fl (?lv - fl (of_int n)) = ?lv - of_int n" if "n \<le> \<lfloor>?lv\<rfloor>"
  proof -
    have n: "of_int n \<le> ?lv" using that by (simp add: le_floor_iff)
    with small have "(of_int n :: rat) < of_int 9007199254740992" by simp
    then have "n < 9007199254740992" by (simp only: of_int_less_iff)
    then show ?thesis
      using fl_sub [OF assms(1) lv(2), of n] n small assms(4) by (simp add: fl_int [OF assms(1)])
  qed
  then show ?thesis
    using assms(4) fl_le_floor_iff [OF assms(1,4) small]
    by (auto simp: tb_AllowN_def burst tokens Let_def)
qed

lemma tb_ok_AllowN:
  assumes "fl_ok fl" "tb_ok fl tb t" "clock_ok t c"
  shows "tb_ok fl (fst (tb_AllowN fl tb c k n)) (c_now c)"
proof (cases "0 < n")
  case False
  then show ?thesis
    using tb_ok_later [OF assms(2) clock_ok_now [OF assms(3)]] by (simp add: tb_AllowN_def)
next
  case True
  let ?lv = "tb_level fl tb (c_now c) k"
  note lv = tb_level_bounds [OF assms(1,2) clock_ok_now [OF assms(3)], of k]
  have ok: "tb_ok fl (tb_periodic tb c) (c_now c)"
    using tb_ok_later [OF tb_ok_periodic [OF assms(2)] clock_ok_now [OF assms(3)]] .
  have "fl (?lv - of_int n) = ?lv - of_int n" if "n \<le> \<lfloor>?lv\<rfloor>"
  proof (rule fl_sub [OF assms(1) lv(3)])
    have "(of_int (tb_burstSize tb) :: rat) < of_int 9007199254740992"
      using tb_okD(3) [OF assms(2)] by (simp only: of_int_less_iff)
    then show "?lv \<le> 9007199254740992" using lv(2) by simp
  qed (use True that in \<open>simp_all add: le_floor_iff\<close>)
  then show ?thesis
    using lv True
    by (auto simp: tb_AllowN_eq [OF assms True] Let_def td_ok_def le_floor_iff
        intro!: tb_ok_put [OF ok])
qed

text \<open>One request: what is granted leaves the bucket.\<close>

lemma tb_level_AllowN:
  assumes "fl_ok fl" "tb_ok fl tb t" "clock_ok t c"
  shows "tb_level fl (fst (tb_AllowN fl tb c k' n)) (c_now c) k = tb_level fl tb (c_now c) k
    - of_int (if snd (tb_AllowN fl tb c k' n) \<and> k' = k \<and> 0 < n then n else 0)"
proof (cases "0 < n \<and> k' = k")
  case False
  then show ?thesis
    using tb_level_periodic [OF assms order_refl, of k]
    by (auto simp: tb_AllowN_def tb_level_put Let_def)
next
  case True
  let ?r = "fst (tb_AllowN fl tb c k n)" and ?lv = "tb_level fl tb (c_now c) k"
  let ?d = "\<lparr>td_tokens = ?lv - (if n \<le> \<lfloor>?lv\<rfloor> then of_int n else 0), td_lastRefil = c_now c\<rparr>"
  have r: "?r = tb_put (tb_periodic tb c) k ?d" "snd (tb_AllowN fl tb c k n) = (n \<le> \<lfloor>?lv\<rfloor>)"
    using tb_AllowN_eq [OF assms] True by (simp_all add: Let_def)
  have "map_of (tb_tokens ?r) k = Some ?d" unfolding r(1) by (simp add: tb_put_def map_of_AList_update)
  then have "td_ok fl (tb_burstSize ?r) (c_now c) ?d" by (rule tb_ok_lookup [OF tb_ok_AllowN [OF assms]])
  then have "tb_refill fl tb (c_now c) ?d = td_tokens ?d"
    using tb_refill_same [OF assms(1) _ assms(2), of "c_now c" ?d "c_now c"] by simp
  then have "tb_level fl ?r (c_now c) k = td_tokens ?d" unfolding r(1) by (simp add: tb_level_put)
  then show ?thesis using True r(2) by simp
qed

section \<open>The port\<close>

text \<open>The rounding is fixed: any that satisfies \<open>fl_ok\<close>.\<close>

lemma tb_port:
  assumes "fl_ok fl"
  shows "ports_limiter (tb_AllowN fl) (tb_Remaining fl) tb_Reset tb_burstSize (tb_ok fl) (\<lambda>tb n. True)"
proof unfold_locales
  fix tb :: token_bucket and c :: clock and k k' :: string and n m t t' u :: int
  show "n \<le> 0 \<Longrightarrow> tb_AllowN fl tb c k n = (tb, True)" by (simp add: tb_AllowN_def)
  show "tb_ok fl tb t \<Longrightarrow> clock_ok t c \<Longrightarrow> True \<Longrightarrow> tb_ok fl (fst (tb_AllowN fl tb c k n)) (c_now c)"
    using tb_ok_AllowN [OF assms] by blast
  show "tb_ok fl tb t \<Longrightarrow> tb_ok fl (tb_Reset tb k) t" by (rule tb_ok_Reset)
  show "tb_ok fl tb t \<Longrightarrow> t \<le> t' \<Longrightarrow> tb_ok fl tb t'" by (rule tb_ok_later)
  show "tb_burstSize (fst (tb_AllowN fl tb c k n)) = tb_burstSize tb"
    "tb_burstSize (tb_Reset tb k) = tb_burstSize tb" by simp_all
  show "tb_ok fl tb t \<Longrightarrow> 0 \<le> tb_Remaining fl tb t k \<and> tb_Remaining fl tb t k \<le> tb_burstSize tb"
    using tb_level_bounds [OF assms, of tb t t k]
    by (simp add: tb_Remaining_level [OF assms] floor_le_iff)
  show "tb_ok fl tb t \<Longrightarrow> t \<le> t' \<Longrightarrow> tb_Remaining fl tb t k \<le> tb_Remaining fl tb t' k"
    using tb_refill_later [OF assms, of tb t _ t t'] tb_ok_lookup [of fl tb t k]
    by (auto simp: tb_Remaining_level [OF assms] tb_level_def td_ok_def split: option.split
        intro!: floor_mono)
  show "tb_ok fl tb t \<Longrightarrow> clock_ok t c \<Longrightarrow> True \<Longrightarrow> 0 < n \<Longrightarrow>
      snd (tb_AllowN fl tb c k n) = (n \<le> tb_Remaining fl tb (c_now c) k)"
    by (simp add: tb_AllowN_eq [OF assms] tb_Remaining_level [OF assms] clock_ok_now Let_def)
  show "tb_ok fl tb t \<Longrightarrow> clock_ok t c \<Longrightarrow> True \<Longrightarrow> 0 < n \<Longrightarrow>
      tb_Remaining fl (fst (tb_AllowN fl tb c k n)) (c_now c) k =
        tb_Remaining fl tb (c_now c) k - (if snd (tb_AllowN fl tb c k n) then n else 0)"
    using tb_level_AllowN [OF assms, of tb t c k n k]
      tb_Remaining_level [OF assms tb_ok_AllowN [OF assms] order_refl, of tb t c k n k]
    by (simp add: tb_Remaining_level [OF assms] clock_ok_now)
  show "tb_ok fl tb t \<Longrightarrow> clock_ok t c \<Longrightarrow> True \<Longrightarrow> k' \<noteq> k \<Longrightarrow> c_now c \<le> u \<Longrightarrow>
      tb_Remaining fl (fst (tb_AllowN fl tb c k n)) u k' = tb_Remaining fl tb u k'"
  proof -
    assume a: "tb_ok fl tb t" "clock_ok t c" "k' \<noteq> k" "c_now c \<le> u"
    have "tb_level fl (fst (tb_AllowN fl tb c k n)) u k' = tb_level fl tb u k'"
      using tb_level_periodic [OF assms a(1,2,4)] a(3)
      by (simp add: tb_AllowN_def tb_level_put Let_def)
    moreover have "t \<le> u" using clock_ok_now [OF a(2)] a(4) by simp
    ultimately show ?thesis
      using tb_Remaining_level [OF assms tb_ok_AllowN [OF assms a(1,2)] a(4), of k n k']
        tb_Remaining_level [OF assms a(1), of u k'] by simp
  qed
  show "tb_ok fl tb t \<Longrightarrow> tb_Remaining fl (tb_Reset tb k) t k = tb_burstSize tb"
    by (simp add: tb_Remaining_level [OF assms tb_ok_Reset] tb_level_Reset)
  show "tb_ok fl tb t \<Longrightarrow> k' \<noteq> k \<Longrightarrow> tb_Remaining fl (tb_Reset tb k) t k' = tb_Remaining fl tb t k'"
    by (simp add: tb_Remaining_level [OF assms tb_ok_Reset] tb_Remaining_level [OF assms] tb_level_Reset)
qed simp_all

lemma tb_ok_New:
  assumes "fl_ok fl" "0 < rps" "1 \<le> burst" "burst < 9007199254740992" "of_int burst \<le> fl (3600 * rps)"
  shows "tb_ok fl (NewTokenBucket rps burst now) t"
  using assms by (simp add: tb_ok_def NewTokenBucket_def Let_def)

lemma tb_level_New [simp]: "tb_level fl (NewTokenBucket rps burst now) u k = of_int (tb_burstSize (NewTokenBucket rps burst now))"
  by (simp add: tb_level_def NewTokenBucket_def Let_def)

section \<open>The rate\<close>

text \<open>In exact arithmetic, between two instants a bucket gains at most the rate times the time.\<close>

lemma seconds_exact: "0 \<le> d \<Longrightarrow> seconds (\<lambda>x. x) d = of_int d / 1000000000"
proof -
  assume d: "0 \<le> d"
  have "(of_int d :: rat) = of_int (1000000000 * (d div 1000000000) + d mod 1000000000)" by simp
  then show ?thesis by (simp only: seconds_pos [OF d] of_int_add of_int_mult) (simp add: field_simps)
qed

lemma tb_refill_gain:
  assumes "0 < tb_rps tb" "td_lastRefil d \<le> u" "u \<le> u'"
  shows "tb_refill (\<lambda>x. x) tb u' d \<le> tb_refill (\<lambda>x. x) tb u d + tb_rps tb * of_int (u' - u) / 1000000000"
proof -
  let ?e = "\<lambda>v. seconds (\<lambda>x. x) (time_sub v (td_lastRefil d))"
  have "time_sub u' (td_lastRefil d) \<le> time_sub u (td_lastRefil d) + (u' - u)"
    using assms(3) unfolding time_sub_def max_def min_def by auto
  then have "(of_int (time_sub u' (td_lastRefil d)) :: rat)
      \<le> of_int (time_sub u (td_lastRefil d) + (u' - u))" by (simp only: of_int_le_iff)
  then have "?e u' \<le> ?e u + of_int (u' - u) / 1000000000"
    using assms(2,3) time_sub_nonneg [of "td_lastRefil d" u] time_sub_nonneg [of "td_lastRefil d" u']
    by (simp add: seconds_exact field_simps)
  then have "?e u' * tb_rps tb \<le> (?e u + of_int (u' - u) / 1000000000) * tb_rps tb"
    using assms(1) by (intro mult_right_mono) simp_all
  then have "?e u' * tb_rps tb \<le> ?e u * tb_rps tb + tb_rps tb * of_int (u' - u) / 1000000000"
    by (simp add: algebra_simps)
  moreover have "0 \<le> tb_rps tb * of_int (u' - u) / 1000000000"
    using assms(1,3) by simp
  ultimately show ?thesis unfolding tb_refill_def Let_def by (auto simp: not_less)
qed

lemma tb_level_gain:
  assumes "tb_ok (\<lambda>x. x) tb t" "t \<le> u"
  shows "tb_level (\<lambda>x. x) tb u k \<le> tb_level (\<lambda>x. x) tb t k + tb_rps tb * of_int (u - t) / 1000000000"
  using tb_okD(1) [OF assms(1)] tb_ok_lookup [OF assms(1), of k] tb_refill_gain [of tb _ t u] assms(2)
  by (auto simp: tb_level_def td_ok_def split: option.split)

lemma tb_rps_AllowN [simp]: "tb_rps (fst (tb_AllowN fl tb c k n)) = tb_rps tb"
  by (simp add: tb_AllowN_def Let_def)

text \<open>The cleanup drops a bucket that was last used an hour ago, also when it is not full by then.\<close>

lemma tb_early_cleanup:
  assumes "0 < rps" "1 \<le> burst"
  shows "granted k [(tick 0, k, burst), (tick (hour + 1), k, burst)]
      (snd (run_requests (tb_AllowN (\<lambda>x. x)) (NewTokenBucket rps burst 0) [(tick 0, k, burst), (tick (hour + 1), k, burst)])) = 2 * burst"
proof -
  let ?tb = "NewTokenBucket rps burst 0"
  let ?tb1 = "tb_put ?tb k \<lparr>td_tokens = 0, td_lastRefil = 0\<rparr>"
  have s: "tb_rps ?tb = rps" "tb_burstSize ?tb = burst" "tb_tokens ?tb = []" "tb_lastCleanupTime ?tb = 0" "tb_windowDuration ?tb = hour"
    using assms by (simp_all add: NewTokenBucket_def Let_def)
  have z: "seconds (\<lambda>x. x) (time_sub t t) = 0" for t by (simp add: time_sub_def i64_defs seconds_def)
  have 1: "tb_AllowN (\<lambda>x. x) ?tb (tick 0) k burst = (?tb1, True)"
    using assms z [of 0] by (simp add: tb_AllowN_def tb_periodic_def tb_refill_def s tick_def go_time time_sub_def i64_defs Let_def)
  have "\<exists>s2. tb_AllowN (\<lambda>x. x) ?tb1 (tick (hour + 1)) k burst = (s2, True)"
    using assms z [of "hour + 1"] by (simp add: tb_AllowN_def tb_periodic_def tb_cleanup_def tb_put_def tb_refill_def s tick_def go_time time_sub_def i64_defs Let_def)
  then show ?thesis using assms 1 by auto
qed
lemma tb_run_rate:
  assumes "tb_ok (\<lambda>x. x) tb t" "requests_ok t rs"
  shows "of_int (granted k rs (snd (run_requests (tb_AllowN (\<lambda>x. x)) tb rs)))
    \<le> tb_level (\<lambda>x. x) tb t k + tb_rps tb * of_int (last_now t rs - t) / 1000000000"
  using assms
proof (induction t rs arbitrary: tb rule: requests_ok.induct)
  case (1 t)
  then show ?case using tb_level_bounds(1) [OF fl_ok_exact "1.prems"(1) order_refl] by simp
next
  case (2 t c k' n rs)
  let ?tb = "fst (tb_AllowN (\<lambda>x. x) tb c k' n)"
  have c: "clock_ok t c" using "2.prems"(2) by simp
  have "of_int (granted k rs (snd (run_requests (tb_AllowN (\<lambda>x. x)) ?tb rs)))
      \<le> tb_level (\<lambda>x. x) ?tb (c_now c) k + tb_rps tb * of_int (last_now (c_now c) rs - c_now c) / 1000000000"
    using "2.IH" [of ?tb] tb_ok_AllowN [OF fl_ok_exact "2.prems"(1) c] "2.prems"(2) by simp
  moreover have "tb_level (\<lambda>x. x) tb (c_now c) k
      \<le> tb_level (\<lambda>x. x) tb t k + tb_rps tb * of_int (c_now c - t) / 1000000000"
    by (rule tb_level_gain [OF "2.prems"(1) clock_ok_now [OF c]])
  ultimately show ?case
    using tb_level_AllowN [OF fl_ok_exact "2.prems"(1) c, of k' n k]
    by (simp add: field_simps)
qed

section \<open>Properties\<close>

text \<open>
  C21. The rate a token bucket is named after, in exact arithmetic, for a bucket that an hour fills
  (\<open>tb_ok\<close>: the burst is at most 3600 times the rate, and below \<open>2 ^ 53\<close>): over any run of requests, what a
  key is granted is at most what its bucket held plus the rate times the time that passed. For a slower
  bucket this is false: whatever the rate, a key that has used its burst and comes back an hour later
  gets the whole burst again, since the cleanup drops a bucket that was last used an hour ago.
\<close>

theorem token_bucket_rate:
  assumes "tb_ok (\<lambda>x. x) tb t" "requests_ok t rs"
  shows "of_int (granted k rs (snd (run_requests (tb_AllowN (\<lambda>x. x)) tb rs)))
      \<le> tb_level (\<lambda>x. x) tb t k + tb_rps tb * of_int (last_now t rs - t) / 1000000000 \<and>
    (\<forall>rps burst k. 0 < rps \<longrightarrow> 1 \<le> burst \<longrightarrow>
       granted k [(tick 0, k, burst), (tick (hour + 1), k, burst)]
         (snd (run_requests (tb_AllowN (\<lambda>x. x)) (NewTokenBucket rps burst 0)
           [(tick 0, k, burst), (tick (hour + 1), k, burst)])) = 2 * burst)"
  using tb_run_rate [OF assms] tb_early_cleanup by blast

lemma token_bucket_rate_witness:
  "of_int (granted ''k'' [(tick 5, ''k'', 2), (tick 1000000000, ''k'', 2)]
     (snd (run_requests (tb_AllowN (\<lambda>x. x)) (NewTokenBucket 1 2 0) [(tick 5, ''k'', 2), (tick 1000000000, ''k'', 2)])))
   \<le> (3 :: rat)"
proof -
  have ok: "tb_ok (\<lambda>x. x) (NewTokenBucket 1 2 0) 0"
    by (rule tb_ok_New [OF fl_ok_exact]) simp_all
  show ?thesis
    using token_bucket_rate [OF ok, of "[(tick 5, ''k'', 2), (tick 1000000000, ''k'', 2)]" "''k''", THEN conjunct1]
    by (simp del: run_requests_Cons) (simp add: NewTokenBucket_def)
qed

end
