(* ===== verification/Limiter_Memory.thy ===== *)
theory Limiter_Memory
  imports Fixed_Window Sliding_Window Token_Bucket
begin

text \<open>
  adapters/limiter-memory/limiter-memory.go: the adapter chooses one of the three algorithms and
  checks the key. The interface value \<^verbatim>\<open>Limiter\<close> is a datatype with one constructor for each
  type that implements it.
\<close>

section \<open>The chosen algorithm\<close>

datatype limiter = LToken token_bucket | LSliding sliding_window | LFixed fixed_window

fun lim_AllowN :: "(rat \<Rightarrow> rat) \<Rightarrow> limiter \<Rightarrow> clock \<Rightarrow> string \<Rightarrow> int \<Rightarrow> limiter \<times> bool" where
  "lim_AllowN fl (LToken l) c key n = (let (l', b) = tb_AllowN fl l c key n in (LToken l', b))"
| "lim_AllowN fl (LSliding l) c key n = (let (l', b) = sw_AllowN l c key n in (LSliding l', b))"
| "lim_AllowN fl (LFixed l) c key n = (let (l', b) = fw_AllowN l c key n in (LFixed l', b))"

fun lim_Allow :: "(rat \<Rightarrow> rat) \<Rightarrow> limiter \<Rightarrow> clock \<Rightarrow> string \<Rightarrow> limiter \<times> bool" where
  "lim_Allow fl (LToken l) c key = (let (l', b) = tb_Allow fl l c key in (LToken l', b))"
| "lim_Allow fl (LSliding l) c key = (let (l', b) = sw_Allow l c key in (LSliding l', b))"
| "lim_Allow fl (LFixed l) c key = (let (l', b) = fw_Allow l c key in (LFixed l', b))"

fun lim_Remaining :: "(rat \<Rightarrow> rat) \<Rightarrow> limiter \<Rightarrow> int \<Rightarrow> string \<Rightarrow> int" where
  "lim_Remaining fl (LToken l) now key = tb_Remaining fl l now key"
| "lim_Remaining fl (LSliding l) now key = sw_Remaining l now key"
| "lim_Remaining fl (LFixed l) now key = fw_Remaining l now key"

fun lim_Reset :: "limiter \<Rightarrow> string \<Rightarrow> limiter" where
  "lim_Reset (LToken l) key = LToken (tb_Reset l key)"
| "lim_Reset (LSliding l) key = LSliding (sw_Reset l key)"
| "lim_Reset (LFixed l) key = LFixed (fw_Reset l key)"

fun lim_Health :: "limiter \<Rightarrow> unit res" where
  "lim_Health (LToken l) = tb_Health l"
| "lim_Health (LSliding l) = sw_Health l"
| "lim_Health (LFixed l) = fw_Health l"

section \<open>The adapter\<close>

record limiter_config =
  lc_Algorithm :: string
  lc_RequestsPerSecond :: rat
  lc_BurstSize :: int
  lc_Limit :: int
  lc_WindowSize :: int

record limiter_memory =
  lm_limiter :: limiter
  lm_algo :: string

definition AlgorithmTokenBucket :: string where "AlgorithmTokenBucket = ''token_bucket''"
definition AlgorithmSlidingWindow :: string where "AlgorithmSlidingWindow = ''sliding_window''"
definition AlgorithmFixedWindow :: string where "AlgorithmFixedWindow = ''fixed_window''"

text \<open>The text of the first error leaves out the number that \<^verbatim>\<open>%v\<close> formats.\<close>

definition NewLimiterMemory :: "(rat \<Rightarrow> rat) \<Rightarrow> limiter_config \<Rightarrow> int \<Rightarrow> limiter_memory res" where
  "NewLimiterMemory fl cfg now =
     (let algo = (if lc_Algorithm cfg = [] then AlgorithmTokenBucket else lc_Algorithm cfg);
          limit = (if lc_Limit cfg \<le> 0 then 10 else lc_Limit cfg);
          windowSize = (if lc_WindowSize cfg \<le> 0 then second else lc_WindowSize cfg)
      in if algo = AlgorithmTokenBucket
         then let rps = lc_RequestsPerSecond cfg
              in if rps < 0 then Err (NewErr ''RequestsPerSecond must be non-negative'')
                 else let rps = (if rps = 0 then 10 else rps);
                          burst = lc_BurstSize cfg;
                          burst = (if burst \<le> 0 then to_int64 (fl (rps * 2)) else burst)
                      in Ok \<lparr>lm_limiter = LToken (NewTokenBucket rps burst now), lm_algo = algo\<rparr>
         else if algo = AlgorithmSlidingWindow
         then Ok \<lparr>lm_limiter = LSliding (NewSlidingWindow limit windowSize now), lm_algo = algo\<rparr>
         else if algo = AlgorithmFixedWindow
         then Ok \<lparr>lm_limiter = LFixed (NewFixedWindow limit windowSize now), lm_algo = algo\<rparr>
         else Err (NewErr (''unknown algorithm: '' @ algo)))"

definition NewTokenBucketLimiter :: "(rat \<Rightarrow> rat) \<Rightarrow> rat \<Rightarrow> int \<Rightarrow> int \<Rightarrow> limiter_memory res" where
  "NewTokenBucketLimiter fl rps burstSize now =
     NewLimiterMemory fl \<lparr>lc_Algorithm = AlgorithmTokenBucket, lc_RequestsPerSecond = rps,
       lc_BurstSize = burstSize, lc_Limit = 0, lc_WindowSize = 0\<rparr> now"

definition NewSlidingWindowLimiter :: "(rat \<Rightarrow> rat) \<Rightarrow> int \<Rightarrow> int \<Rightarrow> int \<Rightarrow> limiter_memory res" where
  "NewSlidingWindowLimiter fl limit windowSize now =
     NewLimiterMemory fl \<lparr>lc_Algorithm = AlgorithmSlidingWindow, lc_RequestsPerSecond = 0,
       lc_BurstSize = 0, lc_Limit = limit, lc_WindowSize = windowSize\<rparr> now"

definition NewFixedWindowLimiter :: "(rat \<Rightarrow> rat) \<Rightarrow> int \<Rightarrow> int \<Rightarrow> int \<Rightarrow> limiter_memory res" where
  "NewFixedWindowLimiter fl limit windowSize now =
     NewLimiterMemory fl \<lparr>lc_Algorithm = AlgorithmFixedWindow, lc_RequestsPerSecond = 0,
       lc_BurstSize = 0, lc_Limit = limit, lc_WindowSize = windowSize\<rparr> now"

definition validateTenantKey :: "string \<Rightarrow> unit res" where
  "validateTenantKey key =
     (if key = [] then Err (NewErr ''tenant ID cannot be empty'')
      else if trim_space key = [] then Err (NewErr ''tenant ID cannot be whitespace only'')
      else Ok ())"

definition lm_Allow ::
  "(rat \<Rightarrow> rat) \<Rightarrow> limiter_memory \<Rightarrow> clock \<Rightarrow> string \<Rightarrow> limiter_memory \<times> bool res" where
  "lm_Allow fl l c key =
     (case validateTenantKey key of
        Ok _ \<Rightarrow> let (l', b) = lim_Allow fl (lm_limiter l) c key in (l\<lparr>lm_limiter := l'\<rparr>, Ok b)
      | Err e \<Rightarrow> (l, Err e)
      | Panic \<Rightarrow> (l, Panic))"

definition lm_AllowN ::
  "(rat \<Rightarrow> rat) \<Rightarrow> limiter_memory \<Rightarrow> clock \<Rightarrow> string \<Rightarrow> int \<Rightarrow> limiter_memory \<times> bool res" where
  "lm_AllowN fl l c key n =
     (case validateTenantKey key of
        Ok _ \<Rightarrow> let (l', b) = lim_AllowN fl (lm_limiter l) c key n in (l\<lparr>lm_limiter := l'\<rparr>, Ok b)
      | Err e \<Rightarrow> (l, Err e)
      | Panic \<Rightarrow> (l, Panic))"

definition lm_Remaining :: "(rat \<Rightarrow> rat) \<Rightarrow> limiter_memory \<Rightarrow> int \<Rightarrow> string \<Rightarrow> int res" where
  "lm_Remaining fl l now key = Ok (lim_Remaining fl (lm_limiter l) now key)"

definition lm_Reset :: "limiter_memory \<Rightarrow> string \<Rightarrow> limiter_memory" where
  "lm_Reset l key = l\<lparr>lm_limiter := lim_Reset (lm_limiter l) key\<rparr>"

definition lm_Health :: "limiter_memory \<Rightarrow> unit res" where
  "lm_Health l = lim_Health (lm_limiter l)"

section \<open>The port\<close>

fun lim_cap :: "limiter \<Rightarrow> int" where
  "lim_cap (LToken l) = tb_burstSize l"
| "lim_cap (LSliding l) = sw_limit l"
| "lim_cap (LFixed l) = fw_limit l"

fun lim_ok :: "(rat \<Rightarrow> rat) \<Rightarrow> limiter \<Rightarrow> int \<Rightarrow> bool" where
  "lim_ok fl (LToken l) t = tb_ok fl l t"
| "lim_ok fl (LSliding l) t = sw_ok l t"
| "lim_ok fl (LFixed l) t = fw_ok l t"

fun lim_fits :: "limiter \<Rightarrow> int \<Rightarrow> bool" where
  "lim_fits (LToken l) n = True"
| "lim_fits (LSliding l) n = sw_fits l n"
| "lim_fits (LFixed l) n = fw_fits l n"

lemma lim_AllowN_simps [simp]:
  "fst (lim_AllowN fl (LToken l) c key n) = LToken (fst (tb_AllowN fl l c key n))"
  "snd (lim_AllowN fl (LToken l) c key n) = snd (tb_AllowN fl l c key n)"
  "fst (lim_AllowN fl (LSliding m) c key n) = LSliding (fst (sw_AllowN m c key n))"
  "snd (lim_AllowN fl (LSliding m) c key n) = snd (sw_AllowN m c key n)"
  "fst (lim_AllowN fl (LFixed w) c key n) = LFixed (fst (fw_AllowN w c key n))"
  "snd (lim_AllowN fl (LFixed w) c key n) = snd (fw_AllowN w c key n)"
  by (simp_all add: split_beta)

lemma lim_Allow_AllowN: "lim_Allow fl l c key = lim_AllowN fl l c key 1"
  by (cases l) (simp_all add: tb_Allow_def sw_Allow_def fw_Allow_def)

text \<open>Each law of the port, by the algorithm in use.\<close>

lemma lim_port:
  assumes "fl_ok fl"
  shows "ports_limiter (lim_AllowN fl) (lim_Remaining fl) lim_Reset lim_cap (lim_ok fl) lim_fits"
proof unfold_locales
  fix l :: limiter and c :: clock and k k' :: string and n m t t' u :: int
  note tb = tb_port [OF assms]
  show "n \<le> 0 \<Longrightarrow> lim_AllowN fl l c k n = (l, True)"
    using ports_limiter.free [OF tb] fw.free sw.free by (cases l) (auto simp: split_beta)
  show "lim_ok fl l t \<Longrightarrow> clock_ok t c \<Longrightarrow> lim_fits l n \<Longrightarrow> lim_ok fl (fst (lim_AllowN fl l c k n)) (c_now c)"
    using ports_limiter.inv_allowN [OF tb] fw.inv_allowN sw.inv_allowN by (cases l) (auto simp: split_beta)
  show "lim_ok fl l t \<Longrightarrow> lim_ok fl (lim_Reset l k) t"
    using ports_limiter.inv_reset [OF tb] fw.inv_reset sw.inv_reset by (cases l) (auto simp: split_beta)
  show "lim_ok fl l t \<Longrightarrow> t \<le> t' \<Longrightarrow> lim_ok fl l t'"
    using ports_limiter.inv_later [OF tb] fw.inv_later sw.inv_later by (cases l) (auto simp: split_beta)
  show "lim_fits (fst (lim_AllowN fl l c k n)) m = lim_fits l m"
    using ports_limiter.fits_allowN [OF tb] fw.fits_allowN sw.fits_allowN by (cases l) (auto simp: split_beta)
  show "lim_cap (fst (lim_AllowN fl l c k n)) = lim_cap l"
    using ports_limiter.cap_allowN [OF tb] fw.cap_allowN sw.cap_allowN by (cases l) (auto simp: split_beta)
  show "lim_cap (lim_Reset l k) = lim_cap l"
    using ports_limiter.cap_reset [OF tb] fw.cap_reset sw.cap_reset by (cases l) (auto simp: split_beta)
  show "lim_ok fl l t \<Longrightarrow> 0 \<le> lim_Remaining fl l t k \<and> lim_Remaining fl l t k \<le> lim_cap l"
    using ports_limiter.remaining_bounds [OF tb] fw.remaining_bounds sw.remaining_bounds by (cases l) (auto simp: split_beta)
  show "lim_ok fl l t \<Longrightarrow> t \<le> t' \<Longrightarrow> lim_Remaining fl l t k \<le> lim_Remaining fl l t' k"
    using ports_limiter.remaining_later [OF tb] fw.remaining_later sw.remaining_later by (cases l) (auto simp: split_beta)
  show "lim_ok fl l t \<Longrightarrow> clock_ok t c \<Longrightarrow> lim_fits l n \<Longrightarrow> 0 < n \<Longrightarrow>
      snd (lim_AllowN fl l c k n) = (n \<le> lim_Remaining fl l (c_now c) k)"
    using ports_limiter.decides [OF tb] fw.decides sw.decides by (cases l) (auto simp: split_beta)
  show "lim_ok fl l t \<Longrightarrow> clock_ok t c \<Longrightarrow> lim_fits l n \<Longrightarrow> 0 < n \<Longrightarrow>
      lim_Remaining fl (fst (lim_AllowN fl l c k n)) (c_now c) k =
        lim_Remaining fl l (c_now c) k - (if snd (lim_AllowN fl l c k n) then n else 0)"
    using ports_limiter.consumes [OF tb] fw.consumes sw.consumes by (cases l) (auto simp: split_beta)
  show "lim_ok fl l t \<Longrightarrow> clock_ok t c \<Longrightarrow> lim_fits l n \<Longrightarrow> k' \<noteq> k \<Longrightarrow> c_now c \<le> u \<Longrightarrow>
      lim_Remaining fl (fst (lim_AllowN fl l c k n)) u k' = lim_Remaining fl l u k'"
    using ports_limiter.isolates [OF tb] fw.isolates sw.isolates by (cases l) (auto simp: split_beta)
  show "lim_ok fl l t \<Longrightarrow> lim_Remaining fl (lim_Reset l k) t k = lim_cap l"
    using ports_limiter.reset_full [OF tb] fw.reset_full sw.reset_full by (cases l) (auto simp: split_beta)
  show "lim_ok fl l t \<Longrightarrow> k' \<noteq> k \<Longrightarrow> lim_Remaining fl (lim_Reset l k) t k' = lim_Remaining fl l t k'"
    using ports_limiter.reset_other [OF tb] fw.reset_other sw.reset_other by (cases l) (auto simp: split_beta)
qed


section \<open>Properties\<close>

text \<open>The bucket a configuration asks for, when no burst or no rate is given.\<close>

definition config_rps :: "limiter_config \<Rightarrow> rat" where
  "config_rps cfg = (if lc_RequestsPerSecond cfg = 0 then 10 else lc_RequestsPerSecond cfg)"

definition config_burst :: "(rat \<Rightarrow> rat) \<Rightarrow> limiter_config \<Rightarrow> int" where
  "config_burst fl cfg =
     (if lc_BurstSize cfg \<le> 0 then to_int64 (fl (config_rps cfg * 2)) else lc_BurstSize cfg)"

text \<open>
  The configurations whose limiter behaves: the counters do not overflow, a window is over after
  the day its counts are kept, a bucket is full after the hour it is kept.
\<close>

definition config_ok :: "(rat \<Rightarrow> rat) \<Rightarrow> limiter_config \<Rightarrow> bool" where
  "config_ok fl cfg \<longleftrightarrow>
     lc_Limit cfg \<le> max_i64 \<and> lc_WindowSize cfg \<le> 24 * hour \<and> 1 \<le> config_burst fl cfg \<and>
     config_burst fl cfg < 9007199254740992 \<and> of_int (config_burst fl cfg) \<le> fl (3600 * config_rps cfg)"

lemma fresh_window [simp]:
  "fw_Remaining (NewFixedWindow limit sz now) t k = fw_limit (NewFixedWindow limit sz now)"
  "sw_Remaining (NewSlidingWindow limit sz now) t k = sw_limit (NewSlidingWindow limit sz now)"
  "tb_Remaining fl (NewTokenBucket rps burst now) t k = tb_burstSize (NewTokenBucket rps burst now)"
  by (simp_all add: fw_Remaining_def NewFixedWindow_def sw_Remaining_def NewSlidingWindow_def
      tb_Remaining_def NewTokenBucket_def Let_def)

lemma new_caps [simp]:
  "fw_limit (NewFixedWindow limit sz now) = max 1 limit" "sw_limit (NewSlidingWindow limit sz now) = max 1 limit"
  "1 \<le> burst \<Longrightarrow> tb_burstSize (NewTokenBucket rps burst now) = burst"
  by (simp_all add: NewFixedWindow_def NewSlidingWindow_def NewTokenBucket_def Let_def)

text \<open>
  A limiter made from such a configuration, with any of the three algorithms, starts in its
  invariant, and every key has the full amount.
\<close>

theorem new_limiter_ok:
  assumes "fl_ok fl" "config_ok fl cfg" "NewLimiterMemory fl cfg now = Ok l"
  shows "lim_ok fl (lm_limiter l) t \<and> (\<forall>k. lim_Remaining fl (lm_limiter l) t k = lim_cap (lm_limiter l)) \<and>
    1 \<le> lim_cap (lm_limiter l) \<and>
    lm_algo l = (if lc_Algorithm cfg = [] then AlgorithmTokenBucket else lc_Algorithm cfg)"
proof -
  let ?rps = "config_rps cfg" and ?burst = "config_burst fl cfg"
  let ?limit = "if lc_Limit cfg \<le> 0 then 10 else lc_Limit cfg"
  let ?sz = "if lc_WindowSize cfg \<le> 0 then second else lc_WindowSize cfg"
  have b: "1 \<le> ?burst" "?burst < 9007199254740992" "of_int ?burst \<le> fl (3600 * ?rps)"
    and s: "?limit \<le> max_i64" "?sz \<le> 24 * hour"
    using assms(2) by (auto simp: config_ok_def max_i64_def go_time)
  consider (token) "0 < ?rps" "lm_limiter l = LToken (NewTokenBucket ?rps ?burst now)"
    | (sliding) "lm_limiter l = LSliding (NewSlidingWindow ?limit ?sz now)"
    | (fixed) "lm_limiter l = LFixed (NewFixedWindow ?limit ?sz now)"
    using assms(3) by (auto simp: NewLimiterMemory_def Let_def config_rps_def config_burst_def split: if_splits)
  then have "lim_ok fl (lm_limiter l) t \<and> (\<forall>k. lim_Remaining fl (lm_limiter l) t k = lim_cap (lm_limiter l)) \<and>
      1 \<le> lim_cap (lm_limiter l)"
  proof cases
    case token
    then show ?thesis
      using tb_ok_New [OF assms(1) token(1) b, of now t] b(1) by simp
  next
    case sliding
    then show ?thesis using sw_ok_New [OF s, of now t] by simp
  next
    case fixed
    then show ?thesis using fw_ok_New [OF s, of now t] by simp
  qed
  moreover have "lm_algo l = (if lc_Algorithm cfg = [] then AlgorithmTokenBucket else lc_Algorithm cfg)"
    using assms(3) by (auto simp: NewLimiterMemory_def Let_def split: if_splits)
  ultimately show ?thesis by blast
qed

definition default_limiter :: limiter_config where
  "default_limiter = \<lparr>lc_Algorithm = [], lc_RequestsPerSecond = 0, lc_BurstSize = 0, lc_Limit = 0, lc_WindowSize = 0\<rparr>"

lemma default_limiter_new:
  "NewLimiterMemory (\<lambda>x. x) default_limiter 0 =
     Ok \<lparr>lm_limiter = LToken (NewTokenBucket 10 20 0), lm_algo = AlgorithmTokenBucket\<rparr>"
  by (simp add: NewLimiterMemory_def default_limiter_def to_int64_def Let_def)

lemma default_limiter_ok: "config_ok (\<lambda>x. x) default_limiter"
  by (simp add: config_ok_def default_limiter_def config_burst_def config_rps_def to_int64_def go_time max_i64_def)

lemma new_limiter_ok_witness:
  "\<exists>l. NewLimiterMemory (\<lambda>x. x) default_limiter 0 = Ok l \<and> lim_ok (\<lambda>x. x) (lm_limiter l) 0 \<and>
     lim_Remaining (\<lambda>x. x) (lm_limiter l) 0 ''acme'' = 20"
  using new_limiter_ok [OF fl_ok_exact default_limiter_ok default_limiter_new, of 0] default_limiter_new
  by simp

text \<open>
  The states of a limiter made from a configuration, and the time of each: requests with a key the
  adapter accepts or refuses, of amounts that do not overflow the counters, resets, and time.
\<close>

inductive lm_reach :: "(rat \<Rightarrow> rat) \<Rightarrow> limiter_config \<Rightarrow> limiter_memory \<Rightarrow> int \<Rightarrow> bool" for fl cfg where
  new: "NewLimiterMemory fl cfg now = Ok l \<Longrightarrow> lm_reach fl cfg l now"
| allow: "lm_reach fl cfg l t \<Longrightarrow> clock_ok t c \<Longrightarrow> n \<le> max_i64 - lim_cap (lm_limiter l) \<Longrightarrow>
    lm_reach fl cfg (fst (lm_AllowN fl l c key n)) (c_now c)"
| reset: "lm_reach fl cfg l t \<Longrightarrow> lm_reach fl cfg (lm_Reset l key) t"
| wait: "lm_reach fl cfg l t \<Longrightarrow> t \<le> t' \<Longrightarrow> lm_reach fl cfg l t'"

lemma lim_fits_cap: "n \<le> max_i64 - lim_cap l \<Longrightarrow> lim_fits l n"
  by (cases l) (simp_all add: sw_fits_def fw_fits_def)

lemma lm_reach_ok:
  assumes "lm_reach fl cfg l t" "fl_ok fl" "config_ok fl cfg"
  shows "lim_ok fl (lm_limiter l) t"
  using assms(1)
proof induction
  case (new now l)
  then show ?case using new_limiter_ok [OF assms(2,3)] by blast
next
  case (allow l t c n key)
  note port = lim_port [OF assms(2)]
  have "lim_ok fl (fst (lim_AllowN fl (lm_limiter l) c key n)) (c_now c)"
    by (rule ports_limiter.inv_allowN [OF port allow.IH allow.hyps(2) lim_fits_cap [OF allow.hyps(3)]])
  moreover have "lim_ok fl (lm_limiter l) (c_now c)"
    by (rule ports_limiter.inv_later [OF port allow.IH clock_ok_now [OF allow.hyps(2)]])
  ultimately show ?case by (simp add: lm_AllowN_def split_beta Let_def split: res.split)
next
  case (reset l t key)
  then show ?case using ports_limiter.inv_reset [OF lim_port [OF assms(2)]] by (simp add: lm_Reset_def)
next
  case (wait l t t')
  then show ?case using ports_limiter.inv_later [OF lim_port [OF assms(2)]] by blast
qed

text \<open>
  C22. One request to the adapter, with any of the three algorithms, at any point of its use: it is granted
  exactly if the amount is still left for its key, a grant takes the amount away and a refusal nothing,
  and no other key loses or gains anything, now or later. The conditions: the configuration
  is one whose cleanup forgets nothing that counts (\<open>config_ok\<close>: a window of at most 24 hours, a burst of at most
  3600 times the rate, from 1 to below \<open>2 ^ 53\<close>), all amounts are at most the largest \<^verbatim>\<open>int64\<close> minus the limit (for more
  the sum of the windows wraps around and the request is granted), clocks do not run backwards, and rounding
  is that of binary64 as far as \<open>fl_ok\<close> says. C20 and C21 show what happens with other configurations.
\<close>

theorem limiter_decision:
  assumes "fl_ok fl" "config_ok fl cfg" "lm_reach fl cfg l t" "clock_ok t c" "n \<le> max_i64 - lim_cap (lm_limiter l)" "0 < n"
    "trim_space key \<noteq> []"
  shows "\<exists>l' b. lm_AllowN fl l c key n = (l', Ok b) \<and>
    b = (n \<le> lim_Remaining fl (lm_limiter l) (c_now c) key) \<and>
    lim_Remaining fl (lm_limiter l') (c_now c) key =
      lim_Remaining fl (lm_limiter l) (c_now c) key - (if b then n else 0) \<and>
    (\<forall>k u. k \<noteq> key \<longrightarrow> c_now c \<le> u \<longrightarrow>
       lim_Remaining fl (lm_limiter l') u k = lim_Remaining fl (lm_limiter l) u k)"
proof -
  let ?r = "lim_AllowN fl (lm_limiter l) c key n"
  note port = lim_port [OF assms(1)]
  note ok = lm_reach_ok [OF assms(3,1,2)] assms(4) lim_fits_cap [OF assms(5)]
  have "key \<noteq> []" using assms(7) by (auto simp: trim_space_def trim_by_def)
  then have "lm_AllowN fl l c key n = (l\<lparr>lm_limiter := fst ?r\<rparr>, Ok (snd ?r))"
    using assms(7) by (simp add: lm_AllowN_def validateTenantKey_def split_beta Let_def)
  moreover have "snd ?r = (n \<le> lim_Remaining fl (lm_limiter l) (c_now c) key)"
    by (rule ports_limiter.decides [OF port ok assms(6)])
  moreover have "lim_Remaining fl (fst ?r) (c_now c) key =
      lim_Remaining fl (lm_limiter l) (c_now c) key - (if snd ?r then n else 0)"
    by (rule ports_limiter.consumes [OF port ok assms(6)])
  moreover have "\<forall>k u. k \<noteq> key \<longrightarrow> c_now c \<le> u \<longrightarrow>
      lim_Remaining fl (fst ?r) u k = lim_Remaining fl (lm_limiter l) u k"
    using ports_limiter.isolates [OF port ok] by blast
  ultimately show ?thesis by simp
qed

text \<open>The limiters of the witnesses: the default one, and a fixed window of two in a second.\<close>

definition two_a_second :: limiter_config where
  "two_a_second = default_limiter\<lparr>lc_Algorithm := AlgorithmFixedWindow, lc_Limit := 2\<rparr>"

definition two_limiter :: limiter_memory where
  "two_limiter = \<lparr>lm_limiter = LFixed (NewFixedWindow 2 second 0), lm_algo = AlgorithmFixedWindow\<rparr>"

lemma two_reach: "config_ok (\<lambda>x. x) two_a_second" "lm_reach (\<lambda>x. x) two_a_second two_limiter 0"
  "lim_cap (lm_limiter two_limiter) = 2"
proof -
  show "config_ok (\<lambda>x. x) two_a_second"
    by (simp add: two_a_second_def config_ok_def default_limiter_def config_burst_def config_rps_def to_int64_def go_time max_i64_def)
  have "NewLimiterMemory (\<lambda>x. x) two_a_second 0 = Ok two_limiter"
    by (simp add: NewLimiterMemory_def two_a_second_def default_limiter_def two_limiter_def Let_def
        AlgorithmFixedWindow_def AlgorithmTokenBucket_def AlgorithmSlidingWindow_def)
  then show "lm_reach (\<lambda>x. x) two_a_second two_limiter 0" by (rule lm_reach.new)
  show "lim_cap (lm_limiter two_limiter) = 2" by (simp add: two_limiter_def)
qed

lemma limiter_decision_witness:
  "\<exists>l' b. lm_AllowN (\<lambda>x. x) two_limiter (tick 5) ''acme'' 3 = (l', Ok b) \<and> \<not> b \<and>
     lim_Remaining (\<lambda>x. x) (lm_limiter l') 5 ''acme'' = 2"
proof -
  have k: "trim_space ''acme'' \<noteq> []" by code_simp
  have "lim_Remaining (\<lambda>x. x) (lm_limiter two_limiter) 5 ''acme'' = 2" by (simp add: two_limiter_def)
  then show ?thesis
    using limiter_decision [OF fl_ok_exact two_reach(1,2), of "tick 5" 3 "''acme''"] two_reach(3) k
    by (auto simp: max_i64_def)
qed

text \<open>
  A burst: of all the requests made at one instant, whatever their keys, amounts and order, the
  grants to a key add up to at most what was left for it, and so to at most the limit.
\<close>

theorem limiter_burst:
  assumes "fl_ok fl" "lim_ok fl s t" "requests_ok t rs" "\<forall>(c, k', n) \<in> set rs. lim_fits s n" "t \<le> u"
    "\<forall>(c, k', n) \<in> set rs. c_now c = u"
  shows "granted k rs (snd (run_requests (lim_AllowN fl) s rs)) \<le> lim_Remaining fl s u k \<and>
    lim_Remaining fl s u k \<le> lim_cap s"
proof -
  note port = lim_port [OF assms(1)]
  have "lim_ok fl s u" by (rule ports_limiter.inv_later [OF port assms(2,5)])
  then show ?thesis
    using ports_limiter.run_instant_bound [OF port assms(2-6)] ports_limiter.remaining_bounds [OF port] by blast
qed

lemma limiter_burst_witness:
  "granted ''acme'' [(tick 5, ''acme'', 3), (tick 5, ''globex'', 2), (tick 5, ''acme'', 2)]
     (snd (run_requests (lim_AllowN (\<lambda>x. x)) (LToken (NewTokenBucket 1 4 0))
       [(tick 5, ''acme'', 3), (tick 5, ''globex'', 2), (tick 5, ''acme'', 2)])) \<le> 4"
proof -
  have ok: "lim_ok (\<lambda>x. x) (LToken (NewTokenBucket 1 4 0)) 0"
    by (simp add: tb_ok_New [OF fl_ok_exact])
  show ?thesis
    using limiter_burst [OF fl_ok_exact ok, of "[(tick 5, ''acme'', 3), (tick 5, ''globex'', 2), (tick 5, ''acme'', 2)]" 5 "''acme''"]
    by (simp del: run_requests_Cons)
qed

section \<open>Recovery\<close>







text \<open>The exact arithmetic is one instance of the port.\<close>

interpretation exact: ports_limiter "lim_AllowN (\<lambda>x. x)" "lim_Remaining (\<lambda>x. x)" lim_Reset lim_cap
  "lim_ok (\<lambda>x. x)" lim_fits
  by (rule lim_port [OF fl_ok_exact])

end
