(* ===== verification/Http_Middleware.thy ===== *)
theory Http_Middleware
  imports Http_Resolver Tenant_Context Limiter_Memory
begin

text \<open>
  adapters/http-stdlib: the tenant middleware (middleware.go), the helpers on the request context
  (context.go), the rate limit middleware (middleware_ratelimit.go) and the option and timeout
  values (ratelimit_config.go, timeout_config.go). The \<^verbatim>\<open>http.ResponseWriter\<close> is a record; a
  handler takes it and the request to the writer it leaves behind, or panics.
\<close>

section \<open>Responses\<close>

text \<open>\<open>rw_code\<close> is 0 until the status is written; only the first \<^verbatim>\<open>WriteHeader\<close> counts.\<close>

record response =
  rw_header :: "(string \<times> string) list"
  rw_code :: int
  rw_body :: string

type_synonym handler = "response \<Rightarrow> request \<Rightarrow> response res"

definition Header_Set :: "string \<Rightarrow> string \<Rightarrow> response \<Rightarrow> response" where
  "Header_Set k v w = w\<lparr>rw_header := AList.update (canonical_key k) v (rw_header w)\<rparr>"

definition WriteHeader :: "int \<Rightarrow> response \<Rightarrow> response" where
  "WriteHeader status w = (if rw_code w = 0 then w\<lparr>rw_code := status\<rparr> else w)"

definition http_Error :: "response \<Rightarrow> string \<Rightarrow> int \<Rightarrow> response" where
  "http_Error w msg status =
     (let w = w\<lparr>rw_header := AList.delete ''Content-Length'' (rw_header w)\<rparr>;
          w = Header_Set ''Content-Type'' ''text/plain; charset=utf-8'' w;
          w = Header_Set ''X-Content-Type-Options'' ''nosniff'' w;
          w = WriteHeader status w
      in w\<lparr>rw_body := rw_body w @ msg @ [CHR 0x0A]\<rparr>)"

section \<open>The tenant of a request (context.go)\<close>

definition GetTenantContext :: "request \<Rightarrow> dcontext res" where
  "GetTenantContext r =
     (case FromGoContext (Some (rq_ctx r)) of
        Err e \<Rightarrow> Err (WrapErr ''tenant context not found in request: '' e [])
      | x \<Rightarrow> x)"

definition GetTenantID :: "request \<Rightarrow> string res" where
  "GetTenantID r =
     (case FromGoContext (Some (rq_ctx r)) of
        Err e \<Rightarrow> Err (WrapErr ''tenant context not found in request: '' e [])
      | Panic \<Rightarrow> Panic
      | Ok tc \<Rightarrow> Ok (tid_value (dc_tenantID tc)))"

definition MustGetTenantID :: "request \<Rightarrow> string res" where
  "MustGetTenantID r = (case GetTenantID r of Ok t \<Rightarrow> Ok t | _ \<Rightarrow> Panic)"

definition MustGetTenantContext :: "request \<Rightarrow> dcontext res" where
  "MustGetTenantContext r = (case GetTenantContext r of Ok c \<Rightarrow> Ok c | _ \<Rightarrow> Panic)"

definition WithTenantID :: "request \<Rightarrow> string \<Rightarrow> int \<Rightarrow> request res" where
  "WithTenantID r tenantID now =
     res_bind (NewContext tenantID ''system'' ''http-context'' now) (\<lambda>tc.
       Ok (r\<lparr>rq_ctx := ToGoContext tc (rq_ctx r)\<rparr>))"

section \<open>The tenant middleware (middleware.go)\<close>

type_synonym error_handler = "response \<Rightarrow> request \<Rightarrow> go_error \<Rightarrow> response res"

definition DefaultErrorHandler :: error_handler where
  "DefaultErrorHandler w r e = Ok (http_Error w (''tenant resolution failed: '' @ error_string e) 400)"

text \<open>\<open>resolve\<close> is the \<^verbatim>\<open>Resolve\<close> method of the interface value; nil is \<open>None\<close>.\<close>

record mw_config =
  mc_Resolver :: "(request \<Rightarrow> string res) option"
  mc_OnError :: "error_handler option"
  mc_SkipPaths :: "string list"

definition NewMiddleware :: "mw_config \<Rightarrow> mw_config res" where
  "NewMiddleware cfg =
     (if mc_Resolver cfg = None then Err (NewErr ''resolver is required in middleware config'')
      else Ok (if mc_OnError cfg = None then cfg\<lparr>mc_OnError := Some DefaultErrorHandler\<rparr> else cfg))"

definition shouldSkip :: "string list \<Rightarrow> string \<Rightarrow> bool" where
  "shouldSkip skipPaths path = list_ex (\<lambda>p. path = p) skipPaths"

text \<open>A nil function called is a panic; \<open>now\<close> is the clock reading of \<open>NewContext\<close>.\<close>

definition mw_Handler :: "mw_config \<Rightarrow> int \<Rightarrow> handler \<Rightarrow> handler" where
  "mw_Handler cfg now next w r =
     (if shouldSkip (mc_SkipPaths cfg) (rq_Path r) then next w r
      else case (mc_Resolver cfg, mc_OnError cfg) of
        (Some resolve, Some onError) \<Rightarrow>
          (case resolve r of
             Err e \<Rightarrow> onError w r e
           | Panic \<Rightarrow> Panic
           | Ok tenantID \<Rightarrow>
              (case NewContext tenantID ''system'' ''http-request'' now of
                 Err e \<Rightarrow> onError w r (WrapErr ''failed to create tenant context: '' e [])
               | Panic \<Rightarrow> Panic
               | Ok tc \<Rightarrow> next w (r\<lparr>rq_ctx := ToGoContext tc (rq_ctx r)\<rparr>)))
      | _ \<Rightarrow> Panic)"

definition mw_HandlerFunc :: "mw_config \<Rightarrow> int \<Rightarrow> handler \<Rightarrow> handler" where
  "mw_HandlerFunc cfg now next w r = mw_Handler cfg now next w r"

section \<open>Rate limit options (ratelimit_config.go)\<close>

record rl_options =
  LimitPerWindow :: int
  ResetWindow :: int

definition DefaultRateLimitOptions :: rl_options where
  "DefaultRateLimitOptions = \<lparr>LimitPerWindow = 100, ResetWindow = 1 * minute\<rparr>"

definition StrictRateLimitOptions :: rl_options where
  "StrictRateLimitOptions = \<lparr>LimitPerWindow = 30, ResetWindow = 1 * minute\<rparr>"

definition GenerousRateLimitOptions :: rl_options where
  "GenerousRateLimitOptions = \<lparr>LimitPerWindow = 500, ResetWindow = 1 * minute\<rparr>"

definition PerSecondRateLimitOptions :: rl_options where
  "PerSecondRateLimitOptions = \<lparr>LimitPerWindow = 10, ResetWindow = 1 * second\<rparr>"

definition CustomRateLimitOptions :: "int \<Rightarrow> int \<Rightarrow> rl_options" where
  "CustomRateLimitOptions limitPerWindow resetWindow =
     \<lparr>LimitPerWindow = (if limitPerWindow \<le> 0 then 100 else limitPerWindow),
      ResetWindow = (if resetWindow \<le> 0 then 1 * minute else resetWindow)\<rparr>"

section \<open>The rate limit middleware (middleware_ratelimit.go)\<close>

type_synonym limit_handler = "response \<Rightarrow> request \<Rightarrow> int \<Rightarrow> int \<Rightarrow> response res"

text \<open>\<^verbatim>\<open>resetTime.Unix()\<close> is the whole seconds.\<close>

definition DefaultRateLimitErrorHandler :: limit_handler where
  "DefaultRateLimitErrorHandler w r remaining resetTime =
     (let w = Header_Set ''X-RateLimit-Remaining'' (int_str remaining) w;
          w = Header_Set ''X-RateLimit-Reset'' (int_str (resetTime div 1000000000)) w
      in Ok (http_Error w ''rate limit exceeded'' 429))"

text \<open>The \<^verbatim>\<open>ports.Limiter\<close> of the configuration: its \<^verbatim>\<open>Allow\<close> and \<^verbatim>\<open>Remaining\<close> on a state \<open>'l\<close>.\<close>

record 'l rl_port =
  lp_Allow :: "'l \<Rightarrow> clock \<Rightarrow> go_ctx \<Rightarrow> string \<Rightarrow> 'l \<times> bool res"
  lp_Remaining :: "'l \<Rightarrow> int \<Rightarrow> go_ctx \<Rightarrow> string \<Rightarrow> int"

record 'l rl_config =
  rc_Limiter :: "'l rl_port option"
  rc_KeyExtractor :: "(request \<Rightarrow> string) option"
  rc_OnLimitExceeded :: "limit_handler option"
  rc_SkipPaths :: "string list"
  rc_Options :: "rl_options option"

definition defaultKeyExtractor :: "request \<Rightarrow> string" where
  "defaultKeyExtractor r =
     (case GetTenantID r of
        Ok tenantID \<Rightarrow> if tenantID \<noteq> [] then tenantID else rq_RemoteAddr r
      | _ \<Rightarrow> rq_RemoteAddr r)"

definition or_default :: "'a option \<Rightarrow> 'a \<Rightarrow> 'a option" where
  "or_default x d = (case x of None \<Rightarrow> Some d | Some y \<Rightarrow> Some y)"

definition NewRateLimitMiddleware :: "'l rl_config \<Rightarrow> 'l rl_config res" where
  "NewRateLimitMiddleware cfg =
     (case rc_Limiter cfg of
        None \<Rightarrow> Err (NewErr ''limiter is required in rate limit config'')
      | Some _ \<Rightarrow>
          Ok (cfg\<lparr>rc_OnLimitExceeded := or_default (rc_OnLimitExceeded cfg) DefaultRateLimitErrorHandler,
                  rc_KeyExtractor := or_default (rc_KeyExtractor cfg) defaultKeyExtractor,
                  rc_Options := or_default (rc_Options cfg) DefaultRateLimitOptions\<rparr>))"

text \<open>
  The readings of the clock: those of \<^verbatim>\<open>Allow\<close>, the one of \<^verbatim>\<open>Remaining\<close> and the one for the reset
  time. The result is the limiter's state and the response. An error of the limiter lets the
  request through; the line it prints is left out.
\<close>

definition rl_Handler ::
  "'l rl_config \<Rightarrow> clock \<Rightarrow> int \<Rightarrow> int \<Rightarrow> handler \<Rightarrow> 'l \<Rightarrow> response \<Rightarrow> request \<Rightarrow> 'l \<times> response res" where
  "rl_Handler cfg c now2 now3 next l w r =
     (if shouldSkip (rc_SkipPaths cfg) (rq_Path r) then (l, next w r)
      else case (rc_Limiter cfg, rc_KeyExtractor cfg, rc_OnLimitExceeded cfg, rc_Options cfg) of
        (Some p, Some keyOf, Some onLimit, Some opts) \<Rightarrow>
          (let key = keyOf r in
           case lp_Allow p l c (rq_ctx r) key of
             (l, Err e) \<Rightarrow> (l, next w r)
           | (l, Panic) \<Rightarrow> (l, Panic)
           | (l, Ok allowed) \<Rightarrow>
               let remaining = lp_Remaining p l now2 (rq_ctx r) key in
               if \<not> allowed then (l, onLimit w r remaining (now3 + ResetWindow opts))
               else let w = Header_Set ''X-RateLimit-Remaining'' (int_str remaining) w;
                        w = Header_Set ''X-RateLimit-Limit'' (int_str (LimitPerWindow opts)) w
                    in (l, next w r))
      | _ \<Rightarrow> (l, Panic))"

definition rl_HTTPHandler where
  "rl_HTTPHandler = rl_Handler"

text \<open>\<open>LimiterMemory\<close> as the limiter of the configuration.\<close>

definition lm_port :: "(rat \<Rightarrow> rat) \<Rightarrow> limiter_memory rl_port" where
  "lm_port fl = \<lparr>lp_Allow = (\<lambda>l c ctx key. lm_Allow fl l c key),
                 lp_Remaining = (\<lambda>l now ctx key. lim_Remaining fl (lm_limiter l) now key)\<rparr>"

section \<open>Timeouts (timeout_config.go)\<close>

record request_timeout =
  ReadTimeout :: int
  WriteTimeout :: int
  IdleTimeout :: int
  RequestContextTimeout :: int

record timeout_config =
  RequestTimeout :: request_timeout
  DefaultContextTimeout :: int
  DatabaseQueryTimeout :: int
  BackgroundTaskTimeout :: int

definition DefaultRequestTimeoutConfig :: request_timeout where
  "DefaultRequestTimeoutConfig =
     \<lparr>ReadTimeout = 30 * second, WriteTimeout = 30 * second, IdleTimeout = 120 * second,
      RequestContextTimeout = 60 * second\<rparr>"

definition FastRequestTimeoutConfig :: request_timeout where
  "FastRequestTimeoutConfig =
     \<lparr>ReadTimeout = 10 * second, WriteTimeout = 10 * second, IdleTimeout = 30 * second,
      RequestContextTimeout = 15 * second\<rparr>"

definition RelaxedRequestTimeoutConfig :: request_timeout where
  "RelaxedRequestTimeoutConfig =
     \<lparr>ReadTimeout = 300 * second, WriteTimeout = 300 * second, IdleTimeout = 600 * second,
      RequestContextTimeout = 600 * second\<rparr>"

text \<open>A non-positive duration is replaced by a default.\<close>

definition dur_or :: "int \<Rightarrow> int \<Rightarrow> int" where
  "dur_or d x = (if x \<le> 0 then d else x)"

definition CustomRequestTimeoutConfig :: "int \<Rightarrow> int \<Rightarrow> int \<Rightarrow> int \<Rightarrow> request_timeout" where
  "CustomRequestTimeoutConfig readT writeT idleT contextT =
     \<lparr>ReadTimeout = dur_or (30 * second) readT, WriteTimeout = dur_or (30 * second) writeT,
      IdleTimeout = dur_or (120 * second) idleT, RequestContextTimeout = dur_or (60 * second) contextT\<rparr>"

definition DefaultTimeoutConfig :: timeout_config where
  "DefaultTimeoutConfig =
     \<lparr>RequestTimeout = DefaultRequestTimeoutConfig, DefaultContextTimeout = 30 * second,
      DatabaseQueryTimeout = 30 * second, BackgroundTaskTimeout = 5 * minute\<rparr>"

definition FastTimeoutConfig :: timeout_config where
  "FastTimeoutConfig =
     \<lparr>RequestTimeout = FastRequestTimeoutConfig, DefaultContextTimeout = 10 * second,
      DatabaseQueryTimeout = 10 * second, BackgroundTaskTimeout = 1 * minute\<rparr>"

definition RelaxedTimeoutConfig :: timeout_config where
  "RelaxedTimeoutConfig =
     \<lparr>RequestTimeout = RelaxedRequestTimeoutConfig, DefaultContextTimeout = 120 * second,
      DatabaseQueryTimeout = 120 * second, BackgroundTaskTimeout = 30 * minute\<rparr>"

definition CustomTimeoutConfig :: "request_timeout option \<Rightarrow> int \<Rightarrow> int \<Rightarrow> int \<Rightarrow> timeout_config" where
  "CustomTimeoutConfig rt ctxT dbT bgT =
     \<lparr>RequestTimeout = (case rt of None \<Rightarrow> DefaultRequestTimeoutConfig | Some r \<Rightarrow> r),
      DefaultContextTimeout = dur_or (30 * second) ctxT,
      DatabaseQueryTimeout = dur_or (30 * second) dbT,
      BackgroundTaskTimeout = dur_or (5 * minute) bgT\<rparr>"

section \<open>What the handlers behind the middleware see\<close>

lemma GetTenantID_ToGoContext:
  "tid_value (dc_tenantID tc) \<noteq> [] \<Longrightarrow>
     GetTenantID (r\<lparr>rq_ctx := ToGoContext tc ctx\<rparr>) = Ok (tid_value (dc_tenantID tc))"
  by (simp add: GetTenantID_def FromGoContext_ToGoContext)

context resolver_port
begin

text \<open>
  A request that is not skipped is answered by the error handler, or it reaches the next handler
  with the identifier the resolver named, in lower case and valid.
\<close>

lemma guarded:
  assumes "\<not> shouldSkip (mc_SkipPaths cfg) (rq_Path r)" "mc_Resolver cfg = Some resolve"
    "mc_OnError cfg = Some onError"
  shows "(\<exists>t r'. resolve r = Ok t \<and> mw_Handler cfg now next w r = next w r' \<and>
            GetTenantID r' = Ok (to_lower t) \<and> valid_id (to_lower t) \<and>
            shouldBypass (rq_ctx r') = shouldBypass (rq_ctx r)) \<or>
         (\<exists>e. mw_Handler cfg now next w r = onError w r e)"
proof (cases "resolve r")
  case (Err e)
  then show ?thesis using assms by (auto simp: mw_Handler_def)
next
  case Panic
  then show ?thesis using safe by simp
next
  case (Ok t)
  show ?thesis
  proof (cases "NewContext t ''system'' ''http-request'' now")
    case (Err e)
    then show ?thesis using assms Ok by (auto simp: mw_Handler_def)
  next
    case Panic
    then show ?thesis using NewContext_no_panic by simp
  next
    case (Ok tc)
    then have tid: "NewTenantID t = Ok (dc_tenantID tc)" by (auto simp: NewContext_Ok_iff)
    then have v: "tid_value (dc_tenantID tc) = to_lower t" by (auto simp: NewTenantID_Ok_iff)
    have v': "valid_id (to_lower t)" using NewTenantID_valid [OF tid] v by simp
    have n: "tid_value (dc_tenantID tc) \<noteq> []" by (rule NewContext_tenant_nonempty [OF Ok])
    have "mw_Handler cfg now next w r = next w (r\<lparr>rq_ctx := ToGoContext tc (rq_ctx r)\<rparr>)"
      using assms Ok \<open>resolve r = Ok t\<close> by (simp add: mw_Handler_def)
    moreover have "GetTenantID (r\<lparr>rq_ctx := ToGoContext tc (rq_ctx r)\<rparr>) = Ok (to_lower t)"
      using GetTenantID_ToGoContext [OF n] v by simp
    moreover have "shouldBypass (rq_ctx (r\<lparr>rq_ctx := ToGoContext tc (rq_ctx r)\<rparr>)) = shouldBypass (rq_ctx r)"
      by simp
    ultimately show ?thesis using \<open>resolve r = Ok t\<close> v' by metis
  qed
qed

end


section \<open>Properties\<close>

text \<open>
  C31. Behind the tenant middleware there is always a tenant: with any resolver that cannot panic, a
  request that is not on a skipped path is answered by the error handler, or it reaches the next
  handler with the identifier that was resolved, in lower case and valid, and the bypass flag it had.
\<close>

theorem middleware_guards:
  assumes "resolver_safe rs" "mc_Resolver cfg = Some (Resolve rs)" "mc_OnError cfg = Some onError"
    "\<not> shouldSkip (mc_SkipPaths cfg) (rq_Path r)"
  shows "(\<exists>t r'. Resolve rs r = Ok t \<and> mw_Handler cfg now next w r = next w r' \<and>
            GetTenantID r' = Ok (to_lower t) \<and> valid_id (to_lower t) \<and>
            shouldBypass (rq_ctx r') = shouldBypass (rq_ctx r)) \<or>
         (\<exists>e. mw_Handler cfg now next w r = onError w r e)"
  by (rule resolver_port.guarded [OF Resolve_port [OF assms(1)] assms(4,2,3)])

definition empty_response :: response where
  "empty_response = \<lparr>rw_header = [], rw_code = 0, rw_body = []\<rparr>"

definition header_middleware :: mw_config where
  "header_middleware = \<lparr>mc_Resolver = Some (Resolve (NewHeaderResolver [])), mc_OnError = Some DefaultErrorHandler,
     mc_SkipPaths = [''/health'']\<rparr>"

lemma middleware_guards_witness:
  "\<exists>e. mw_Handler header_middleware 0 (\<lambda>w r. Panic) empty_response sample_request =
     DefaultErrorHandler empty_response sample_request e"
proof -
  have s: "resolver_safe (NewHeaderResolver [])" by (simp add: NewHeaderResolver_def)
  have m: "mc_Resolver header_middleware = Some (Resolve (NewHeaderResolver []))"
    "mc_OnError header_middleware = Some DefaultErrorHandler" by (simp_all add: header_middleware_def)
  have p: "\<not> shouldSkip (mc_SkipPaths header_middleware) (rq_Path sample_request)" by code_simp
  have k: "canonical_key ''X-Tenant-ID'' = ''X-Tenant-Id''" by code_simp
  have n: "Resolve (NewHeaderResolver []) sample_request \<noteq> Ok t" for t
    by (simp add: NewHeaderResolver_def resolve_header_def Header_Get_def k sample_request_def)
  show ?thesis using middleware_guards [OF s m p, of 0 "\<lambda>w r. Panic" empty_response] n by blast
qed

text \<open>The middleware over the in-memory limiter, with its defaults.\<close>

definition memory_rl :: "(rat \<Rightarrow> rat) \<Rightarrow> string list \<Rightarrow> rl_options option \<Rightarrow> limiter_memory rl_config" where
  "memory_rl fl skip opts =
     \<lparr>rc_Limiter = Some (lm_port fl), rc_KeyExtractor = None, rc_OnLimitExceeded = None,
      rc_SkipPaths = skip, rc_Options = opts\<rparr>"

lemma memory_rl_new:
  "NewRateLimitMiddleware (memory_rl fl skip opts) =
     Ok \<lparr>rc_Limiter = Some (lm_port fl), rc_KeyExtractor = Some defaultKeyExtractor,
         rc_OnLimitExceeded = Some DefaultRateLimitErrorHandler, rc_SkipPaths = skip,
         rc_Options = Some (case opts of None \<Rightarrow> DefaultRateLimitOptions | Some o' \<Rightarrow> o')\<rparr>"
  by (simp add: NewRateLimitMiddleware_def memory_rl_def or_default_def split: option.split)

lemma lm_Allow_AllowN: "lm_Allow fl l c key = lm_AllowN fl l c key 1"
  by (cases "validateTenantKey key") (simp_all add: lm_Allow_def lm_AllowN_def lim_Allow_AllowN)

text \<open>
  The rate limit middleware serves a request exactly if its key, the tenant or else the remote
  address, has at least one request left; a served request takes one, a refused one none, and is
  answered with status 429.
\<close>

theorem rate_limit_decides:
  assumes "fl_ok fl" "NewRateLimitMiddleware (memory_rl fl skip opts) = Ok cfg" "lim_ok fl (lm_limiter l) t"
    "clock_ok t c" "lim_fits (lm_limiter l) 1" "\<not> shouldSkip skip (rq_Path r)"
    "trim_space (defaultKeyExtractor r) \<noteq> []"
  shows "\<exists>l' w'. rl_Handler cfg c now2 now3 next l w r =
      (l', if 1 \<le> lim_Remaining fl (lm_limiter l) (c_now c) (defaultKeyExtractor r) then next w' r else Ok w') \<and>
    (lim_Remaining fl (lm_limiter l) (c_now c) (defaultKeyExtractor r) < 1 \<and> rw_code w = 0 \<longrightarrow> rw_code w' = 429) \<and>
    lim_Remaining fl (lm_limiter l') (c_now c) (defaultKeyExtractor r) =
      lim_Remaining fl (lm_limiter l) (c_now c) (defaultKeyExtractor r)
      - (if 1 \<le> lim_Remaining fl (lm_limiter l) (c_now c) (defaultKeyExtractor r) then 1 else 0)"
proof -
  let ?key = "defaultKeyExtractor r" and ?a = "lim_AllowN fl (lm_limiter l) c (defaultKeyExtractor r) 1"
  note port = lim_port [OF assms(1)]
  have k: "?key \<noteq> []" using assms(7) by (auto simp: trim_space_def trim_by_def)
  then have a: "lm_Allow fl l c ?key = (l\<lparr>lm_limiter := fst ?a\<rparr>, Ok (snd ?a))"
    using assms(7) by (simp add: lm_Allow_AllowN lm_AllowN_def validateTenantKey_def split_beta Let_def)
  have d: "snd ?a = (1 \<le> lim_Remaining fl (lm_limiter l) (c_now c) ?key)"
    by (rule ports_limiter.decides [OF port assms(3-5)]) simp
  have r: "lim_Remaining fl (fst ?a) (c_now c) ?key =
      lim_Remaining fl (lm_limiter l) (c_now c) ?key - (if snd ?a then 1 else 0)"
    by (rule ports_limiter.consumes [OF port assms(3-5)]) simp
  have cfg: "cfg = \<lparr>rc_Limiter = Some (lm_port fl), rc_KeyExtractor = Some defaultKeyExtractor,
         rc_OnLimitExceeded = Some DefaultRateLimitErrorHandler, rc_SkipPaths = skip,
         rc_Options = Some (case opts of None \<Rightarrow> DefaultRateLimitOptions | Some o' \<Rightarrow> o')\<rparr>"
    using assms(2) by (simp add: memory_rl_new)
  show ?thesis
    using assms(6) d r
    by (auto simp: rl_Handler_def cfg lm_port_def a DefaultRateLimitErrorHandler_def http_Error_def
        Header_Set_def WriteHeader_def Let_def)
qed

definition one_left :: limiter_memory where
  "one_left = \<lparr>lm_limiter = LFixed (NewFixedWindow 1 second 0), lm_algo = AlgorithmFixedWindow\<rparr>"

lemma sample_key: "defaultKeyExtractor sample_request = ''10.0.0.1:99''"
  by (simp add: defaultKeyExtractor_def GetTenantID_def sample_request_def background_def FromGoContext_def)

lemma rate_limit_decides_witness:
  "\<exists>cfg l' w'. NewRateLimitMiddleware (memory_rl (\<lambda>x. x) [] None) = Ok cfg \<and>
     rl_Handler cfg (tick 5) 5 5 (\<lambda>w r. Ok w) one_left empty_response sample_request = (l', Ok w') \<and>
     lim_Remaining (\<lambda>x. x) (lm_limiter l') 5 ''10.0.0.1:99'' = 0"
proof -
  have ok: "lim_ok (\<lambda>x. x) (lm_limiter one_left) 0"
    by (simp add: one_left_def fw_ok_New max_i64_def go_time)
  have f: "lim_fits (lm_limiter one_left) 1"
    by (simp add: one_left_def fw_fits_def NewFixedWindow_def max_i64_def go_time)
  have c: "clock_ok 0 (tick 5)" "\<not> shouldSkip [] (rq_Path sample_request)" by (simp_all add: shouldSkip_def)
  have k: "trim_space (defaultKeyExtractor sample_request) \<noteq> []"
    unfolding sample_key by code_simp
  have r: "lim_Remaining (\<lambda>x. x) (lm_limiter one_left) 5 ''10.0.0.1:99'' = 1"
    by (simp add: one_left_def)
  show ?thesis
    using rate_limit_decides [OF fl_ok_exact memory_rl_new ok c(1) f c(2) k, of None 5 5 "\<lambda>w r. Ok w" empty_response]
      r memory_rl_new [of "\<lambda>x. x" "[]" None]
    by (auto simp: sample_key)
qed

text \<open>
  The rate limit middleware fails open: whenever the limiter reports an error, whatever it is,
  the request is served.
\<close>

theorem rate_limit_fails_open:
  assumes "NewRateLimitMiddleware cfg0 = Ok cfg" "rc_Limiter cfg0 = Some p" "rc_KeyExtractor cfg0 = Some keyOf"
    "lp_Allow p l c (rq_ctx r) (keyOf r) = (l', Err e)" "\<not> shouldSkip (rc_SkipPaths cfg0) (rq_Path r)"
  shows "rl_Handler cfg c now2 now3 next l w r = (l', next w r)"
proof -
  have "cfg = cfg0\<lparr>rc_OnLimitExceeded := or_default (rc_OnLimitExceeded cfg0) DefaultRateLimitErrorHandler,
      rc_KeyExtractor := or_default (rc_KeyExtractor cfg0) defaultKeyExtractor,
      rc_Options := or_default (rc_Options cfg0) DefaultRateLimitOptions\<rparr>"
    using assms(1,2) by (simp add: NewRateLimitMiddleware_def)
  then show ?thesis
    using assms by (auto simp: rl_Handler_def or_default_def split: option.splits)
qed

lemma rate_limit_fails_open_witness:
  "\<exists>cfg. NewRateLimitMiddleware ((memory_rl (\<lambda>x. x) [] None)\<lparr>rc_KeyExtractor := Some (\<lambda>r. '' '')\<rparr>) = Ok cfg \<and>
     rl_Handler cfg (tick 5) 5 5 (\<lambda>w r. Ok w) one_left empty_response sample_request = (one_left, Ok empty_response)"
proof -
  let ?cfg0 = "(memory_rl (\<lambda>x. x) [] None)\<lparr>rc_KeyExtractor := Some (\<lambda>r. '' '')\<rparr>"
  obtain cfg where n: "NewRateLimitMiddleware ?cfg0 = Ok cfg"
    by (simp add: NewRateLimitMiddleware_def memory_rl_def)
  have l: "rc_Limiter ?cfg0 = Some (lm_port (\<lambda>x. x))" "rc_KeyExtractor ?cfg0 = Some (\<lambda>r. '' '')"
    "\<not> shouldSkip (rc_SkipPaths ?cfg0) (rq_Path sample_request)"
    by (simp_all add: memory_rl_def shouldSkip_def)
  have v: "validateTenantKey '' '' = Err (NewErr ''tenant ID cannot be whitespace only'')" by code_simp
  have a: "lp_Allow (lm_port (\<lambda>x. x)) one_left (tick 5) (rq_ctx sample_request) ((\<lambda>r. '' '') sample_request) =
      (one_left, Err (NewErr ''tenant ID cannot be whitespace only''))"
    by (simp add: lm_port_def lm_Allow_def v)
  show ?thesis using rate_limit_fails_open [OF n l(1,2) a l(3), of 5 5 "\<lambda>w r. Ok w" empty_response] n by blast
qed

end
