(* ===== verification/Quota_Memory.thy ===== *)
theory Quota_Memory
  imports Tenant_Domain
begin

text \<open>
  adapters/quota-memory/quota_manager.go. The maps are association lists; the mutex makes a
  method one atomic step. A method that reads the clock takes its readings as arguments, in the
  order it takes them. The additions of the counters are 64-bit and wrap around. The fields
  \<^verbatim>\<open>resets\<close> and the policy type are never used by the code and are left out.
\<close>

section \<open>State\<close>

record quota_usage =
  qu_used :: int
  qu_limit :: int
  qu_period :: string
  qu_start :: int

record quota_manager =
  qm_limits :: "(string \<times> int) list"
  qm_usage :: "(string \<times> quota_usage) list"
  qm_lastRun :: "(string \<times> int) list"

definition NewInMemoryQuotaManager :: quota_manager where
  "NewInMemoryQuotaManager =
     \<lparr>qm_limits = [(''api_requests_monthly'', 100000), (''api_requests_daily'', 5000),
                   (''database_rows'', 1000000), (''storage_bytes'', 1073741824)],
      qm_usage = [], qm_lastRun = []\<rparr>"

definition getTenantIDFromContext :: "go_ctx \<Rightarrow> string" where
  "getTenantIDFromContext ctx =
     (case FromGoContext (Some ctx) of
        Ok tenantCtx \<Rightarrow> tid_value (dc_tenantID tenantCtx)
      | _ \<Rightarrow> ''default-tenant'')"

definition quota_key :: "string \<Rightarrow> string \<Rightarrow> string" where
  "quota_key tenantID quotaType = tenantID @ '':'' @ quotaType"

definition getPeriodForQuotaType :: "string \<Rightarrow> string" where
  "getPeriodForQuotaType quotaType =
     (if quotaType = ''api_requests_daily'' then ''daily''
      else if quotaType = ''api_requests_monthly'' then ''monthly''
      else ''short'')"

definition shouldResetQuota :: "quota_usage \<Rightarrow> int \<Rightarrow> bool" where
  "shouldResetQuota usage since =
     (let elapsed = since - qu_start usage in
      if qu_period usage = ''short'' then 100 * millisecond \<le> elapsed
      else if qu_period usage = ''daily'' then 24 * hour \<le> elapsed
      else if qu_period usage = ''monthly'' then 30 * 24 * hour \<le> elapsed
      else False)"

section \<open>Operations\<close>

definition CheckQuota :: "quota_manager \<Rightarrow> go_ctx \<Rightarrow> string \<Rightarrow> int \<Rightarrow> bool res" where
  "CheckQuota q ctx quotaType amount =
     (if amount < 0 then Err (NewErr ''amount must be non-negative'')
      else let key = quota_key (getTenantIDFromContext ctx) quotaType in
           case map_of (qm_limits q) quotaType of
             None \<Rightarrow> Err (NewErr (''unknown quota type: '' @ quotaType))
           | Some limit \<Rightarrow>
              (case map_of (qm_usage q) key of
                 None \<Rightarrow> Ok (amount \<le> limit)
               | Some usage \<Rightarrow> Ok (add64 (qu_used usage) amount \<le> qu_limit usage)))"

text \<open>The usage a \<^verbatim>\<open>ConsumeQuota\<close> works on: a new one, or the old one, reset if its period is over.\<close>

definition current_usage :: "quota_manager \<Rightarrow> string \<Rightarrow> string \<Rightarrow> int \<Rightarrow> int \<Rightarrow> quota_usage" where
  "current_usage q key quotaType since now =
     (case map_of (qm_usage q) key of
        None \<Rightarrow>
          let limit = (case map_of (qm_limits q) quotaType of Some l \<Rightarrow> l | None \<Rightarrow> 9223372036854775807)
          in \<lparr>qu_used = 0, qu_limit = limit, qu_period = getPeriodForQuotaType quotaType, qu_start = now\<rparr>
      | Some usage \<Rightarrow>
          if shouldResetQuota usage since then usage\<lparr>qu_used := 0, qu_start := now\<rparr> else usage)"

definition put_usage :: "quota_manager \<Rightarrow> string \<Rightarrow> quota_usage \<Rightarrow> quota_manager" where
  "put_usage q key usage = q\<lparr>qm_usage := AList.update key usage (qm_usage q)\<rparr>"

definition ConsumeQuota ::
  "quota_manager \<Rightarrow> int \<Rightarrow> int \<Rightarrow> go_ctx \<Rightarrow> string \<Rightarrow> int \<Rightarrow> quota_manager \<times> int res" where
  "ConsumeQuota q since now ctx quotaType amount =
     (if amount < 0 then (q, Err (NewErr ''amount must be non-negative''))
      else let key = quota_key (getTenantIDFromContext ctx) quotaType;
               usage = current_usage q key quotaType since now
           in if qu_limit usage < add64 (qu_used usage) amount
              then (put_usage q key usage, Err ErrQuotaExceeded)
              else let newUsed = add64 (qu_used usage) amount
                   in (put_usage q key (usage\<lparr>qu_used := newUsed\<rparr>),
                       Ok (sub64 (qu_limit usage) newUsed)))"

text \<open>A map lookup of a missing key is 0.\<close>

definition GetUsage :: "quota_manager \<Rightarrow> go_ctx \<Rightarrow> string \<Rightarrow> int \<times> int" where
  "GetUsage q ctx quotaType =
     (case map_of (qm_usage q) (quota_key (getTenantIDFromContext ctx) quotaType) of
        None \<Rightarrow> (0, case map_of (qm_limits q) quotaType of Some l \<Rightarrow> l | None \<Rightarrow> 0)
      | Some usage \<Rightarrow> (qu_used usage, qu_limit usage))"

definition ResetQuota :: "quota_manager \<Rightarrow> int \<Rightarrow> int \<Rightarrow> go_ctx \<Rightarrow> string \<Rightarrow> quota_manager" where
  "ResetQuota q now now' ctx quotaType =
     (let key = quota_key (getTenantIDFromContext ctx) quotaType in
      case map_of (qm_usage q) key of
        None \<Rightarrow> q
      | Some usage \<Rightarrow>
          (put_usage q key (usage\<lparr>qu_used := 0, qu_start := now\<rparr>))
            \<lparr>qm_lastRun := AList.update quotaType now' (qm_lastRun q)\<rparr>)"

definition SetLimit :: "quota_manager \<Rightarrow> go_ctx \<Rightarrow> string \<Rightarrow> int \<Rightarrow> quota_manager \<times> unit res" where
  "SetLimit q ctx quotaType limit =
     (if limit \<le> 0 then (q, Err (NewErr ''limit must be positive''))
      else let key = quota_key (getTenantIDFromContext ctx) quotaType;
               q' = q\<lparr>qm_limits := AList.update quotaType limit (qm_limits q)\<rparr>
           in case map_of (qm_usage q) key of
                Some usage \<Rightarrow> (put_usage q' key (usage\<lparr>qu_limit := limit\<rparr>), Ok ())
              | None \<Rightarrow> (q', Ok ()))"

text \<open>Each reset reads the clock twice; \<open>ts\<close> holds the pairs of readings.\<close>

fun BulkResetQuotas :: "quota_manager \<Rightarrow> (int \<times> int) list \<Rightarrow> go_ctx \<Rightarrow> string list \<Rightarrow> quota_manager" where
  "BulkResetQuotas q ((now, now') # ts) ctx (qt # qts) =
     BulkResetQuotas (ResetQuota q now now' ctx qt) ts ctx qts"
| "BulkResetQuotas q _ ctx _ = q"

definition GetAllQuotas :: "quota_manager \<Rightarrow> go_ctx \<Rightarrow> (string \<times> int \<times> int) list" where
  "GetAllQuotas q ctx =
     (let tenantID = getTenantIDFromContext ctx in
      map (\<lambda>(quotaType, limit).
             case map_of (qm_usage q) (quota_key tenantID quotaType) of
               Some usage \<Rightarrow> (quotaType, qu_used usage, limit)
             | None \<Rightarrow> (quotaType, 0, limit))
        (qm_limits q))"

text \<open>\<^verbatim>\<open>TotalQuotaTypes\<close>, \<^verbatim>\<open>ActiveQuotas\<close> and \<^verbatim>\<open>TotalUsage\<close>.\<close>

definition GetStats :: "quota_manager \<Rightarrow> nat \<times> nat \<times> int" where
  "GetStats q =
     (length (qm_limits q), length (qm_usage q),
      foldl (\<lambda>total (key, usage). add64 total (qu_used usage)) 0 (qm_usage q))"

section \<open>Keys\<close>

text \<open>A tenant identifier has no colon, so a key determines the tenant and the quota type.\<close>

lemma quota_key_inj:
  "CHR '':'' \<notin> set t \<Longrightarrow> CHR '':'' \<notin> set t' \<Longrightarrow>
     quota_key t a = quota_key t' b \<longleftrightarrow> t = t' \<and> a = b"
  unfolding quota_key_def
  by (induction t arbitrary: t') (force simp: append_eq_Cons_conv Cons_eq_append_conv)+

section \<open>One call\<close>

definition qu_ok :: "quota_usage \<Rightarrow> bool" where
  "qu_ok u \<longleftrightarrow> 0 \<le> qu_used u \<and> qu_used u \<le> max_i64 \<and> 0 < qu_limit u \<and> qu_limit u \<le> max_i64"

text \<open>Every limit and every counter is at most \<open>L\<close>, and no key occurs twice.\<close>

definition qm_within :: "int \<Rightarrow> quota_manager \<Rightarrow> bool" where
  "qm_within L q \<longleftrightarrow>
     (\<forall>(t, l) \<in> set (qm_limits q). 0 < l \<and> l \<le> L) \<and>
     (\<forall>(k, u) \<in> set (qm_usage q). 0 \<le> qu_used u \<and> qu_used u \<le> L \<and> 0 < qu_limit u \<and> qu_limit u \<le> L) \<and>
     distinct (map fst (qm_limits q)) \<and> distinct (map fst (qm_usage q))"

lemma qm_within_New: "1073741824 \<le> L \<Longrightarrow> qm_within L NewInMemoryQuotaManager"
  by (simp add: qm_within_def NewInMemoryQuotaManager_def)

lemma qm_within_usage:
  "qm_within L q \<Longrightarrow> map_of (qm_usage q) k = Some u \<Longrightarrow>
     0 \<le> qu_used u \<and> qu_used u \<le> L \<and> 0 < qu_limit u \<and> qu_limit u \<le> L"
  by (auto simp: qm_within_def dest!: map_of_SomeD)

lemma qm_within_limit: "qm_within L q \<Longrightarrow> map_of (qm_limits q) t = Some l \<Longrightarrow> 0 < l \<and> l \<le> L"
  by (auto simp: qm_within_def dest!: map_of_SomeD)

text \<open>A quota type without a limit gets the largest \<^verbatim>\<open>int64\<close>: the type must have one.\<close>

lemma current_usage_within:
  assumes "qm_within L q" "map_of (qm_limits q) t \<noteq> None"
  shows "0 \<le> qu_used (current_usage q k t since now) \<and> qu_used (current_usage q k t since now) \<le> L \<and>
    0 < qu_limit (current_usage q k t since now) \<and> qu_limit (current_usage q k t since now) \<le> L"
  using qm_within_usage [OF assms(1), of k] qm_within_limit [OF assms(1), of t] assms(2)
  by (auto simp: current_usage_def Let_def split: option.splits)

lemma qm_within_put:
  "qm_within L q \<Longrightarrow> 0 \<le> qu_used u \<Longrightarrow> qu_used u \<le> L \<Longrightarrow> 0 < qu_limit u \<Longrightarrow> qu_limit u \<le> L \<Longrightarrow>
     qm_within L (put_usage q k u)"
  using set_AList_update_subset [of k u "qm_usage q"]
  by (auto simp: qm_within_def put_usage_def distinct_update)

lemma put_usage_lookup:
  "map_of (qm_usage (put_usage q k u)) k' = (if k' = k then Some u else map_of (qm_usage q) k')"
  "qm_limits (put_usage q k u) = qm_limits q" "qm_lastRun (put_usage q k u) = qm_lastRun q"
  by (simp_all add: put_usage_def map_of_AList_update)

text \<open>A call that does not overflow, in one equation.\<close>

lemma ConsumeQuota_eq:
  assumes "qu_ok u" "0 \<le> amount"
    "u = current_usage q (quota_key (getTenantIDFromContext ctx) t) t since now"
    "qu_used u + amount \<le> max_i64"
  shows "ConsumeQuota q since now ctx t amount =
    (if qu_used u + amount \<le> qu_limit u
     then (put_usage q (quota_key (getTenantIDFromContext ctx) t) (u\<lparr>qu_used := qu_used u + amount\<rparr>),
           Ok (qu_limit u - qu_used u - amount))
     else (put_usage q (quota_key (getTenantIDFromContext ctx) t) u, Err ErrQuotaExceeded))"
proof -
  have "in_i64 (qu_used u + amount)" "in_i64 (qu_limit u - (qu_used u + amount))"
    using assms(1,2,4) by (auto simp: qu_ok_def i64_defs)
  then show ?thesis
    using assms(2) by (auto simp: ConsumeQuota_def assms(3) [symmetric] Let_def)
qed

text \<open>A call whose sum does overflow is granted, and the counter becomes negative.\<close>

lemma ConsumeQuota_overflow:
  assumes "qu_ok u" "amount \<le> max_i64" "max_i64 < qu_used u + amount"
    "u = current_usage q (quota_key (getTenantIDFromContext ctx) t) t since now"
  shows "(\<exists>left. snd (ConsumeQuota q since now ctx t amount) = Ok left) \<and>
    fst (GetUsage (fst (ConsumeQuota q since now ctx t amount)) ctx t) < 0"
proof -
  have n: "0 < amount" "qu_used u + amount - 2 ^ 64 \<in> {- (2 ^ 63)..<0}"
    using assms(1-3) by (auto simp: qu_ok_def i64_defs)
  then have "(qu_used u + amount + 2 ^ 63 - 2 ^ 64) mod 2 ^ 64 = qu_used u + amount + 2 ^ 63 - 2 ^ 64"
    by (intro mod_pos_pos_trivial) auto
  then have "wrap64 (qu_used u + amount) = qu_used u + amount - 2 ^ 64"
    unfolding wrap64_def minus_mod_self2 by simp
  moreover have "\<not> qu_limit u < qu_used u + amount - 2 ^ 64" using n(2) assms(1) by (auto simp: qu_ok_def)
  ultimately show ?thesis
    using n by (simp add: ConsumeQuota_def assms(4) [symmetric] add64_def Let_def GetUsage_def
        put_usage_def map_of_AList_update)
qed

lemma qm_within_ConsumeQuota:
  assumes "qm_within L q" "map_of (qm_limits q) t \<noteq> None" "amount \<le> max_i64 - L"
  shows "qm_within L (fst (ConsumeQuota q since now ctx t amount))"
proof (cases "0 \<le> amount")
  case False
  then show ?thesis using assms(1) by (simp add: ConsumeQuota_def)
next
  case True
  let ?u = "current_usage q (quota_key (getTenantIDFromContext ctx) t) t since now"
  note u = current_usage_within [OF assms(1,2), of "quota_key (getTenantIDFromContext ctx) t" since now]
  have "qu_ok ?u" "qu_used ?u + amount \<le> max_i64"
    using u True assms(3) by (auto simp: qu_ok_def)
  from ConsumeQuota_eq [OF this(1) True refl this(2)] u True show ?thesis
    by (auto intro!: qm_within_put [OF assms(1)])
qed

lemma qm_within_lastRun [simp]: "qm_within L (q\<lparr>qm_lastRun := r\<rparr>) = qm_within L q"
  by (simp add: qm_within_def)

lemma qm_within_ResetQuota: "qm_within L q \<Longrightarrow> qm_within L (ResetQuota q now now' ctx t)"
  using qm_within_usage [of L q]
  by (fastforce simp: ResetQuota_def Let_def intro!: qm_within_put split: option.split)

lemma qm_within_SetLimit:
  assumes "qm_within L q" "l \<le> L"
  shows "qm_within L (fst (SetLimit q ctx t l))"
proof (cases "l \<le> 0")
  case True
  then show ?thesis using assms(1) by (simp add: SetLimit_def)
next
  case False
  then have "qm_within L (q\<lparr>qm_limits := AList.update t l (qm_limits q)\<rparr>)"
    using assms set_AList_update_subset [of t l "qm_limits q"]
    by (auto simp: qm_within_def distinct_update)
  then show ?thesis
    using False assms(2) qm_within_usage [OF assms(1)]
    by (auto simp: SetLimit_def Let_def intro!: qm_within_put split: option.split)
qed

text \<open>A call leaves every other key alone.\<close>

lemma ConsumeQuota_other:
  "k \<noteq> quota_key (getTenantIDFromContext ctx) t \<Longrightarrow>
     map_of (qm_usage (fst (ConsumeQuota q since now ctx t amount))) k = map_of (qm_usage q) k"
  by (auto simp: ConsumeQuota_def put_usage_lookup Let_def)

lemma ConsumeQuota_limits [simp]: "qm_limits (fst (ConsumeQuota q since now ctx t amount)) = qm_limits q"
  by (simp add: ConsumeQuota_def put_usage_lookup Let_def)

section \<open>Runs\<close>

text \<open>A call of \<^verbatim>\<open>ConsumeQuota\<close>: two clock readings, the context, the type, the amount.\<close>

type_synonym consume_call = "int \<times> int \<times> go_ctx \<times> string \<times> int"

fun consume_run :: "quota_manager \<Rightarrow> consume_call list \<Rightarrow> quota_manager \<times> int res list" where
  "consume_run q [] = (q, [])"
| "consume_run q ((since, now, ctx, t, amount) # cs) =
     (let (q', r) = ConsumeQuota q since now ctx t amount;
          (q'', rs) = consume_run q' cs
      in (q'', r # rs))"

fun consumed :: "string \<Rightarrow> consume_call list \<Rightarrow> int res list \<Rightarrow> int" where
  "consumed k ((since, now, ctx, t, amount) # cs) (r # rs) =
     (case r of
        Ok _ \<Rightarrow> if quota_key (getTenantIDFromContext ctx) t = k then amount else 0
      | _ \<Rightarrow> 0) + consumed k cs rs"
| "consumed k _ _ = 0"

lemma consume_run_Cons:
  "consume_run q ((since, now, ctx, t, amount) # cs) =
     (fst (consume_run (fst (ConsumeQuota q since now ctx t amount)) cs),
      snd (ConsumeQuota q since now ctx t amount)
        # snd (consume_run (fst (ConsumeQuota q since now ctx t amount)) cs))"
  by (simp add: split_beta)

declare consume_run.simps(2) [simp del]
declare consume_run_Cons [simp]

text \<open>One call on the key \<open>k\<close> or on another, as long as the period of \<open>k\<close> has not elapsed.\<close>

lemma ConsumeQuota_usage:
  assumes "map_of (qm_usage q) k = Some u" "qu_ok u"
    "quota_key (getTenantIDFromContext ctx) t = k \<Longrightarrow>
       \<not> shouldResetQuota u since \<and> amount \<le> max_i64 - qu_limit u"
    "qu_used u \<le> qu_limit u"
    "r = snd (ConsumeQuota q since now ctx t amount)"
    "n = (case r of Ok _ \<Rightarrow> if quota_key (getTenantIDFromContext ctx) t = k then amount else 0 | _ \<Rightarrow> 0)"
  shows "map_of (qm_usage (fst (ConsumeQuota q since now ctx t amount))) k =
      Some (u\<lparr>qu_used := qu_used u + n\<rparr>) \<and> 0 \<le> n \<and> qu_used u + n \<le> qu_limit u"
proof (cases "quota_key (getTenantIDFromContext ctx) t = k \<and> 0 \<le> amount")
  case False
  then show ?thesis
    using assms(1,4,5,6) ConsumeQuota_other [of k ctx t q since now amount]
    by (auto simp: ConsumeQuota_def split: res.splits)
next
  case True
  then have k: "quota_key (getTenantIDFromContext ctx) t = k" and 0: "0 \<le> amount" by simp_all
  have u: "u = current_usage q (quota_key (getTenantIDFromContext ctx) t) t since now"
    using assms(1) assms(3) [OF k] k by (simp add: current_usage_def)
  have "qu_used u + amount \<le> max_i64" using assms(3) [OF k] assms(4) by simp
  note eq = ConsumeQuota_eq [OF assms(2) 0 u this]
  show ?thesis
    using 0 assms(4,5,6) k by (auto simp: eq put_usage_lookup)
qed

text \<open>What a run grants to a key in one period stays within what the limit leaves.\<close>

definition in_period :: "string \<Rightarrow> quota_usage \<Rightarrow> consume_call list \<Rightarrow> bool" where
  "in_period k u cs \<longleftrightarrow>
     (\<forall>(since, now, ctx, t, amount) \<in> set cs. quota_key (getTenantIDFromContext ctx) t = k \<longrightarrow>
        \<not> shouldResetQuota u since \<and> amount \<le> max_i64 - qu_limit u)"

lemma shouldResetQuota_used [simp]: "shouldResetQuota (u\<lparr>qu_used := n\<rparr>) t = shouldResetQuota u t"
  by (simp add: shouldResetQuota_def)

lemma consume_run_usage:
  assumes "map_of (qm_usage q) k = Some u" "qu_ok u" "qu_used u \<le> qu_limit u" "in_period k u cs"
  shows "map_of (qm_usage (fst (consume_run q cs))) k =
      Some (u\<lparr>qu_used := qu_used u + consumed k cs (snd (consume_run q cs))\<rparr>) \<and>
    0 \<le> consumed k cs (snd (consume_run q cs)) \<and>
    qu_used u + consumed k cs (snd (consume_run q cs)) \<le> qu_limit u"
  using assms
proof (induction cs arbitrary: q u)
  case Nil
  then show ?case by simp
next
  case (Cons c cs)
  obtain since now ctx t amount where c: "c = (since, now, ctx, t, amount)" by (cases c) auto
  let ?q = "fst (ConsumeQuota q since now ctx t amount)"
  let ?r = "snd (ConsumeQuota q since now ctx t amount)"
  let ?n = "case ?r of Ok _ \<Rightarrow> if quota_key (getTenantIDFromContext ctx) t = k then amount else 0 | _ \<Rightarrow> 0"
  have step: "map_of (qm_usage ?q) k = Some (u\<lparr>qu_used := qu_used u + ?n\<rparr>) \<and> 0 \<le> ?n \<and>
      qu_used u + ?n \<le> qu_limit u"
    using Cons.prems by (intro ConsumeQuota_usage [OF _ _ _ _ refl refl]) (auto simp: in_period_def c)
  have "qu_ok (u\<lparr>qu_used := qu_used u + ?n\<rparr>)"
    using step Cons.prems(2) by (auto simp: qu_ok_def)
  moreover have "in_period k (u\<lparr>qu_used := qu_used u + ?n\<rparr>) cs"
    using Cons.prems(4) by (simp add: in_period_def c)
  ultimately show ?case
    using Cons.IH [of ?q "u\<lparr>qu_used := qu_used u + ?n\<rparr>"] step by (simp add: c add.assoc)
qed

section \<open>Many periods\<close>

definition quota_period :: "quota_usage \<Rightarrow> int option" where
  "quota_period u =
     (if qu_period u = ''short'' then Some (100 * millisecond)
      else if qu_period u = ''daily'' then Some (24 * hour)
      else if qu_period u = ''monthly'' then Some (30 * 24 * hour) else None)"

lemma shouldResetQuota_period:
  "quota_period u = Some d \<Longrightarrow> shouldResetQuota u t \<longleftrightarrow> d \<le> t - qu_start u"
  by (auto simp: quota_period_def shouldResetQuota_def Let_def split: if_splits)

lemma quota_period_pos: "quota_period u = Some d \<Longrightarrow> 0 < d"
  by (auto simp: quota_period_def go_time split: if_splits)

lemma quota_period_update [simp]:
  "quota_period (u\<lparr>qu_used := n\<rparr>) = quota_period u" "quota_period (u\<lparr>qu_start := t\<rparr>) = quota_period u"
  by (simp_all add: quota_period_def)

text \<open>One call, which may be the first of a new period.\<close>

lemma ConsumeQuota_any_period:
  assumes "map_of (qm_usage q) k = Some u" "qu_ok u" "qu_used u \<le> M"
    "quota_key (getTenantIDFromContext ctx) t = k \<Longrightarrow> amount \<le> max_i64 - M" "0 \<le> M"
    "v = (if shouldResetQuota u since then u\<lparr>qu_used := 0, qu_start := now\<rparr> else u)"
    "r = snd (ConsumeQuota q since now ctx t amount)"
    "n = (case r of Ok _ \<Rightarrow> if quota_key (getTenantIDFromContext ctx) t = k then amount else 0 | _ \<Rightarrow> 0)"
  shows "0 \<le> n \<and> (\<exists>w \<in> {u, v}. map_of (qm_usage (fst (ConsumeQuota q since now ctx t amount))) k =
    Some (w\<lparr>qu_used := qu_used w + n\<rparr>) \<and> (n = 0 \<or> qu_used w + n \<le> qu_limit w))"
proof (cases "quota_key (getTenantIDFromContext ctx) t = k \<and> 0 \<le> amount")
  case False
  then show ?thesis
    using assms(1,7,8) ConsumeQuota_other [of k ctx t q since now amount]
    by (auto simp: ConsumeQuota_def split: res.splits)
next
  case True
  then have k: "quota_key (getTenantIDFromContext ctx) t = k" and 0: "0 \<le> amount" by simp_all
  have v: "v = current_usage q (quota_key (getTenantIDFromContext ctx) t) t since now"
    using assms(1,6) k by (simp add: current_usage_def)
  have ok: "qu_ok v" "qu_used v \<le> M"
    using assms(2,3,5,6) by (auto simp: qu_ok_def)
  have "qu_used v + amount \<le> max_i64" using assms(4) [OF k] ok(2) by simp
  note eq = ConsumeQuota_eq [OF ok(1) 0 v this]
  show ?thesis
    using 0 assms(7,8) k by (auto simp: eq put_usage_lookup)
qed

text \<open>The amount left now and in the periods that can begin until \<open>T\<close>.\<close>

definition quota_left :: "int \<Rightarrow> int \<Rightarrow> quota_usage \<Rightarrow> int" where
  "quota_left d T u = max 0 (qu_limit u - qu_used u) + qu_limit u * ((T - qu_start u) div d)"

lemma quota_left_reset:
  assumes "qu_ok u" "0 < d" "d \<le> since - qu_start u" "since \<le> now"
  shows "quota_left d T (u\<lparr>qu_used := 0, qu_start := now\<rparr>) \<le> quota_left d T u"
proof -
  have "(T - now) div d \<le> (T - qu_start u - d) div d"
    using assms(2-4) by (intro zdiv_mono1) simp_all
  also have "\<dots> = (T - qu_start u) div d - 1"
    using assms(2) div_mult_self1 [of d "T - qu_start u" "-1"] by simp
  finally have "qu_limit u * ((T - now) div d) \<le> qu_limit u * ((T - qu_start u) div d - 1)"
    using assms(1) by (intro mult_left_mono) (simp_all add: qu_ok_def)
  then show ?thesis using assms(1) by (simp add: quota_left_def qu_ok_def algebra_simps)
qed

definition calls_until :: "string \<Rightarrow> int \<Rightarrow> int \<Rightarrow> consume_call list \<Rightarrow> bool" where
  "calls_until k M T cs \<longleftrightarrow>
     (\<forall>(since, now, ctx, t, amount) \<in> set cs. since \<le> now \<and> now \<le> T \<and>
        (quota_key (getTenantIDFromContext ctx) t = k \<longrightarrow> amount \<le> max_i64 - M))"

lemma consume_run_periods:
  assumes "map_of (qm_usage q) k = Some u" "qu_ok u" "qu_used u \<le> M" "qu_limit u \<le> M" "quota_period u = Some d"
    "qu_start u \<le> T" "calls_until k M T cs"
  shows "consumed k cs (snd (consume_run q cs)) \<le> quota_left d T u"
  using assms
proof (induction cs arbitrary: q u)
  case Nil
  then show ?case
    using quota_period_pos [OF Nil.prems(5)] by (simp add: quota_left_def qu_ok_def pos_imp_zdiv_nonneg_iff)
next
  case (Cons c cs)
  obtain since now ctx t amount where c: "c = (since, now, ctx, t, amount)" by (cases c) auto
  let ?q = "fst (ConsumeQuota q since now ctx t amount)"
  let ?r = "snd (ConsumeQuota q since now ctx t amount)"
  define n where "n = (case ?r of Ok _ \<Rightarrow> if quota_key (getTenantIDFromContext ctx) t = k then amount else 0 | _ \<Rightarrow> 0)"
  let ?v = "if shouldResetQuota u since then u\<lparr>qu_used := 0, qu_start := now\<rparr> else u"
  have cl: "since \<le> now" "now \<le> T" "calls_until k M T cs" "0 \<le> M"
    "quota_key (getTenantIDFromContext ctx) t = k \<Longrightarrow> amount \<le> max_i64 - M"
    using Cons.prems by (auto simp: c calls_until_def qu_ok_def)
  have left: "quota_left d T ?v \<le> quota_left d T u"
    using quota_left_reset [OF Cons.prems(2) quota_period_pos [OF Cons.prems(5)] _ cl(1)]
      shouldResetQuota_period [OF Cons.prems(5)] by simp
  from ConsumeQuota_any_period [OF Cons.prems(1-3) cl(5,4) refl refl n_def]
  obtain w where w: "w = u \<or> w = ?v" "map_of (qm_usage ?q) k = Some (w\<lparr>qu_used := qu_used w + n\<rparr>)" "0 \<le> n"
    "n = 0 \<or> qu_used w + n \<le> qu_limit w" by blast
  let ?w = "w\<lparr>qu_used := qu_used w + n\<rparr>"
  have v: "qu_ok ?w" "qu_used ?w \<le> M" "qu_limit ?w \<le> M" "quota_period ?w = Some d" "qu_start ?w \<le> T"
    using w Cons.prems(2-6) cl(2,4) by (auto simp: qu_ok_def split: if_splits)
  have "consumed k cs (snd (consume_run ?q cs)) \<le> quota_left d T ?w"
    by (rule Cons.IH [OF w(2) v cl(3)])
  moreover have "quota_left d T ?w = quota_left d T w - n" using w(3,4) by (auto simp: quota_left_def)
  moreover have "quota_left d T w \<le> quota_left d T u" using w(1) left by auto
  ultimately show ?case by (simp add: c n_def [symmetric])
qed

section \<open>Properties\<close>

text \<open>
  C29. The quota over time, for a tenant and a quota type that have a record, as after any call for them:
  however many calls of \<^verbatim>\<open>ConsumeQuota\<close> there are for them until \<open>T\<close>, they get at most what is left of the limit
  now, if anything, and the limit once more for each period that can have begun by then, wherever the
  calls lie and whatever is asked for other tenants and types in between. No amount asked for them may
  overflow the counter: \<open>M\<close> is at least the limit and what is used now, and an amount at most the largest
  \<^verbatim>\<open>int64\<close> minus \<open>M\<close>; C30 shows what happens else.
\<close>

theorem quota_rate_bound:
  assumes "map_of (qm_usage q) k = Some u" "qu_ok u" "qu_used u \<le> M" "qu_limit u \<le> M" "quota_period u = Some d"
    "qu_start u \<le> T" "calls_until k M T cs"
  shows "consumed k cs (snd (consume_run q cs)) \<le>
    max 0 (qu_limit u - qu_used u) + qu_limit u * ((T - qu_start u) div d)"
  using consume_run_periods [OF assms] by (simp add: quota_left_def)

text \<open>
  In one period the calls for a tenant and a quota type together get at most what the limit leaves,
  and the usage is exactly what they got; calls for other tenants and types make no difference.
\<close>

theorem quota_period_bound:
  assumes "map_of (qm_usage q) k = Some u" "qu_ok u" "qu_used u \<le> qu_limit u" "in_period k u cs"
  shows "qu_used u + consumed k cs (snd (consume_run q cs)) \<le> qu_limit u \<and>
    map_of (qm_usage (fst (consume_run q cs))) k =
      Some (u\<lparr>qu_used := qu_used u + consumed k cs (snd (consume_run q cs))\<rparr>)"
  using consume_run_usage [OF assms] by blast

definition acme_ctx :: go_ctx where
  "acme_ctx = ToGoContext \<lparr>dc_tenantID = \<lparr>tid_value = ''acme''\<rparr>, dc_userID = ''u'', dc_requestID = ''r'', dc_timestamp = 0\<rparr> background"

definition globex_ctx :: go_ctx where
  "globex_ctx = ToGoContext \<lparr>dc_tenantID = \<lparr>tid_value = ''globex''\<rparr>, dc_userID = ''u'', dc_requestID = ''r'', dc_timestamp = 0\<rparr> background"

lemma sample_contexts:
  "FromGoContext (Some acme_ctx) = Ok \<lparr>dc_tenantID = \<lparr>tid_value = ''acme''\<rparr>, dc_userID = ''u'', dc_requestID = ''r'', dc_timestamp = 0\<rparr>"
  "FromGoContext (Some globex_ctx) = Ok \<lparr>dc_tenantID = \<lparr>tid_value = ''globex''\<rparr>, dc_userID = ''u'', dc_requestID = ''r'', dc_timestamp = 0\<rparr>"
  by (simp_all add: acme_ctx_def globex_ctx_def FromGoContext_ToGoContext)

lemma sample_tenants: "getTenantIDFromContext acme_ctx = ''acme''" "getTenantIDFromContext globex_ctx = ''globex''"
  by (simp_all add: getTenantIDFromContext_def sample_contexts)

definition used_manager :: quota_manager where
  "used_manager = fst (ConsumeQuota NewInMemoryQuotaManager 0 0 acme_ctx ''api_requests_daily'' 4000)"

lemma used_manager_usage:
  "map_of (qm_usage used_manager) ''acme:api_requests_daily'' =
     Some \<lparr>qu_used = 4000, qu_limit = 5000, qu_period = ''daily'', qu_start = 0\<rparr>"
  by (simp add: used_manager_def ConsumeQuota_def current_usage_def put_usage_def quota_key_def sample_tenants
      NewInMemoryQuotaManager_def getPeriodForQuotaType_def add64_def wrap64_def Let_def)

lemma quota_period_bound_witness:
  "4000 + consumed ''acme:api_requests_daily'' [(1, 1, acme_ctx, ''api_requests_daily'', 900), (2, 2, acme_ctx, ''api_requests_daily'', 900)]
     (snd (consume_run used_manager [(1, 1, acme_ctx, ''api_requests_daily'', 900), (2, 2, acme_ctx, ''api_requests_daily'', 900)]))
   \<le> 5000"
  using quota_period_bound [OF used_manager_usage,
      of "[(1, 1, acme_ctx, ''api_requests_daily'', 900), (2, 2, acme_ctx, ''api_requests_daily'', 900)]"]
  by (simp add: qu_ok_def in_period_def shouldResetQuota_def go_time max_i64_def del: consume_run_Cons)

lemma quota_rate_bound_witness:
  "consumed ''acme:api_requests_daily'' [(1, 1, acme_ctx, ''api_requests_daily'', 900), (25 * hour, 25 * hour, acme_ctx, ''api_requests_daily'', 5000)]
     (snd (consume_run used_manager [(1, 1, acme_ctx, ''api_requests_daily'', 900), (25 * hour, 25 * hour, acme_ctx, ''api_requests_daily'', 5000)]))
   \<le> 6000"
  using quota_rate_bound [OF used_manager_usage,
      of 5000 "24 * hour" "30 * hour" "[(1, 1, acme_ctx, ''api_requests_daily'', 900), (25 * hour, 25 * hour, acme_ctx, ''api_requests_daily'', 5000)]"]
  by (simp add: qu_ok_def quota_period_def calls_until_def go_time max_i64_def del: consume_run_Cons)

lemma GetUsage_key:
  "map_of (qm_usage q') (quota_key (getTenantIDFromContext ctx) t) =
     map_of (qm_usage q) (quota_key (getTenantIDFromContext ctx) t) \<Longrightarrow>
   qm_limits q' = qm_limits q \<Longrightarrow> GetUsage q' ctx t = GetUsage q ctx t"
  by (simp add: GetUsage_def split: option.splits)

text \<open>
  Tenants do not share a quota: whatever one tenant consumes, resets or is limited to, the usage
  the manager holds for any quota type of another tenant is the same as before.
\<close>

theorem quota_tenants_apart:
  assumes "FromGoContext (Some ctx) = Ok c" "FromGoContext (Some ctx') = Ok c'"
    "valid_id (tid_value (dc_tenantID c))" "valid_id (tid_value (dc_tenantID c'))"
    "dc_tenantID c \<noteq> dc_tenantID c'"
  shows "GetUsage (fst (ConsumeQuota q since now ctx t amount)) ctx' t' = GetUsage q ctx' t' \<and>
    GetUsage (ResetQuota q now now' ctx t) ctx' t' = GetUsage q ctx' t' \<and>
    map_of (qm_usage (fst (SetLimit q ctx t l))) (quota_key (getTenantIDFromContext ctx') t') =
      map_of (qm_usage q) (quota_key (getTenantIDFromContext ctx') t')"
proof -
  let ?k = "quota_key (getTenantIDFromContext ctx) t" and ?k' = "quota_key (getTenantIDFromContext ctx') t'"
  have "getTenantIDFromContext ctx = tid_value (dc_tenantID c)"
    "getTenantIDFromContext ctx' = tid_value (dc_tenantID c')"
    using assms(1,2) by (simp_all add: getTenantIDFromContext_def)
  then have k: "?k' \<noteq> ?k"
    using assms(5) quota_key_inj [OF valid_id_no_colon [OF assms(4)] valid_id_no_colon [OF assms(3)], of t' t]
    by (auto intro: tenant_id.equality)
  have "GetUsage (fst (ConsumeQuota q since now ctx t amount)) ctx' t' = GetUsage q ctx' t'"
    by (rule GetUsage_key [OF ConsumeQuota_other [OF k] ConsumeQuota_limits])
  moreover have "GetUsage (ResetQuota q now now' ctx t) ctx' t' = GetUsage q ctx' t'"
    using k by (auto simp: GetUsage_def ResetQuota_def Let_def put_usage_lookup split: option.splits)
  moreover have "map_of (qm_usage (fst (SetLimit q ctx t l))) ?k' = map_of (qm_usage q) ?k'"
    using k by (auto simp: SetLimit_def Let_def put_usage_lookup split: option.splits)
  ultimately show ?thesis by blast
qed

lemma quota_tenants_apart_witness:
  "GetUsage (fst (ConsumeQuota used_manager 9 9 globex_ctx ''api_requests_daily'' 5000)) acme_ctx ''api_requests_daily'' =
     (4000, 5000)"
proof -
  have v: "valid_id ''globex''" "valid_id ''acme''" by code_simp+
  have "GetUsage used_manager acme_ctx ''api_requests_daily'' = (4000, 5000)"
    using used_manager_usage by (simp add: GetUsage_def sample_tenants quota_key_def)
  then show ?thesis
    using quota_tenants_apart [OF sample_contexts(2,1), of used_manager 9 9 "''api_requests_daily''" 5000 "''api_requests_daily''"] v
    by simp
qed

text \<open>
  Asking first is reliable: \<^verbatim>\<open>CheckQuota\<close> says yes exactly if \<^verbatim>\<open>ConsumeQuota\<close>, called next, grants
  the amount, for every quota type with a limit, as long as the period is not over.
\<close>

theorem check_then_consume:
  assumes "map_of (qm_limits q) t = Some l" "in_i64 amount" "0 \<le> amount"
    "\<forall>u. map_of (qm_usage q) (quota_key (getTenantIDFromContext ctx) t) = Some u \<longrightarrow> \<not> shouldResetQuota u since"
  shows "\<exists>b. CheckQuota q ctx t amount = Ok b \<and>
    b = (\<exists>r. snd (ConsumeQuota q since now ctx t amount) = Ok r)"
proof (cases "map_of (qm_usage q) (quota_key (getTenantIDFromContext ctx) t)")
  case None
  then show ?thesis
    using assms(1-3) by (auto simp: CheckQuota_def ConsumeQuota_def current_usage_def Let_def)
next
  case (Some u)
  then show ?thesis
    using assms by (auto simp: CheckQuota_def ConsumeQuota_def current_usage_def Let_def)
qed

lemma check_then_consume_witness:
  "\<exists>b. CheckQuota used_manager acme_ctx ''api_requests_daily'' 1001 = Ok b \<and>
     b = (\<exists>r. snd (ConsumeQuota used_manager 9 9 acme_ctx ''api_requests_daily'' 1001) = Ok r)"
proof -
  have l: "map_of (qm_limits used_manager) ''api_requests_daily'' = Some 5000"
    by (simp add: used_manager_def NewInMemoryQuotaManager_def)
  have u: "\<forall>u. map_of (qm_usage used_manager) (quota_key (getTenantIDFromContext acme_ctx) ''api_requests_daily'') = Some u
      \<longrightarrow> \<not> shouldResetQuota u 9"
    using used_manager_usage by (simp add: sample_tenants quota_key_def shouldResetQuota_def go_time)
  show ?thesis by (rule check_then_consume [OF l _ _ u]) (simp_all add: i64_defs)
qed

text \<open>
  The states of a manager in use: amounts up to \<open>A\<close>, for quota types that have a limit, and limits up
  to \<open>L\<close>.
\<close>

inductive quota_reach :: "int \<Rightarrow> int \<Rightarrow> quota_manager \<Rightarrow> bool" for A L where
  new: "quota_reach A L NewInMemoryQuotaManager"
| consume: "quota_reach A L q \<Longrightarrow> amount \<le> A \<Longrightarrow> map_of (qm_limits q) t \<noteq> None \<Longrightarrow>
    quota_reach A L (fst (ConsumeQuota q since now ctx t amount))"
| reset: "quota_reach A L q \<Longrightarrow> quota_reach A L (ResetQuota q now now' ctx t)"
| set_limit: "quota_reach A L q \<Longrightarrow> l \<le> L \<Longrightarrow> quota_reach A L (fst (SetLimit q ctx t l))"

text \<open>
  C30. Counters and limits stay within the largest limit: when no call of \<^verbatim>\<open>ConsumeQuota\<close> asks for more than
  \<open>A\<close>, no limit set is above \<open>L\<close>, which is at least that of the defaults, and \<open>A + L\<close> fits an \<^verbatim>\<open>int64\<close>, then in
  every state that calls of \<^verbatim>\<open>ConsumeQuota\<close> for types with a limit, \<^verbatim>\<open>ResetQuota\<close> and \<^verbatim>\<open>SetLimit\<close> lead to, each
  counter is between 0 and \<open>L\<close>, each limit is positive and at most \<open>L\<close>, and no key occurs twice. The bound on the
  amounts is needed: from any such state, a call whose amount overflows the counter is granted, and the
  usage that \<^verbatim>\<open>GetUsage\<close> reports is negative.
\<close>

theorem quota_invariant:
  assumes "quota_reach A L q" "1073741824 \<le> L" "0 \<le> A" "A + L \<le> max_i64"
  shows "qm_within L q \<and>
    (\<forall>ctx t since now amount. map_of (qm_limits q) t \<noteq> None \<longrightarrow> amount \<le> max_i64 \<longrightarrow>
       max_i64 < qu_used (current_usage q (quota_key (getTenantIDFromContext ctx) t) t since now) + amount \<longrightarrow>
       (\<exists>left. snd (ConsumeQuota q since now ctx t amount) = Ok left) \<and>
       fst (GetUsage (fst (ConsumeQuota q since now ctx t amount)) ctx t) < 0)"
proof -
  have w: "qm_within L q"
    using assms(1)
  proof induction
    case new
    then show ?case using assms(2) by (rule qm_within_New)
  next
    case (consume q amount t since now ctx)
    then show ?case using assms(4) by (intro qm_within_ConsumeQuota) simp_all
  qed (simp_all add: qm_within_ResetQuota qm_within_SetLimit)
  have "qu_ok (current_usage q k t since now)" if "map_of (qm_limits q) t \<noteq> None" for k t since now
    using current_usage_within [OF w that, of k since now] assms(3,4) by (auto simp: qu_ok_def)
  then show ?thesis using w ConsumeQuota_overflow [OF _ _ _ refl] by blast
qed

lemma quota_invariant_witness: "qm_within (2 ^ 62) used_manager"
proof -
  have "quota_reach (2 ^ 61) (2 ^ 62) used_manager"
    unfolding used_manager_def
    by (rule quota_reach.consume [OF quota_reach.new]) (simp_all add: NewInMemoryQuotaManager_def)
  then show ?thesis using quota_invariant [of "2 ^ 61" "2 ^ 62" used_manager] by (simp add: max_i64_def)
qed

end
