(* ===== verification/Args_Pool.thy ===== *)
theory Args_Pool
  imports Rewriter
begin

text \<open>
  The pool of argument slices (tenantkit/query_cache.go) and its use by the rewriting
  (tenantkit/wrap.go). Elsewhere the arguments of a rewritten statement are a value; here they are
  what they are in Go, a slice of an array in a store, because the array goes back to the pool
  while its slice is still with the caller. The store is a list of arrays, an address is a position
  in it; a slice that starts at the beginning of its array is the address and the length.
\<close>

section \<open>Slices and the pool\<close>

type_synonym args_slice = "nat \<times> nat"

text \<open>A pooled \<^verbatim>\<open>*[]interface{}\<close> is a slice of length 0: only its address matters.\<close>

record pool_state =
  ps_arrays :: "gval list list"
  ps_free :: "nat list"

definition read_slice :: "pool_state \<Rightarrow> args_slice \<Rightarrow> gval list" where
  "read_slice st s = take (snd s) (ps_arrays st ! fst s)"

definition new_array :: "pool_state \<Rightarrow> gval list \<Rightarrow> pool_state \<times> nat" where
  "new_array st xs = (st\<lparr>ps_arrays := ps_arrays st @ [xs]\<rparr>, length (ps_arrays st))"

text \<open>
  \<^verbatim>\<open>sync.Pool.Get\<close> takes any free item, or calls \<^verbatim>\<open>New\<close>, which makes a slice of capacity 8: the
  choice is a parameter.
\<close>

definition getArgsSlice :: "nat option \<Rightarrow> pool_state \<Rightarrow> pool_state \<times> nat" where
  "getArgsSlice choice st =
     (case choice of
        Some i \<Rightarrow>
          if i < length (ps_free st)
          then (st\<lparr>ps_free := take i (ps_free st) @ drop (Suc i) (ps_free st)\<rparr>, ps_free st ! i)
          else new_array st (replicate 8 GNil)
      | None \<Rightarrow> new_array st (replicate 8 GNil))"

definition putArgsSlice :: "pool_state \<Rightarrow> nat \<Rightarrow> pool_state" where
  "putArgsSlice st a =
     (if 64 < length (ps_arrays st ! a) then st else st\<lparr>ps_free := a # ps_free st\<rparr>)"

text \<open>
  \<^verbatim>\<open>append\<close> writes into the array as long as the capacity suffices, else it copies to a new one;
  \<open>spare\<close> is the capacity the new array has left.
\<close>

definition go_append :: "nat \<Rightarrow> pool_state \<Rightarrow> args_slice \<Rightarrow> gval list \<Rightarrow> pool_state \<times> args_slice" where
  "go_append spare st s xs =
     (case s of (a, n) \<Rightarrow>
        let arr = ps_arrays st ! a in
        if n + length xs \<le> length arr
        then (st\<lparr>ps_arrays := (ps_arrays st)[a := take n arr @ xs @ drop (n + length xs) arr]\<rparr>,
              (a, n + length xs))
        else let (st, b) = new_array st (take n arr @ xs @ replicate spare GNil)
             in (st, (b, n + length xs)))"

text \<open>
  The pool of string builders beside it, which only tests use. A builder is its text and the
  capacity of its buffer; \<^verbatim>\<open>Reset\<close> gives up the buffer.
\<close>

record builder =
  sb_text :: string
  sb_cap :: nat

definition builder_Reset :: "builder \<Rightarrow> builder" where
  "builder_Reset sb = \<lparr>sb_text = [], sb_cap = 0\<rparr>"

definition getStringBuilder :: "nat option \<Rightarrow> builder list \<Rightarrow> builder list \<times> builder" where
  "getStringBuilder choice pool =
     (let (pool, sb) =
            (case choice of
               Some i \<Rightarrow>
                 if i < length pool then (take i pool @ drop (Suc i) pool, pool ! i)
                 else (pool, \<lparr>sb_text = [], sb_cap = 0\<rparr>)
             | None \<Rightarrow> (pool, \<lparr>sb_text = [], sb_cap = 0\<rparr>))
      in (pool, builder_Reset sb))"

definition putStringBuilder :: "builder list \<Rightarrow> builder \<Rightarrow> builder list" where
  "putStringBuilder pool sb = (if 4096 < sb_cap sb then pool else sb # pool)"

text \<open>Whatever was pooled, a builder comes without a buffer, so that the pool saves none.\<close>

lemma getStringBuilder_no_buffer: "sb_cap (snd (getStringBuilder choice pool)) = 0 \<and> sb_text (snd (getStringBuilder choice pool)) = []"
  by (simp add: getStringBuilder_def builder_Reset_def split_beta)

lemma putStringBuilder_bounded:
  "\<forall>sb \<in> set pool. sb_cap sb \<le> 4096 \<Longrightarrow> \<forall>sb \<in> set (putStringBuilder pool sb'). sb_cap sb \<le> 4096"
  by (simp add: putStringBuilder_def)

section \<open>The arguments of a rewriting\<close>

text \<open>
  The slice is taken from the pool and filled by a number of appends; the deferred call puts it back
  as the function returns what it built.
\<close>

fun append_all :: "nat \<Rightarrow> pool_state \<Rightarrow> args_slice \<Rightarrow> gval list list \<Rightarrow> pool_state \<times> args_slice" where
  "append_all spare st s [] = (st, s)"
| "append_all spare st s (xs # xss) = (let (st, s) = go_append spare st s xs in append_all spare st s xss)"

definition build_args :: "nat option \<Rightarrow> nat \<Rightarrow> pool_state \<Rightarrow> gval list list \<Rightarrow> pool_state \<times> args_slice" where
  "build_args choice spare st xss =
     (let (st, argsPtr) = getArgsSlice choice st;
          (st, newArgs) = append_all spare st (argsPtr, 0) xss
      in (putArgsSlice st argsPtr, newArgs))"

text \<open>The appends of a DELETE, of a SELECT with \<open>k\<close> tenant tables, and of an UPDATE.\<close>

definition delete_args :: "placeholder_style \<Rightarrow> string \<Rightarrow> gval list \<Rightarrow> gval list list" where
  "delete_args st tenantID args =
     (if st = PlaceholderQuestion then [[GStr tenantID], args] else [args, [GStr tenantID]])"

definition select_args :: "placeholder_style \<Rightarrow> nat \<Rightarrow> string \<Rightarrow> gval list \<Rightarrow> gval list list" where
  "select_args st k tenantID args =
     (let tenantArgs = replicate k (GStr tenantID)
      in if st = PlaceholderQuestion then [tenantArgs, args] else [args, tenantArgs])"

definition update_args :: "placeholder_style \<Rightarrow> string \<Rightarrow> string \<Rightarrow> gval list \<Rightarrow> gval list list res" where
  "update_args st query tenantID args =
     (if st = PlaceholderQuestion
      then res_bind (go_slice args 0 (setArgCount query)) (\<lambda>setArgs.
           res_bind (go_slice args (setArgCount query) (length args)) (\<lambda>whereArgs.
             Ok [setArgs, [GStr tenantID], whereArgs]))
      else Ok [args, [GStr tenantID]])"

text \<open>Every free slice has an array of capacity 8, since \<^verbatim>\<open>*argsPtr\<close> is never assigned.\<close>

definition pool_ok :: "pool_state \<Rightarrow> bool" where
  "pool_ok st \<longleftrightarrow> (\<forall>a \<in> set (ps_free st). a < length (ps_arrays st) \<and> length (ps_arrays st ! a) = 8)"

section \<open>What one call builds\<close>

definition slice_ok :: "pool_state \<Rightarrow> args_slice \<Rightarrow> bool" where
  "slice_ok st s \<longleftrightarrow> fst s < length (ps_arrays st) \<and> snd s \<le> length (ps_arrays st ! fst s)"

text \<open>From one store to the next: no array shrinks or moves, and only \<open>a\<close> may be written.\<close>

definition writes :: "nat \<Rightarrow> pool_state \<Rightarrow> pool_state \<Rightarrow> bool" where
  "writes a st st' \<longleftrightarrow> length (ps_arrays st) \<le> length (ps_arrays st') \<and>
     (\<forall>b < length (ps_arrays st). length (ps_arrays st' ! b) = length (ps_arrays st ! b) \<and>
        (b \<noteq> a \<longrightarrow> ps_arrays st' ! b = ps_arrays st ! b))"

lemma writes_refl [simp]: "writes a st st"
  by (simp add: writes_def)

lemma writes_trans: "writes a st st' \<Longrightarrow> writes b st' st'' \<Longrightarrow> b = a \<or> length (ps_arrays st) \<le> b \<Longrightarrow> writes a st st''"
  unfolding writes_def by (metis leD le_trans order_less_le_trans)

lemma writes_read: "writes a st st' \<Longrightarrow> slice_ok st s \<Longrightarrow> fst s \<noteq> a \<Longrightarrow> read_slice st' s = read_slice st s"
  by (simp add: writes_def slice_ok_def read_slice_def)

lemma writes_ok: "writes a st st' \<Longrightarrow> slice_ok st s \<Longrightarrow> slice_ok st' s"
  by (force simp: writes_def slice_ok_def)

lemma go_append_facts:
  assumes "slice_ok st s" "go_append spare st s xs = (st', s')"
  shows "slice_ok st' s'" "read_slice st' s' = read_slice st s @ xs" "writes (fst s) st st'"
    "ps_free st' = ps_free st" "fst s' = fst s \<or> length (ps_arrays st) \<le> fst s'"
    "fst s' = fst s \<longleftrightarrow> snd s + length xs \<le> length (ps_arrays st ! fst s)" "snd s' = snd s + length xs"
  using assms
  by (auto simp: go_append_def slice_ok_def read_slice_def writes_def new_array_def nth_append Let_def
      nth_list_update min_def split: prod.splits if_splits) (cases xs; simp)+

lemma append_all_facts:
  assumes "slice_ok st s" "append_all spare st s xss = (st', s')"
  shows "slice_ok st' s' \<and> read_slice st' s' = read_slice st s @ concat xss \<and> writes (fst s) st st' \<and>
    ps_free st' = ps_free st \<and> (fst s' = fst s \<or> length (ps_arrays st) \<le> fst s')"
  using assms
proof (induction xss arbitrary: st s)
  case Nil
  then show ?case by simp
next
  case (Cons xs xss)
  obtain st1 s1 where g: "go_append spare st s xs = (st1, s1)" by (cases "go_append spare st s xs")
  note f = go_append_facts [OF Cons.prems(1) g]
  have "append_all spare st1 s1 xss = (st', s')" using Cons.prems(2) g by simp
  from Cons.IH [OF f(1) this] f show ?case
    by (auto intro: writes_trans simp: writes_def)
qed

lemma append_all_stays:
  assumes "slice_ok st s" "append_all spare st s xss = (st', s')"
    "snd s + length (concat xss) \<le> length (ps_arrays st ! fst s)"
  shows "fst s' = fst s"
  using assms
proof (induction xss arbitrary: st s)
  case Nil
  then show ?case by simp
next
  case (Cons xs xss)
  obtain st1 s1 where g: "go_append spare st s xs = (st1, s1)" by (cases "go_append spare st s xs")
  note f = go_append_facts [OF Cons.prems(1) g]
  have a: "fst s1 = fst s" "append_all spare st1 s1 xss = (st', s')"
    using f(6) Cons.prems(2,3) g by simp_all
  have "length (ps_arrays st1 ! fst s) = length (ps_arrays st ! fst s)"
    using f(3) Cons.prems(1) by (simp add: writes_def slice_ok_def)
  with Cons.IH [OF f(1) a(2)] a(1) f(7) Cons.prems(3) show ?case by simp
qed

lemma getArgsSlice_facts:
  assumes "pool_ok st" "getArgsSlice choice st = (st', a)"
  shows "slice_ok st' (a, 0)" "length (ps_arrays st' ! a) = 8" "pool_ok st'" "writes a st st'"
    "a \<in> set (ps_free st) \<or> a = length (ps_arrays st)" "set (ps_free st') \<subseteq> set (ps_free st)"
  using assms
  by (auto simp: getArgsSlice_def new_array_def pool_ok_def slice_ok_def writes_def nth_append
      split: option.splits if_splits) (force dest: in_set_takeD in_set_dropD)+

text \<open>One call: what it built reads as it should, and the pool stays in order.\<close>

lemma build_args_facts:
  assumes "pool_ok st" "build_args choice spare st xss = (st', s)"
  shows "read_slice st' s = concat xss" "pool_ok st'" "slice_ok st' s"
proof -
  obtain st1 a where g: "getArgsSlice choice st = (st1, a)" by (cases "getArgsSlice choice st")
  obtain st2 s2 where b: "append_all spare st1 (a, 0) xss = (st2, s2)" by (cases "append_all spare st1 (a, 0) xss")
  note f = getArgsSlice_facts [OF assms(1) g] and h = append_all_facts [OF getArgsSlice_facts(1) [OF assms(1) g] b]
  have len: "length (ps_arrays st2 ! a) = 8" "a < length (ps_arrays st2)"
    using h f(1,2) by (auto simp: writes_def slice_ok_def)
  have e: "st' = st2\<lparr>ps_free := a # ps_free st2\<rparr>" "s = s2"
    using assms(2) g b len(1) by (simp_all add: build_args_def putArgsSlice_def)
  show "read_slice st' s = concat xss" "slice_ok st' s"
    using h e by (simp_all add: read_slice_def slice_ok_def)
  have "\<forall>c \<in> set (ps_free st1). c < length (ps_arrays st2) \<and> length (ps_arrays st2 ! c) = 8"
    using f(3) h by (force simp: pool_ok_def writes_def)
  then show "pool_ok st'" using h e(1) len by (simp add: pool_ok_def)
qed

text \<open>Another call in between that takes another array changes nothing.\<close>

lemma build_args_frame:
  assumes "pool_ok st" "build_args choice spare st xss = (st', s')" "slice_ok st s"
    "fst s \<noteq> snd (getArgsSlice choice st)"
  shows "read_slice st' s = read_slice st s"
proof -
  obtain st1 a where g: "getArgsSlice choice st = (st1, a)" by (cases "getArgsSlice choice st")
  obtain st2 s2 where b: "append_all spare st1 (a, 0) xss = (st2, s2)" by (cases "append_all spare st1 (a, 0) xss")
  note f = getArgsSlice_facts [OF assms(1) g]
  have "read_slice st1 s = read_slice st s" "slice_ok st1 s"
    using writes_read [OF f(4) assms(3)] writes_ok [OF f(4) assms(3)] assms(4) g by simp_all
  moreover have "read_slice st2 s = read_slice st1 s"
    using append_all_facts [OF f(1) b] \<open>slice_ok st1 s\<close> assms(4) g by (auto intro: writes_read)
  moreover have "read_slice st' s = read_slice st2 s"
    using assms(2) g b by (auto simp: build_args_def putArgsSlice_def read_slice_def)
  ultimately show ?thesis by simp
qed

section \<open>Many calls\<close>

type_synonym build_call = "nat option \<times> nat \<times> gval list list"

fun run_builds :: "pool_state \<Rightarrow> build_call list \<Rightarrow> pool_state" where
  "run_builds st [] = st"
| "run_builds st ((choice, spare, xss) # cs) = run_builds (fst (build_args choice spare st xss)) cs"

text \<open>None of the calls is handed the array \<open>a\<close> by the pool.\<close>

fun undisturbed :: "nat \<Rightarrow> pool_state \<Rightarrow> build_call list \<Rightarrow> bool" where
  "undisturbed a st [] \<longleftrightarrow> True"
| "undisturbed a st ((choice, spare, xss) # cs) \<longleftrightarrow>
     a \<noteq> snd (getArgsSlice choice st) \<and> undisturbed a (fst (build_args choice spare st xss)) cs"

lemma build_args_slice_ok:
  assumes "pool_ok st" "slice_ok st s"
  shows "slice_ok (fst (build_args choice spare st xss)) s"
proof -
  obtain st1 a where g: "getArgsSlice choice st = (st1, a)" by (cases "getArgsSlice choice st")
  obtain st2 s2 where b: "append_all spare st1 (a, 0) xss = (st2, s2)" by (cases "append_all spare st1 (a, 0) xss")
  note f = getArgsSlice_facts [OF assms(1) g]
  have "slice_ok st2 s"
    using append_all_facts [OF f(1) b] writes_ok [OF f(4) assms(2)] by (auto intro: writes_ok)
  then show ?thesis
    using g b by (simp add: build_args_def putArgsSlice_def slice_ok_def)
qed

lemma undisturbed_read:
  "pool_ok st \<Longrightarrow> slice_ok st s \<Longrightarrow> undisturbed (fst s) st cs \<Longrightarrow>
     read_slice (run_builds st cs) s = read_slice st s"
proof (induction cs arbitrary: st rule: list.induct)
  case Nil
  then show ?case by simp
next
  case (Cons c cs)
  obtain choice spare xss where c: "c = (choice, spare, xss)" by (cases c)
  obtain st' s' where b: "build_args choice spare st xss = (st', s')" by (cases "build_args choice spare st xss")
  have "pool_ok st'" "slice_ok st' s" "read_slice st' s = read_slice st s"
    using build_args_facts(2) [OF Cons.prems(1) b] build_args_slice_ok [OF Cons.prems(1,2), of choice spare xss]
      build_args_frame [OF Cons.prems(1) b Cons.prems(2)] Cons.prems(3) b c by simp_all
  then show ?case using Cons.IH Cons.prems(3) b c by simp
qed

text \<open>
  C12. The arguments a DELETE, UPDATE or SELECT hands to the driver are read as the rewriting means
  them, whatever slice the pool gave it and whatever other calls do before the driver reads, as long
  as none of those is given the same array.
\<close>

theorem pooled_args_exclusive:
  assumes "pool_ok st" "build_args choice spare st xss = (st', s)" "undisturbed (fst s) st' cs"
  shows "(xss = delete_args ps t args \<longrightarrow> injectDeleteFilter cfg ps q t args n = Ok (q', new) \<longrightarrow>
      read_slice (run_builds st' cs) s = new) \<and>
    (update_args ps q t args = Ok xss \<longrightarrow> injectUpdateFilter cfg ps q t args n = Ok (q', new) \<longrightarrow>
      read_slice (run_builds st' cs) s = new) \<and>
    (\<forall>ts. extractAllTables q = Ok ts \<and> filterTenantTables cfg ts \<noteq> [] \<longrightarrow>
      xss = select_args ps (length (filterTenantTables cfg ts)) t args \<longrightarrow>
      injectSelectFilter cfg ps q t args n = Ok (q', new) \<longrightarrow> read_slice (run_builds st' cs) s = new)"
proof -
  have r: "read_slice (run_builds st' cs) s = concat xss"
    using undisturbed_read [OF _ _ assms(3)] build_args_facts [OF assms(1,2)] by simp
  show ?thesis
    unfolding r
    by (auto simp: delete_args_def update_args_def select_args_def injectDeleteFilter_def injectUpdateFilter_def
        injectSelectFilter_def split_args_def res_bind_Ok_iff Let_def)
qed

definition empty_pool :: pool_state where
  "empty_pool = \<lparr>ps_arrays = [], ps_free = []\<rparr>"

lemma empty_pool_ok: "pool_ok empty_pool"
  by (simp add: pool_ok_def empty_pool_def)

text \<open>Two calls that overlap: the second is given a new array, the first reads after it.\<close>

lemma pooled_args_exclusive_witness:
  "read_slice (run_builds (fst (build_args None 0 empty_pool (delete_args PlaceholderDollar ''acme'' [GInt 1])))
     [(None, 0, delete_args PlaceholderDollar ''globex'' [GInt 2])])
     (snd (build_args None 0 empty_pool (delete_args PlaceholderDollar ''acme'' [GInt 1]))) = [GInt 1, GStr ''acme'']"
proof -
  let ?x = "delete_args PlaceholderDollar ''acme'' [GInt 1]"
  obtain st' s where b: "build_args None 0 empty_pool ?x = (st', s)" by (cases "build_args None 0 empty_pool ?x")
  have "fst (snd (build_args None 0 empty_pool ?x)) = 0" "snd (getArgsSlice None (fst (build_args None 0 empty_pool ?x))) = 1"
    by code_simp+
  then have u: "undisturbed (fst s) st' [(None, 0, delete_args PlaceholderDollar ''globex'' [GInt 2])]"
    using b by simp
  have i: "injectDeleteFilter \<lparr>TenantTables = [], TenantColumn = ''t''\<rparr> PlaceholderDollar [] ''acme'' [GInt 1] 0 =
      Ok (where_text \<lparr>TenantTables = [], TenantColumn = ''t''\<rparr> [] (placeholder PlaceholderDollar (add64 0 1)), [GInt 1, GStr ''acme''])"
    by (simp add: injectDeleteFilter_def)
  show ?thesis using pooled_args_exclusive [OF empty_pool_ok b u] i b by auto
qed

text \<open>
  The pool gives the array away too early: a call that is handed the item just returned, with as
  many arguments, replaces the first caller's arguments before its driver has read them, the tenant
  included.
\<close>

theorem pooled_args_race:
  assumes "pool_ok st" "build_args choice spare st (delete_args ps t args) = (st1, s1)" "length args < 8"
    "build_args (Some 0) spare' st1 (delete_args ps t' args') = (st2, s2)" "length args' = length args"
  shows "read_slice st1 s1 = concat (delete_args ps t args) \<and>
    read_slice st2 s1 = concat (delete_args ps t' args')"
proof -
  let ?xss = "delete_args ps t args" and ?yss = "delete_args ps t' args'"
  have len: "length (concat ?xss) = Suc (length args)" "length (concat ?yss) = Suc (length args)"
    using assms(5) by (simp_all add: delete_args_def)
  obtain p a where g: "getArgsSlice choice st = (p, a)" by (cases "getArgsSlice choice st")
  obtain p' r where b: "append_all spare p (a, 0) ?xss = (p', r)" by (cases "append_all spare p (a, 0) ?xss")
  note f = getArgsSlice_facts [OF assms(1) g] and ok = build_args_facts [OF assms(1,2)]
  have a1: "fst s1 = a" and p1: "st1 = putArgsSlice p' a" and r1: "s1 = r"
    using append_all_stays [OF f(1) b] f(2) len(1) assms(2,3) g b by (simp_all add: build_args_def)
  have l1: "length (ps_arrays p' ! a) = 8"
    using append_all_facts [OF f(1) b] f(1,2) by (auto simp: writes_def slice_ok_def)
  then obtain p2 where g2: "getArgsSlice (Some 0) st1 = (p2, a)" "ps_arrays p2 = ps_arrays st1"
    using p1 by (simp add: getArgsSlice_def putArgsSlice_def)
  obtain p3 r3 where b3: "append_all spare' p2 (a, 0) ?yss = (p3, r3)" by (cases "append_all spare' p2 (a, 0) ?yss")
  note f2 = getArgsSlice_facts [OF ok(2) g2(1)]
  have a2: "fst s2 = a" using append_all_stays [OF f2(1) b3] f2(2) len(2) assms(3,4) g2 b3
    by (simp add: build_args_def)
  have ok2: "read_slice st2 s2 = concat ?yss" "slice_ok st2 s2" using build_args_facts [OF ok(2) assms(4)] by simp_all
  have "length (read_slice st s) = snd s" if "slice_ok st s" for st s
    using that by (simp add: read_slice_def slice_ok_def)
  then have "snd s1 = snd s2" using ok ok2 len by metis
  then have "s1 = s2" using a1 a2 by (simp add: prod_eq_iff)
  with ok(1) ok2(1) show ?thesis by simp
qed

lemma pooled_args_race_witness:
  "read_slice (fst (build_args (Some 0) 0 (fst (build_args None 0 empty_pool (delete_args PlaceholderDollar ''acme'' [GInt 1])))
       (delete_args PlaceholderDollar ''globex'' [GInt 2])))
     (snd (build_args None 0 empty_pool (delete_args PlaceholderDollar ''acme'' [GInt 1]))) = [GInt 2, GStr ''globex'']"
proof -
  let ?x = "delete_args PlaceholderDollar ''acme'' [GInt 1]" and ?y = "delete_args PlaceholderDollar ''globex'' [GInt 2]"
  obtain st1 s1 where b: "build_args None 0 empty_pool ?x = (st1, s1)" by (cases "build_args None 0 empty_pool ?x")
  obtain st2 s2 where c: "build_args (Some 0) 0 st1 ?y = (st2, s2)" by (cases "build_args (Some 0) 0 st1 ?y")
  show ?thesis using pooled_args_race [OF empty_pool_ok b _ c] b c by (simp add: delete_args_def)
qed

end
