(* ===== verification/Sqlx_Adapter.thy ===== *)
theory Sqlx_Adapter
  imports Rewrite_Added
begin

text \<open>
  adapters/sqlx: \<^verbatim>\<open>DB\<close> and \<^verbatim>\<open>Tx\<close> over jmoiron/sqlx, with a rewriting of their own for positional
  placeholders. The library is a parameter: a handle, and a function \<open>exec\<close> that runs a call on a
  world. The two receivers repeat the same functions; here those are functions of the tenant
  column and the skipped tables. A \<^verbatim>\<open>map[string]bool\<close> of names is the list of its keys, in any order. Contexts
  are not nil: with a nil one \<^verbatim>\<open>shouldSkip\<close>, which comes first, panics.
\<close>

section \<open>Calls of the library and the state (adapter.go, transaction.go)\<close>

text \<open>\<open>'d\<close> is a destination of a scan or the argument of a named query.\<close>

datatype 'd sqlx_call =
    SQueryContext go_ctx string "gval list"
  | SQueryxContext go_ctx string "gval list"
  | SQueryRowxContext go_ctx string "gval list"
  | SGetContext go_ctx 'd string "gval list"
  | SSelectContext go_ctx 'd string "gval list"
  | SExecContext go_ctx string "gval list"
  | SNamedExecContext go_ctx string 'd

record sqlx_config =
  sxc_TenantColumn :: string
  sxc_SkipTables :: "string list"

record 'h sqlx_db =
  sx_DB :: 'h
  sx_tenantColumn :: string
  sx_skipTables :: "string list"

definition sx_New :: "'h \<Rightarrow> sqlx_config option \<Rightarrow> 'h sqlx_db" where
  "sx_New db cfg =
     (let cfg = (case cfg of None \<Rightarrow> \<lparr>sxc_TenantColumn = [], sxc_SkipTables = []\<rparr> | Some c \<Rightarrow> c);
          cfg = (if sxc_TenantColumn cfg = [] then cfg\<lparr>sxc_TenantColumn := ''tenant_id''\<rparr> else cfg)
      in \<lparr>sx_DB = db, sx_tenantColumn = sxc_TenantColumn cfg, sx_skipTables = sxc_SkipTables cfg\<rparr>)"

text \<open>\<^verbatim>\<open>sqlx.Open\<close> and \<^verbatim>\<open>sqlx.Connect\<close> are the parameter \<open>open_db\<close>.\<close>

definition sx_Open :: "('n \<Rightarrow> 'n \<Rightarrow> 'h res) \<Rightarrow> 'n \<Rightarrow> 'n \<Rightarrow> sqlx_config option \<Rightarrow> 'h sqlx_db res" where
  "sx_Open open_db driverName dataSourceName cfg =
     (case open_db driverName dataSourceName of
        Err e \<Rightarrow> Err (WrapErr ''failed to open database: '' e [])
      | Panic \<Rightarrow> Panic
      | Ok db \<Rightarrow> Ok (sx_New db cfg))"

definition sx_Connect :: "('n \<Rightarrow> 'n \<Rightarrow> 'h res) \<Rightarrow> 'n \<Rightarrow> 'n \<Rightarrow> sqlx_config option \<Rightarrow> 'h sqlx_db res" where
  "sx_Connect connect driverName dataSourceName cfg =
     (case connect driverName dataSourceName of
        Err e \<Rightarrow> Err (WrapErr ''failed to connect to database: '' e [])
      | Panic \<Rightarrow> Panic
      | Ok db \<Rightarrow> Ok (sx_New db cfg))"

definition sx_getTenantID :: "go_ctx \<Rightarrow> string res" where
  "sx_getTenantID ctx =
     (case FromGoContext (Some ctx) of
        Err e \<Rightarrow> Err (WrapErr ''failed to extract tenant context: '' e [])
      | Panic \<Rightarrow> Panic
      | Ok tc \<Rightarrow> Ok (tid_value (dc_tenantID tc)))"

definition SkipTenantKey :: ctx_key where
  "SkipTenantKey = SqlxKey ''sqlx_skip_tenant''"

text \<open>\<^verbatim>\<open>args[pos:]\<close> is a panic when there are fewer than \<open>pos\<close> arguments.\<close>

definition insertArgAtPosition :: "gval list \<Rightarrow> nat \<Rightarrow> string \<Rightarrow> gval list res" where
  "insertArgAtPosition args pos tenantID =
     (if pos \<le> length args then Ok (take pos args @ GStr tenantID # drop pos args) else Panic)"

definition skip_check :: "string list \<Rightarrow> go_ctx \<Rightarrow> string \<Rightarrow> bool" where
  "skip_check skipTables ctx query \<longleftrightarrow>
     ctx SkipTenantKey = Some (CtxBool True) \<or>
     list_ex (\<lambda>table. contains (to_lower query) (to_lower table)) skipTables"

definition sx_shouldSkip :: "'h sqlx_db \<Rightarrow> go_ctx \<Rightarrow> string \<Rightarrow> bool" where
  "sx_shouldSkip db ctx query = skip_check (sx_skipTables db) ctx query"

section \<open>The rewriting\<close>

definition sqlx_endings :: "string list" where
  "sqlx_endings = [''order by'', ''limit'', ''offset'', ''group by'', ''having'']"

text \<open>The text, and the position of the tenant among the arguments.\<close>

definition inject_condition :: "string \<Rightarrow> string \<Rightarrow> string \<times> nat" where
  "inject_condition column query =
     (let queryLower = to_lower query; tenantCondition = column @ '' = ?'' in
      case str_index queryLower ''where'' of
        Some wherePos \<Rightarrow>
          (take (wherePos + 5) query @ '' '' @ tenantCondition @ '' AND'' @ drop (wherePos + 5) query,
           qmarks (take wherePos query))
      | None \<Rightarrow>
          let insertPos = first_of queryLower sqlx_endings (length query)
          in (take insertPos query @ '' WHERE '' @ tenantCondition @ '' '' @ drop insertPos query,
              qmarks query))"

text \<open>
  An INSERT: the tenant column and a placeholder go to the end of the column list and of the
  first tuple. Where a part is missing the text stays as it is.
\<close>

definition inject_insert :: "string \<Rightarrow> string \<Rightarrow> string res" where
  "inject_insert column query =
     (let queryLower = to_lower query in
      case (str_index queryLower ''values'', str_index queryLower ''insert into'') of
        (Some valuesPos, Some insertPos) \<Rightarrow>
          res_bind (go_slice query (insertPos + 11) valuesPos) (\<lambda>between.
            let parts = trim_space between in
            case str_index parts ''('' of
              None \<Rightarrow> Ok query
            | Some p \<Rightarrow>
                let tableName = trim_space (take p parts);
                    columnList = trim_suffix (trim_space (drop (p + 1) parts)) '')'';
                    afterValues = trim_space (drop (valuesPos + 6) query)
                in if \<not> has_prefix afterValues ''('' then Ok query
                   else case str_index afterValues '')'' of
                     None \<Rightarrow> Ok query
                   | Some placeholderEnd \<Rightarrow>
                       Ok (''INSERT INTO '' @ tableName @ '' ('' @ columnList @ '', '' @ column @ '') VALUES (''
                           @ take (placeholderEnd - 1) (drop 1 afterValues) @ '', ?)''
                           @ drop (placeholderEnd + 1) afterValues))
      | _ \<Rightarrow> Ok query)"

definition sx_injectTenantCondition :: "'h sqlx_db \<Rightarrow> string \<Rightarrow> string \<times> nat" where
  "sx_injectTenantCondition db query = inject_condition (sx_tenantColumn db) query"

definition sx_injectTenantIntoInsert :: "'h sqlx_db \<Rightarrow> string \<Rightarrow> string res" where
  "sx_injectTenantIntoInsert db query = inject_insert (sx_tenantColumn db) query"

section \<open>The methods of DB\<close>

text \<open>
  What a method sends on: the statement and its arguments as they are, or with the tenant of the
  context. \<open>prepare_exec\<close> is that of \<^verbatim>\<open>ExecContext\<close>, where an INSERT gets its tenant last.
\<close>

definition prepare :: "string \<Rightarrow> string list \<Rightarrow> go_ctx \<Rightarrow> string \<Rightarrow> gval list \<Rightarrow> (string \<times> gval list) res" where
  "prepare column skipTables ctx query args =
     (if skip_check skipTables ctx query then Ok (query, args)
      else case sx_getTenantID ctx of
        Err e \<Rightarrow> Err (WrapErr ''tenant enforcement failed: '' e [])
      | Panic \<Rightarrow> Panic
      | Ok tenantID \<Rightarrow>
          let (query, pos) = inject_condition column query
          in res_bind (insertArgAtPosition args pos tenantID) (\<lambda>newArgs. Ok (query, newArgs)))"

definition prepare_exec :: "string \<Rightarrow> string list \<Rightarrow> go_ctx \<Rightarrow> string \<Rightarrow> gval list \<Rightarrow> (string \<times> gval list) res" where
  "prepare_exec column skipTables ctx query args =
     (if skip_check skipTables ctx query then Ok (query, args)
      else case sx_getTenantID ctx of
        Err e \<Rightarrow> Err (WrapErr ''tenant enforcement failed: '' e [])
      | Panic \<Rightarrow> Panic
      | Ok tenantID \<Rightarrow>
          if has_prefix (trim_space (to_lower query)) ''insert''
          then res_bind (inject_insert column query) (\<lambda>query. Ok (query, args @ [GStr tenantID]))
          else let (query, pos) = inject_condition column query
               in res_bind (insertArgAtPosition args pos tenantID) (\<lambda>newArgs. Ok (query, newArgs)))"

definition prepare_named :: "string list \<Rightarrow> go_ctx \<Rightarrow> string \<Rightarrow> unit res" where
  "prepare_named skipTables ctx query =
     (if skip_check skipTables ctx query then Ok ()
      else case sx_getTenantID ctx of
        Err e \<Rightarrow> Err (WrapErr ''tenant enforcement failed: '' e [])
      | Panic \<Rightarrow> Panic
      | Ok tenantID \<Rightarrow> Ok ())"

text \<open>The call made with a prepared statement; an error is returned without one.\<close>

definition send_prepared ::
  "(string \<times> gval list) res \<Rightarrow> (string \<Rightarrow> gval list \<Rightarrow> 'w \<Rightarrow> 'w \<times> 'r res) \<Rightarrow> 'w \<Rightarrow> 'w \<times> 'r res" where
  "send_prepared p run w =
     (case p of Ok (query, args) \<Rightarrow> run query args w | Err e \<Rightarrow> (w, Err e) | Panic \<Rightarrow> (w, Panic))"

text \<open>\<^verbatim>\<open>QueryRowxContext\<close> cannot return an error: it sends a statement without rows instead.\<close>

definition send_row_prepared ::
  "(string \<times> gval list) res \<Rightarrow> (string \<Rightarrow> gval list \<Rightarrow> 'w \<Rightarrow> 'w \<times> 'r res) \<Rightarrow> 'w \<Rightarrow> 'w \<times> 'r res" where
  "send_row_prepared p run w =
     (case p of
        Ok (query, args) \<Rightarrow> run query args w
      | Err e \<Rightarrow> run ''SELECT 1 WHERE 1=0'' [] w
      | Panic \<Rightarrow> (w, Panic))"

definition sx_prepare :: "'h sqlx_db \<Rightarrow> go_ctx \<Rightarrow> string \<Rightarrow> gval list \<Rightarrow> (string \<times> gval list) res" where
  "sx_prepare db = prepare (sx_tenantColumn db) (sx_skipTables db)"

definition sx_QueryContext where
  "sx_QueryContext exec db w ctx query args =
     send_prepared (sx_prepare db ctx query args)
       (\<lambda>query args. exec (sx_DB db) (SQueryContext ctx query args)) w"

definition sx_QueryxContext where
  "sx_QueryxContext exec db w ctx query args =
     send_prepared (sx_prepare db ctx query args)
       (\<lambda>query args. exec (sx_DB db) (SQueryxContext ctx query args)) w"

definition sx_QueryRowxContext where
  "sx_QueryRowxContext exec db w ctx query args =
     send_row_prepared (sx_prepare db ctx query args)
       (\<lambda>query args. exec (sx_DB db) (SQueryRowxContext ctx query args)) w"

definition sx_GetContext where
  "sx_GetContext exec db w ctx dest query args =
     send_prepared (sx_prepare db ctx query args)
       (\<lambda>query args. exec (sx_DB db) (SGetContext ctx dest query args)) w"

definition sx_SelectContext where
  "sx_SelectContext exec db w ctx dest query args =
     send_prepared (sx_prepare db ctx query args)
       (\<lambda>query args. exec (sx_DB db) (SSelectContext ctx dest query args)) w"

definition sx_ExecContext where
  "sx_ExecContext exec db w ctx query args =
     send_prepared (prepare_exec (sx_tenantColumn db) (sx_skipTables db) ctx query args)
       (\<lambda>query args. exec (sx_DB db) (SExecContext ctx query args)) w"

definition sx_NamedExecContext where
  "sx_NamedExecContext exec db w ctx query arg =
     (case prepare_named (sx_skipTables db) ctx query of
        Ok _ \<Rightarrow> exec (sx_DB db) (SNamedExecContext ctx query arg) w
      | Err e \<Rightarrow> (w, Err e)
      | Panic \<Rightarrow> (w, Panic))"

definition sx_WithoutTenant :: "'h sqlx_db \<Rightarrow> 'h sqlx_db" where
  "sx_WithoutTenant db = db\<lparr>sx_skipTables := [''*'']\<rparr>"

definition sx_SkipTenant :: "go_ctx \<Rightarrow> go_ctx" where
  "sx_SkipTenant ctx = WithValue ctx SkipTenantKey (CtxBool True)"

definition sx_WithTenant :: "go_ctx \<Rightarrow> string \<Rightarrow> int \<Rightarrow> go_ctx res" where
  "sx_WithTenant ctx tenantID now =
     (case NewContext tenantID ''system'' ''sqlx-adapter'' now of
        Err e \<Rightarrow> Err (WrapErr ''failed to create tenant context: '' e [])
      | Panic \<Rightarrow> Panic
      | Ok tc \<Rightarrow> Ok (ToGoContext tc ctx))"

section \<open>Transactions\<close>

text \<open>A transaction keeps the context it was begun with; its methods take the tenant from there.\<close>

record 'x sqlx_tx =
  stx_Tx :: 'x
  stx_ctx :: go_ctx
  stx_tenantColumn :: string
  stx_skipTables :: "string list"

definition sx_BeginTxx ::
  "('h \<Rightarrow> 'w \<Rightarrow> go_ctx \<Rightarrow> 'o \<Rightarrow> 'w \<times> 'x res) \<Rightarrow> 'h sqlx_db \<Rightarrow> 'w \<Rightarrow> go_ctx \<Rightarrow> 'o \<Rightarrow> 'w \<times> 'x sqlx_tx res" where
  "sx_BeginTxx beginTx db w ctx opts =
     (case beginTx (sx_DB db) w ctx opts of
        (w, Ok x) \<Rightarrow>
          (w, Ok \<lparr>stx_Tx = x, stx_ctx = ctx, stx_tenantColumn = sx_tenantColumn db,
                  stx_skipTables = sx_skipTables db\<rparr>)
      | (w, Err e) \<Rightarrow> (w, Err e)
      | (w, Panic) \<Rightarrow> (w, Panic))"

definition stx_getTenantID :: "'x sqlx_tx \<Rightarrow> string res" where
  "stx_getTenantID tx = sx_getTenantID (stx_ctx tx)"

definition stx_shouldSkip :: "'x sqlx_tx \<Rightarrow> string \<Rightarrow> bool" where
  "stx_shouldSkip tx query = skip_check (stx_skipTables tx) (stx_ctx tx) query"

definition stx_injectTenantCondition :: "'x sqlx_tx \<Rightarrow> string \<Rightarrow> string \<times> nat" where
  "stx_injectTenantCondition tx query = inject_condition (stx_tenantColumn tx) query"

definition stx_injectTenantIntoInsert :: "'x sqlx_tx \<Rightarrow> string \<Rightarrow> string res" where
  "stx_injectTenantIntoInsert tx query = inject_insert (stx_tenantColumn tx) query"

definition stx_prepare :: "'x sqlx_tx \<Rightarrow> string \<Rightarrow> gval list \<Rightarrow> (string \<times> gval list) res" where
  "stx_prepare tx = prepare (stx_tenantColumn tx) (stx_skipTables tx) (stx_ctx tx)"

definition stx_QueryContext where
  "stx_QueryContext exec tx w ctx query args =
     send_prepared (stx_prepare tx query args)
       (\<lambda>query args. exec (stx_Tx tx) (SQueryContext ctx query args)) w"

definition stx_QueryxContext where
  "stx_QueryxContext exec tx w ctx query args =
     send_prepared (stx_prepare tx query args)
       (\<lambda>query args. exec (stx_Tx tx) (SQueryxContext ctx query args)) w"

definition stx_QueryRowxContext where
  "stx_QueryRowxContext exec tx w ctx query args =
     send_row_prepared (stx_prepare tx query args)
       (\<lambda>query args. exec (stx_Tx tx) (SQueryRowxContext ctx query args)) w"

definition stx_GetContext where
  "stx_GetContext exec tx w ctx dest query args =
     send_prepared (stx_prepare tx query args)
       (\<lambda>query args. exec (stx_Tx tx) (SGetContext ctx dest query args)) w"

definition stx_SelectContext where
  "stx_SelectContext exec tx w ctx dest query args =
     send_prepared (stx_prepare tx query args)
       (\<lambda>query args. exec (stx_Tx tx) (SSelectContext ctx dest query args)) w"

definition stx_ExecContext where
  "stx_ExecContext exec tx w ctx query args =
     send_prepared (prepare_exec (stx_tenantColumn tx) (stx_skipTables tx) (stx_ctx tx) query args)
       (\<lambda>query args. exec (stx_Tx tx) (SExecContext ctx query args)) w"

definition stx_NamedExecContext where
  "stx_NamedExecContext exec tx w ctx query arg =
     (case prepare_named (stx_skipTables tx) (stx_ctx tx) query of
        Ok _ \<Rightarrow> exec (stx_Tx tx) (SNamedExecContext ctx query arg) w
      | Err e \<Rightarrow> (w, Err e)
      | Panic \<Rightarrow> (w, Panic))"

section \<open>What the rewriting binds\<close>

text \<open>Where the condition goes: after the word WHERE, or before the first of the endings.\<close>

definition sqlx_cut :: "string \<Rightarrow> nat" where
  "sqlx_cut q =
     (case str_index (to_lower q) ''where'' of
        Some p \<Rightarrow> p + 5
      | None \<Rightarrow> first_of (to_lower q) sqlx_endings (length q))"

text \<open>
  The bound statement. With a WHERE the condition is joined by AND without parentheses: an OR in
  the conditions that follow is not under the tenant's condition.
\<close>

definition sqlx_bound :: "bool \<Rightarrow> string \<Rightarrow> string \<Rightarrow> piece list \<Rightarrow> piece list \<Rightarrow> piece list" where
  "sqlx_bound joined column t before rest =
     before @ (if joined then map Ch ('' '' @ column @ '' = '') @ [Val (GStr t)] @ map Ch '' AND''
               else map Ch ('' WHERE '' @ column @ '' = '') @ [Val (GStr t)] @ map Ch '' '') @ rest"

lemma qmark_low_char: "low_char c = CHR ''?'' \<longleftrightarrow> c = CHR ''?''"
  by (rule low_char_eq_iff) (simp_all add: is_lower_def is_upper_def)

lemma qmarks_to_lower: "qmarks (to_lower s) = qmarks s"
  by (induction s) (simp_all add: to_lower_def qmark_low_char)

lemma to_lower_take: "to_lower (take n s) = take n (to_lower s)"
  by (simp add: to_lower_def take_map)

lemma qmarks_where:
  assumes "str_index (to_lower q) ''where'' = Some p"
  shows "qmarks (take (p + 5) q) = qmarks (take p q)"
proof -
  have five: "length ''where'' = 5" by simp
  have "take 5 (drop p (to_lower q)) = ''where''"
    using str_index_SomeD [OF assms] unfolding has_prefix_def five by blast
  then have "take (p + 5) (to_lower q) = take p (to_lower q) @ ''where''"
    by (simp only: take_add)
  then have "qmarks (to_lower (take (p + 5) q)) = qmarks (to_lower (take p q) @ ''where'')"
    by (simp only: to_lower_take)
  then show ?thesis by (simp add: qmarks_to_lower)
qed

text \<open>A text with one more placeholder, and its argument at the place of that placeholder.\<close>

lemma bind_q_insert:
  assumes "qmarks b \<le> length args" "qmarks c = 0"
  shows "bind_q (b @ c @ CHR ''?'' # r) (take (qmarks b) args @ v # drop (qmarks b) args) =
    bind_q b args @ map Ch c @ Val v # bind_q r (drop (qmarks b) args)"
proof -
  have "bind_q (b @ c @ CHR ''?'' # r) (take (qmarks b) args @ v # drop (qmarks b) args) =
      bind_q b (take (qmarks b) args @ v # drop (qmarks b) args) @ bind_q (c @ CHR ''?'' # r) (v # drop (qmarks b) args)"
    using assms(1) by (subst bind_q_append) simp_all
  also have "bind_q b (take (qmarks b) args @ v # drop (qmarks b) args) = bind_q b args"
    using assms(1) by (subst bind_q_prefix) (simp_all add: bind_q_take)
  also have "bind_q (c @ CHR ''?'' # r) (v # drop (qmarks b) args) = map Ch c @ Val v # bind_q r (drop (qmarks b) args)"
    using assms(2) by (subst bind_q_append) (simp_all add: bind_q_plain)
  finally show ?thesis .
qed

lemma inject_condition_bound:
  assumes "qmarks column = 0" "qmarks q \<le> length args"
    "\<not> contains (to_lower q) ''where'' \<Longrightarrow> qmarks (drop (sqlx_cut q) q) = 0"
  shows "\<exists>q' pos new. inject_condition column q = (q', pos) \<and> insertArgAtPosition args pos t = Ok new \<and>
    bind_q q' new = sqlx_bound (contains (to_lower q) ''where'') column t
      (bind_q (take (sqlx_cut q) q) args) (bind_q (drop (sqlx_cut q) q) (drop (qmarks (take (sqlx_cut q) q)) args))"
proof -
  let ?b = "take (sqlx_cut q) q" and ?r = "drop (sqlx_cut q) q"
  let ?new = "take (qmarks ?b) args @ GStr t # drop (qmarks ?b) args"
  have "qmarks ?b + qmarks ?r = qmarks q" by (metis append_take_drop_id count_char_append)
  then have le: "qmarks ?b \<le> length args" using assms(2) by simp
  have plain: "qmarks ('' '' @ column @ '' = '') = 0" "qmarks ('' WHERE '' @ column @ '' = '') = 0"
    using assms(1) by simp_all
  show ?thesis
  proof (cases "str_index (to_lower q) ''where''")
    case (Some p)
    have "inject_condition column q = (?b @ ('' '' @ column @ '' = '') @ CHR ''?'' # '' AND'' @ ?r, qmarks ?b)"
      using Some by (simp add: inject_condition_def sqlx_cut_def qmarks_where [OF Some])
    moreover have "insertArgAtPosition args (qmarks ?b) t = Ok ?new"
      using le by (simp add: insertArgAtPosition_def)
    moreover have "bind_q ('' AND'' @ ?r) as = map Ch '' AND'' @ bind_q ?r as" for as by simp
    ultimately show ?thesis
      using Some bind_q_insert [OF le plain(1), of "'' AND'' @ ?r" "GStr t"]
      by (auto simp: sqlx_bound_def contains_def)
  next
    case None
    have "qmarks ?r = 0" using assms(3) None by (simp add: contains_def)
    then have k: "qmarks q = qmarks ?b" using \<open>qmarks ?b + qmarks ?r = qmarks q\<close> by simp
    have "inject_condition column q = (?b @ ('' WHERE '' @ column @ '' = '') @ CHR ''?'' # '' '' @ ?r, qmarks ?b)"
      using None k by (simp add: inject_condition_def sqlx_cut_def Let_def)
    moreover have "insertArgAtPosition args (qmarks ?b) t = Ok ?new"
      using le by (simp add: insertArgAtPosition_def)
    ultimately show ?thesis
      using None bind_q_insert [OF le plain(2), of "'' '' @ ?r" "GStr t"]
      by (auto simp: sqlx_bound_def contains_def)
  qed
qed

text \<open>An INSERT cut into its table, its columns, the values of its first tuple and the rest.\<close>

definition sqlx_insert_parts :: "string \<Rightarrow> (string \<times> string \<times> string \<times> string) option" where
  "sqlx_insert_parts q =
     (case (str_index (to_lower q) ''values'', str_index (to_lower q) ''insert into'') of
        (Some v, Some i) \<Rightarrow>
          if v < i + 11 then None
          else let parts = trim_space (take (v - (i + 11)) (drop (i + 11) q));
                   after = trim_space (drop (v + 6) q)
               in (case (str_index parts ''('', str_index after '')'') of
                     (Some p, Some e) \<Rightarrow>
                       if has_prefix after ''(''
                       then Some (trim_space (take p parts),
                                  trim_suffix (trim_space (drop (p + 1) parts)) '')'',
                                  take (e - 1) (drop 1 after), drop (e + 1) after)
                       else None
                   | _ \<Rightarrow> None)
      | _ \<Rightarrow> None)"

lemma inject_insert_parts:
  assumes "sqlx_insert_parts q = Some (table, cols, vals, rest)"
  shows "inject_insert column q =
    Ok (''INSERT INTO '' @ table @ '' ('' @ cols @ '', '' @ column @ '') VALUES ('' @ vals @ '', ?)'' @ rest)"
proof -
  obtain v i where v: "str_index (to_lower q) ''values'' = Some v"
    and i: "str_index (to_lower q) ''insert into'' = Some i" and le: "\<not> v < i + 11"
    using assms by (auto simp: sqlx_insert_parts_def split: option.splits if_splits)
  have "v \<le> length q" using str_index_length [OF v] by simp
  then have s: "go_slice q (i + 11) v = Ok (take (v - (i + 11)) (drop (i + 11) q))"
    using le by (simp add: go_slice_def)
  show ?thesis
    using assms le unfolding sqlx_insert_parts_def inject_insert_def v i Let_def
    by (simp add: s Let_def split: option.splits if_splits)
qed

text \<open>What it binds: the tenant is the last value of the first tuple.\<close>

definition sqlx_insert_bound ::
  "string \<Rightarrow> string \<Rightarrow> string \<Rightarrow> string \<Rightarrow> piece list \<Rightarrow> string \<Rightarrow> piece list" where
  "sqlx_insert_bound column t table cols vals rest =
     map Ch (''INSERT INTO '' @ table @ '' ('' @ cols @ '', '' @ column @ '') VALUES ('')
     @ vals @ map Ch '', '' @ [Val (GStr t)] @ map Ch ('')'' @ rest)"

lemma inject_insert_bound:
  assumes "qmarks (table @ cols @ column @ rest) = 0" "qmarks vals = length args"
  shows "bind_q (''INSERT INTO '' @ table @ '' ('' @ cols @ '', '' @ column @ '') VALUES ('' @ vals @ '', ?)'' @ rest)
      (args @ [GStr t]) = sqlx_insert_bound column t table cols (bind_q vals args) rest"
proof -
  let ?head = "''INSERT INTO '' @ table @ '' ('' @ cols @ '', '' @ column @ '') VALUES (''"
  have h: "qmarks ?head = 0" "qmarks ('')'' @ rest) = 0" using assms(1) by simp_all
  have "bind_q (?head @ vals @ '', ?)'' @ rest) (args @ [GStr t]) =
      map Ch ?head @ bind_q vals (args @ [GStr t]) @ bind_q ('', ?)'' @ rest) [GStr t]"
    using h(1) assms(2) by (simp only: bind_q_append bind_q_plain le0 list.size length_append drop_0) simp
  also have "bind_q vals (args @ [GStr t]) = bind_q vals args" by (rule bind_q_prefix) (simp add: assms(2))
  also have "bind_q ('', ?)'' @ rest) [GStr t] = map Ch '', '' @ [Val (GStr t)] @ map Ch ('')'' @ rest)"
    using h(2) by (simp add: bind_q_plain)
  finally show ?thesis by (simp add: sqlx_insert_bound_def)
qed

section \<open>The methods\<close>

definition sqlx_no_tenant :: "go_error \<Rightarrow> go_error" where
  "sqlx_no_tenant e =
     WrapErr ''tenant enforcement failed: '' (WrapErr ''failed to extract tenant context: '' e []) []"

lemma prepare_refuses:
  assumes "\<not> skip_check sk ctx q" "FromGoContext (Some ctx) = Err e"
  shows "prepare col sk ctx q args = Err (sqlx_no_tenant e)"
    "prepare_exec col sk ctx q args = Err (sqlx_no_tenant e)"
    "prepare_named sk ctx q = Err (sqlx_no_tenant e)"
  using assms
  by (simp_all add: prepare_def prepare_exec_def prepare_named_def sx_getTenantID_def sqlx_no_tenant_def)

lemmas sx_methods = sx_QueryContext_def sx_QueryxContext_def sx_QueryRowxContext_def sx_GetContext_def
  sx_SelectContext_def sx_ExecContext_def sx_NamedExecContext_def

lemmas stx_methods = stx_QueryContext_def stx_QueryxContext_def stx_QueryRowxContext_def stx_GetContext_def
  stx_SelectContext_def stx_ExecContext_def stx_NamedExecContext_def

text \<open>
  C10. Without a tenant context the sqlx adapter runs no statement of the caller that it does not
  skip: every method fails with the world unchanged, except that \<^verbatim>\<open>QueryRowxContext\<close> sends a fixed
  statement without rows.
\<close>

theorem sqlx_refuses_without_tenant:
  assumes "\<not> sx_shouldSkip db ctx q" "FromGoContext (Some ctx) = Err e"
  shows "sx_QueryContext exec db w ctx q args = (w, Err (sqlx_no_tenant e)) \<and>
    sx_QueryxContext exec db w ctx q args = (w, Err (sqlx_no_tenant e)) \<and>
    sx_GetContext exec db w ctx dest q args = (w, Err (sqlx_no_tenant e)) \<and>
    sx_SelectContext exec db w ctx dest q args = (w, Err (sqlx_no_tenant e)) \<and>
    sx_ExecContext exec db w ctx q args = (w, Err (sqlx_no_tenant e)) \<and>
    sx_NamedExecContext exec db w ctx q dest = (w, Err (sqlx_no_tenant e)) \<and>
    sx_QueryRowxContext exec db w ctx q args =
      exec (sx_DB db) (SQueryRowxContext ctx ''SELECT 1 WHERE 1=0'' []) w"
  using prepare_refuses [OF assms(1) [unfolded sx_shouldSkip_def] assms(2)]
  by (simp add: sx_methods sx_prepare_def send_prepared_def send_row_prepared_def)

definition record_sqlx :: "unit \<Rightarrow> unit sqlx_call \<Rightarrow> unit sqlx_call list \<Rightarrow> unit sqlx_call list \<times> unit res" where
  "record_sqlx h c w = (w @ [c], Ok ())"

definition shop_sqlx :: "unit sqlx_db" where
  "shop_sqlx = sx_New () (Some \<lparr>sxc_TenantColumn = [], sxc_SkipTables = [''countries'']\<rparr>)"

lemma sqlx_refuses_without_tenant_witness:
  "sx_ExecContext record_sqlx shop_sqlx [] background ''DELETE FROM users'' [] =
     ([], Err (sqlx_no_tenant ErrInvalidContext))"
proof -
  have n: "\<not> contains (to_lower ''DELETE FROM users'') (to_lower ''countries'')" by code_simp
  have "\<not> sx_shouldSkip shop_sqlx background ''DELETE FROM users''"
    using n by (simp add: sx_shouldSkip_def skip_check_def shop_sqlx_def sx_New_def background_def)
  moreover have "FromGoContext (Some background) = Err ErrInvalidContext"
    by (simp add: FromGoContext_def background_def)
  ultimately show ?thesis
    using sqlx_refuses_without_tenant [of shop_sqlx background "''DELETE FROM users''" ErrInvalidContext record_sqlx "[]" "[]" "()"]
    by simp
qed

lemma prepare_bound:
  assumes "\<not> skip_check sk ctx q" "FromGoContext (Some ctx) = Ok tc" "qmarks col = 0" "qmarks q \<le> length args"
    "\<not> contains (to_lower q) ''where'' \<Longrightarrow> qmarks (drop (sqlx_cut q) q) = 0"
  shows "\<exists>q' new. prepare col sk ctx q args = Ok (q', new) \<and>
    (\<not> has_prefix (trim_space (to_lower q)) ''insert'' \<longrightarrow> prepare_exec col sk ctx q args = Ok (q', new)) \<and>
    bind_q q' new = sqlx_bound (contains (to_lower q) ''where'') col (tid_value (dc_tenantID tc))
      (bind_q (take (sqlx_cut q) q) args) (bind_q (drop (sqlx_cut q) q) (drop (qmarks (take (sqlx_cut q) q)) args))"
  using inject_condition_bound [OF assms(3,4,5), where t = "tid_value (dc_tenantID tc)"] assms(1,2)
  by (fastforce simp: prepare_def prepare_exec_def sx_getTenantID_def)

text \<open>
  C9. The sqlx adapter's condition: for a statement with enough arguments, and without placeholders
  after the place where a WHERE would be added, every query method and \<^verbatim>\<open>ExecContext\<close> for what is no
  INSERT send a statement that binds the caller's arguments as before and the tenant in the added
  condition, which comes right after the word WHERE or makes up a WHERE of its own.
\<close>

theorem sqlx_sends_bound:
  assumes "\<not> sx_shouldSkip db ctx q" "FromGoContext (Some ctx) = Ok tc" "qmarks (sx_tenantColumn db) = 0"
    "qmarks q \<le> length args" "contains (to_lower q) ''where'' \<or> qmarks (drop (sqlx_cut q) q) = 0"
  shows "\<exists>q' new.
    sx_QueryContext exec db w ctx q args = exec (sx_DB db) (SQueryContext ctx q' new) w \<and>
    sx_QueryxContext exec db w ctx q args = exec (sx_DB db) (SQueryxContext ctx q' new) w \<and>
    sx_QueryRowxContext exec db w ctx q args = exec (sx_DB db) (SQueryRowxContext ctx q' new) w \<and>
    sx_GetContext exec db w ctx dest q args = exec (sx_DB db) (SGetContext ctx dest q' new) w \<and>
    sx_SelectContext exec db w ctx dest q args = exec (sx_DB db) (SSelectContext ctx dest q' new) w \<and>
    (\<not> has_prefix (trim_space (to_lower q)) ''insert'' \<longrightarrow>
       sx_ExecContext exec db w ctx q args = exec (sx_DB db) (SExecContext ctx q' new) w) \<and>
    bind_q q args = bind_q (take (sqlx_cut q) q) args
      @ bind_q (drop (sqlx_cut q) q) (drop (qmarks (take (sqlx_cut q) q)) args) \<and>
    bind_q q' new = sqlx_bound (contains (to_lower q) ''where'') (sx_tenantColumn db)
      (tid_value (dc_tenantID tc)) (bind_q (take (sqlx_cut q) q) args)
      (bind_q (drop (sqlx_cut q) q) (drop (qmarks (take (sqlx_cut q) q)) args))"
proof -
  have "qmarks (drop (sqlx_cut q) q) = 0" if "\<not> contains (to_lower q) ''where''" using that assms(5) by blast
  from prepare_bound [OF assms(1) [unfolded sx_shouldSkip_def] assms(2-4) this]
  obtain q' new where p: "prepare (sx_tenantColumn db) (sx_skipTables db) ctx q args = Ok (q', new)"
    "\<not> has_prefix (trim_space (to_lower q)) ''insert'' \<longrightarrow>
       prepare_exec (sx_tenantColumn db) (sx_skipTables db) ctx q args = Ok (q', new)"
    "bind_q q' new = sqlx_bound (contains (to_lower q) ''where'') (sx_tenantColumn db)
      (tid_value (dc_tenantID tc)) (bind_q (take (sqlx_cut q) q) args)
      (bind_q (drop (sqlx_cut q) q) (drop (qmarks (take (sqlx_cut q) q)) args))" by blast
  have "qmarks (take (sqlx_cut q) q) + qmarks (drop (sqlx_cut q) q) = qmarks q"
    by (metis append_take_drop_id count_char_append)
  then have "qmarks (take (sqlx_cut q) q) \<le> length args" using assms(4) by linarith
  from bind_q_append [OF this, of "drop (sqlx_cut q) q"]
  have "bind_q q args = bind_q (take (sqlx_cut q) q) args
      @ bind_q (drop (sqlx_cut q) q) (drop (qmarks (take (sqlx_cut q) q)) args)" by simp
  with p show ?thesis
    by (intro exI [of _ q'] exI [of _ new])
      (simp add: sx_methods sx_prepare_def send_prepared_def send_row_prepared_def)
qed

definition acme_sqlx_ctx :: go_ctx where
  "acme_sqlx_ctx = ToGoContext \<lparr>dc_tenantID = \<lparr>tid_value = ''acme''\<rparr>, dc_userID = ''u'', dc_requestID = ''r'',
     dc_timestamp = 0\<rparr> background"

lemma acme_sqlx_ctx:
  "\<exists>tc. FromGoContext (Some acme_sqlx_ctx) = Ok tc \<and> tid_value (dc_tenantID tc) = ''acme''"
  by (simp add: acme_sqlx_ctx_def ToGoContext_def WithValue_def FromGoContext_def)

lemma acme_sqlx_not_skipped: "contains (to_lower q) ''countries'' = False \<Longrightarrow> \<not> sx_shouldSkip shop_sqlx acme_sqlx_ctx q"
proof -
  have l: "to_lower ''countries'' = ''countries''" by code_simp
  show "contains (to_lower q) ''countries'' = False \<Longrightarrow> \<not> sx_shouldSkip shop_sqlx acme_sqlx_ctx q"
    by (simp add: sx_shouldSkip_def skip_check_def shop_sqlx_def sx_New_def acme_sqlx_ctx_def ToGoContext_def l
        WithValue_def background_def SkipTenantKey_def TenantContextKey_def)
qed

definition sqlx_update :: string where
  "sqlx_update = ''UPDATE users SET a = ? WHERE b = ? OR c''"

lemma sqlx_sends_bound_witness:
  "\<exists>q' new. sx_ExecContext record_sqlx shop_sqlx [] acme_sqlx_ctx sqlx_update [GInt 7, GInt 1] =
     ([SExecContext acme_sqlx_ctx q' new], Ok ()) \<and>
   bind_q q' new = sqlx_bound True ''tenant_id'' ''acme''
     (map Ch ''UPDATE users SET a = '' @ [Val (GInt 7)] @ map Ch '' WHERE'')
     (map Ch '' b = '' @ [Val (GInt 1)] @ map Ch '' OR c'')"
proof -
  obtain tc where tc: "FromGoContext (Some acme_sqlx_ctx) = Ok tc" "tid_value (dc_tenantID tc) = ''acme''"
    using acme_sqlx_ctx by blast
  have s: "\<not> sx_shouldSkip shop_sqlx acme_sqlx_ctx sqlx_update"
    by (rule acme_sqlx_not_skipped) code_simp
  have c: "sx_tenantColumn shop_sqlx = ''tenant_id''" by (simp add: shop_sqlx_def sx_New_def)
  have m: "qmarks (sx_tenantColumn shop_sqlx) = 0" unfolding c by code_simp
  have l: "qmarks sqlx_update = 2" by code_simp
  have w: "contains (to_lower sqlx_update) ''where''" "\<not> has_prefix (trim_space (to_lower sqlx_update)) ''insert''"
    by code_simp+
  have cut: "sqlx_cut sqlx_update = 28" by code_simp
  have b: "take 28 sqlx_update = ''UPDATE users SET a = ? WHERE''" "drop 28 sqlx_update = '' b = ? OR c''" by code_simp+
  show ?thesis
    using sqlx_sends_bound [OF s tc(1) m, where args = "[GInt 7, GInt 1]" and exec = record_sqlx and w = "[]" and dest = "()"]
    using w by (auto simp: l cut b c tc(2) record_sqlx_def)
qed

text \<open>
  An INSERT through the sqlx adapter gets the tenant column last in its column list and the
  tenant as the last value of its first tuple, when the tuple takes all the arguments.
\<close>

theorem sqlx_insert_sends_bound:
  assumes "\<not> sx_shouldSkip db ctx q" "FromGoContext (Some ctx) = Ok tc"
    "has_prefix (trim_space (to_lower q)) ''insert''" "sqlx_insert_parts q = Some (table, cols, vals, rest)"
    "qmarks (table @ cols @ sx_tenantColumn db @ rest) = 0" "qmarks vals = length args"
  shows "\<exists>q' new. sx_ExecContext exec db w ctx q args = exec (sx_DB db) (SExecContext ctx q' new) w \<and>
    bind_q q' new = sqlx_insert_bound (sx_tenantColumn db) (tid_value (dc_tenantID tc)) table cols
      (bind_q vals args) rest"
  using assms(1-3)
  by (auto simp: sx_ExecContext_def prepare_exec_def sx_shouldSkip_def sx_getTenantID_def
      inject_insert_parts [OF assms(4)] send_prepared_def
      inject_insert_bound [OF assms(5,6), simplified] intro!: exI)

lemma sqlx_insert_sends_bound_witness:
  "\<exists>q' new. sx_ExecContext record_sqlx shop_sqlx [] acme_sqlx_ctx ''INSERT INTO users (a, b) VALUES (?, ?)'' [GInt 7, GInt 1] =
     ([SExecContext acme_sqlx_ctx q' new], Ok ()) \<and>
   bind_q q' new = sqlx_insert_bound ''tenant_id'' ''acme'' ''users'' ''a, b''
     [Val (GInt 7), Ch CHR '','', Ch CHR '' '', Val (GInt 1)] []"
proof -
  let ?q = "''INSERT INTO users (a, b) VALUES (?, ?)''"
  obtain tc where tc: "FromGoContext (Some acme_sqlx_ctx) = Ok tc" "tid_value (dc_tenantID tc) = ''acme''"
    using acme_sqlx_ctx by blast
  have s: "\<not> sx_shouldSkip shop_sqlx acme_sqlx_ctx ?q"
    by (rule acme_sqlx_not_skipped) code_simp
  have i: "has_prefix (trim_space (to_lower ?q)) ''insert''" by code_simp
  have p: "sqlx_insert_parts ?q = Some (''users'', ''a, b'', ''?, ?'', [])" by code_simp
  have c: "sx_tenantColumn shop_sqlx = ''tenant_id''" by (simp add: shop_sqlx_def sx_New_def)
  show ?thesis
    using sqlx_insert_sends_bound [OF s tc(1) i p, where args = "[GInt 7, GInt 1]" and exec = record_sqlx and w = "[]"]
    by (auto simp: c tc(2) record_sqlx_def)
qed

text \<open>A call with another context: the one a method of a transaction hands on.\<close>

fun in_ctx :: "go_ctx \<Rightarrow> 'd sqlx_call \<Rightarrow> 'd sqlx_call" where
  "in_ctx ctx (SQueryContext c q args) = SQueryContext ctx q args"
| "in_ctx ctx (SQueryxContext c q args) = SQueryxContext ctx q args"
| "in_ctx ctx (SQueryRowxContext c q args) = SQueryRowxContext ctx q args"
| "in_ctx ctx (SGetContext c d q args) = SGetContext ctx d q args"
| "in_ctx ctx (SSelectContext c d q args) = SSelectContext ctx d q args"
| "in_ctx ctx (SExecContext c q args) = SExecContext ctx q args"
| "in_ctx ctx (SNamedExecContext c q d) = SNamedExecContext ctx q d"

text \<open>
  C27. A transaction of the sqlx adapter stays with the tenant it was begun for: each of its methods,
  in whatever context it is called, does what the method of \<^verbatim>\<open>DB\<close> does in the context of
  \<^verbatim>\<open>BeginTxx\<close>, on the library's transaction and with the new context only handed on.
\<close>

theorem sqlx_tx_keeps_tenant:
  assumes "sx_BeginTxx beginTx db w ctx opts = (w', Ok tx)" "run = (\<lambda>_ c. exec (stx_Tx tx) (in_ctx ctx' c))"
  shows "stx_QueryContext exec tx v ctx' q args = sx_QueryContext run db v ctx q args \<and>
    stx_QueryxContext exec tx v ctx' q args = sx_QueryxContext run db v ctx q args \<and>
    stx_QueryRowxContext exec tx v ctx' q args = sx_QueryRowxContext run db v ctx q args \<and>
    stx_GetContext exec tx v ctx' dest q args = sx_GetContext run db v ctx dest q args \<and>
    stx_SelectContext exec tx v ctx' dest q args = sx_SelectContext run db v ctx dest q args \<and>
    stx_ExecContext exec tx v ctx' q args = sx_ExecContext run db v ctx q args \<and>
    stx_NamedExecContext exec tx v ctx' q dest = sx_NamedExecContext run db v ctx q dest"
proof -
  have "stx_ctx tx = ctx" "stx_tenantColumn tx = sx_tenantColumn db" "stx_skipTables tx = sx_skipTables db"
    using assms(1) by (auto simp: sx_BeginTxx_def split: prod.splits res.splits)
  then show ?thesis
    using assms(2)
    by (simp add: sx_methods stx_methods sx_prepare_def stx_prepare_def send_prepared_def send_row_prepared_def
        split: res.split)
qed

definition begin_sqlx :: "unit \<Rightarrow> unit sqlx_call list \<Rightarrow> go_ctx \<Rightarrow> unit \<Rightarrow> unit sqlx_call list \<times> unit res" where
  "begin_sqlx h w ctx opts = (w, Ok ())"

lemma sqlx_tx_keeps_tenant_witness:
  "\<exists>tx. sx_BeginTxx begin_sqlx shop_sqlx [] acme_sqlx_ctx () = ([], Ok tx) \<and>
     stx_ExecContext record_sqlx tx [] background sqlx_update [] =
     sx_ExecContext (\<lambda>_ c. record_sqlx (stx_Tx tx) (in_ctx background c)) shop_sqlx [] acme_sqlx_ctx sqlx_update []"
proof -
  obtain tx where "sx_BeginTxx begin_sqlx shop_sqlx [] acme_sqlx_ctx () = ([], Ok tx)"
    by (simp add: sx_BeginTxx_def begin_sqlx_def)
  from this sqlx_tx_keeps_tenant [OF this refl, where exec = record_sqlx and ctx' = background and dest = "()"]
  show ?thesis by blast
qed

text \<open>
  \<^verbatim>\<open>WithoutTenant\<close> promises a handle that skips the enforcement, but it skips exactly the
  statements with a star in them, and those in a context that skips anyway.
\<close>

theorem sqlx_without_tenant_iff:
  "sx_shouldSkip (sx_WithoutTenant db) ctx q \<longleftrightarrow>
     ctx SkipTenantKey = Some (CtxBool True) \<or> CHR ''*'' \<in> set q"
proof -
  have star: "\<not> is_upper CHR ''*''" "\<not> is_lower CHR ''*''" by (simp_all add: is_upper_def is_lower_def)
  have "contains (to_lower q) ''*'' \<longleftrightarrow> CHR ''*'' \<in> set (to_lower q)"
    unfolding contains_iff by (auto simp: in_set_conv_decomp)
  also have "\<dots> \<longleftrightarrow> (\<exists>c \<in> set q. low_char c = CHR ''*'')" by (force simp: to_lower_def)
  also have "\<dots> \<longleftrightarrow> CHR ''*'' \<in> set q" by (simp add: low_char_eq_iff [OF star(2,1)])
  finally have "contains (to_lower q) ''*'' \<longleftrightarrow> CHR ''*'' \<in> set q" .
  moreover have "to_lower ''*'' = ''*''" using star by (simp add: to_lower_def)
  ultimately show ?thesis by (simp add: sx_shouldSkip_def skip_check_def sx_WithoutTenant_def)
qed

end
