(* ===== verification/Redis_Server.thy ===== *)
theory Redis_Server
  imports Tenant_Domain
begin

text \<open>
  What the Redis adapters use of a server: the commands of their scripts and of the client. The
  server is a parameter, a record of commands on its data \<open>'r\<close>; a command that is refused, for
  example on a value of another type, answers with an error. What the theorems rely on is stated as
  predicates of that record, each a part of the documented behaviour of the commands. A script runs
  as one step. Its numbers are those of Lua, exact for integers below \<open>2 ^ 53\<close>; here they are
  integers, and the theorems bound them.
\<close>

section \<open>Commands\<close>

record 'r redis =
  rd_get :: "'r \<Rightarrow> string \<Rightarrow> string option res"
  rd_set :: "'r \<Rightarrow> string \<Rightarrow> string \<Rightarrow> 'r \<times> unit res"
  rd_incrby :: "'r \<Rightarrow> string \<Rightarrow> int \<Rightarrow> 'r \<times> int res"
  rd_expire :: "'r \<Rightarrow> string \<Rightarrow> int \<Rightarrow> 'r \<times> unit res"
  rd_del :: "'r \<Rightarrow> string \<Rightarrow> 'r \<times> unit res"
  rd_hmget :: "'r \<Rightarrow> string \<Rightarrow> string \<Rightarrow> string option res"
  rd_hmset :: "'r \<Rightarrow> string \<Rightarrow> (string \<times> string) list \<Rightarrow> 'r \<times> unit res"
  rd_zremrangebyscore :: "'r \<Rightarrow> string \<Rightarrow> int \<Rightarrow> int \<Rightarrow> 'r \<times> unit res"
  rd_zcard :: "'r \<Rightarrow> string \<Rightarrow> int res"
  rd_zadd :: "'r \<Rightarrow> string \<Rightarrow> int \<Rightarrow> string \<Rightarrow> 'r \<times> unit res"

text \<open>
  A call of the client: served, carried out without an answer that arrives, or not carried out.
\<close>

datatype link = Served | NoReply go_error | Unreachable go_error

definition redis_call :: "link \<Rightarrow> ('r \<Rightarrow> 'r \<times> 'a res) \<Rightarrow> 'r \<Rightarrow> 'r \<times> 'a res" where
  "redis_call l run r =
     (case l of Served \<Rightarrow> run r | NoReply e \<Rightarrow> (fst (run r), Err e) | Unreachable e \<Rightarrow> (r, Err e))"

text \<open>The next command of a script; an error ends the script, what was written stays.\<close>

definition script_bind :: "'r \<times> 'a res \<Rightarrow> ('r \<Rightarrow> 'a \<Rightarrow> 'r \<times> 'b res) \<Rightarrow> 'r \<times> 'b res" where
  "script_bind p next_step =
     (case p of (r, Ok x) \<Rightarrow> next_step r x | (r, Err e) \<Rightarrow> (r, Err e) | (r, Panic) \<Rightarrow> (r, Panic))"

lemma script_bind_simps [simp]:
  "script_bind (r, Ok x) f = f r x" "script_bind (r, Err e) f = (r, Err e)" "script_bind (r, Panic) f = (r, Panic)"
  by (simp_all add: script_bind_def)

text \<open>The decimal integers a server stores, and reading one back.\<close>

definition str_int :: "string \<Rightarrow> int option" where
  "str_int s =
     (let ds = (if has_prefix s ''-'' then drop 1 s else s)
      in if ds = [] \<or> \<not> list_all is_digit ds then None
         else Some (if has_prefix s ''-'' then - int (digits_val ds) else int (digits_val ds)))"

lemma str_int_int_str [simp]: "str_int (int_str n) = Some n"
proof -
  have d: "list_all is_digit (nat_str m)" for m by (auto simp: list_all_iff dest: nat_str_digits)
  have "\<not> has_prefix (nat_str m) ''-''" for m
    using nat_str_digits [of "hd (nat_str m)" m]
    by (cases "nat_str m") (auto simp: is_digit_def dest: nat_str_digits)
  then show ?thesis using d by (auto simp: str_int_def int_str_def Let_def)
qed

text \<open>Integers that are exact numbers of a script.\<close>

definition lua_exact :: "int \<Rightarrow> bool" where
  "lua_exact n \<longleftrightarrow> \<bar>n\<bar> \<le> 2 ^ 53"

text \<open>The number a script reads with GET and \<^verbatim>\<open>tonumber\<close>: a missing key is 0, no number is an error.\<close>

definition script_number :: "string option \<Rightarrow> int res" where
  "script_number v =
     (case v of
        None \<Rightarrow> Ok 0
      | Some s \<Rightarrow> (case str_int s of Some n \<Rightarrow> Ok n | None \<Rightarrow> Err (NewErr ''ERR attempt to perform arithmetic on a nil value'')))"

definition get_number :: "'r redis \<Rightarrow> 'r \<Rightarrow> string \<Rightarrow> int res" where
  "get_number rd r key = res_bind (rd_get rd r key) script_number"

section \<open>Behaviour of the string commands\<close>

text \<open>A command on one key leaves what GET reads at every other key.\<close>

definition only_key :: "'r redis \<Rightarrow> string \<Rightarrow> 'r \<Rightarrow> 'r \<Rightarrow> bool" where
  "only_key rd k r r' \<longleftrightarrow> (\<forall>k'. k' \<noteq> k \<longrightarrow> rd_get rd r' k' = rd_get rd r k')"

definition incrby_ok :: "'r redis \<Rightarrow> bool" where
  "incrby_ok rd \<longleftrightarrow>
     (\<forall>r k m n. get_number rd r k = Ok m \<and> in_i64 (m + n) \<longrightarrow>
        (\<exists>r'. rd_incrby rd r k n = (r', Ok (m + n)) \<and> rd_get rd r' k = Ok (Some (int_str (m + n))))) \<and>
     (\<forall>r k n. only_key rd k r (fst (rd_incrby rd r k n)))"

text \<open>EXPIRE with a time to live changes nothing at once; without one it deletes the key.\<close>

definition expire_ok :: "'r redis \<Rightarrow> bool" where
  "expire_ok rd \<longleftrightarrow>
     (\<forall>r k t. \<exists>r'. rd_expire rd r k t = (r', Ok ()) \<and> only_key rd k r r' \<and>
        rd_get rd r' k = (if 0 < t then rd_get rd r k else Ok None))"

definition del_ok :: "'r redis \<Rightarrow> bool" where
  "del_ok rd \<longleftrightarrow> (\<forall>r k. \<exists>r'. rd_del rd r k = (r', Ok ()) \<and> only_key rd k r r' \<and> rd_get rd r' k = Ok None)"

definition set_ok :: "'r redis \<Rightarrow> bool" where
  "set_ok rd \<longleftrightarrow> (\<forall>r k v. \<exists>r'. rd_set rd r k v = (r', Ok ()) \<and> only_key rd k r r' \<and> rd_get rd r' k = Ok (Some v))"

definition redis_strings_ok :: "'r redis \<Rightarrow> bool" where
  "redis_strings_ok rd \<longleftrightarrow> incrby_ok rd \<and> expire_ok rd \<and> del_ok rd \<and> set_ok rd"

lemma redis_incrby:
  assumes "redis_strings_ok rd" "get_number rd r k = Ok m" "in_i64 (m + n)"
  shows "\<exists>r'. rd_incrby rd r k n = (r', Ok (m + n)) \<and> rd_get rd r' k = Ok (Some (int_str (m + n))) \<and>
    only_key rd k r r'"
  using assms unfolding redis_strings_ok_def incrby_ok_def by (metis fst_conv)

lemma redis_expire:
  assumes "redis_strings_ok rd"
  shows "\<exists>r'. rd_expire rd r k t = (r', Ok ()) \<and> only_key rd k r r' \<and>
    rd_get rd r' k = (if 0 < t then rd_get rd r k else Ok None)"
  using assms by (simp add: redis_strings_ok_def expire_ok_def)

lemma redis_del:
  assumes "redis_strings_ok rd"
  shows "\<exists>r'. rd_del rd r k = (r', Ok ()) \<and> only_key rd k r r' \<and> rd_get rd r' k = Ok None"
  using assms by (simp add: redis_strings_ok_def del_ok_def)

lemma redis_set:
  assumes "redis_strings_ok rd"
  shows "\<exists>r'. rd_set rd r k v = (r', Ok ()) \<and> only_key rd k r r' \<and> rd_get rd r' k = Ok (Some v)"
  using assms by (simp add: redis_strings_ok_def set_ok_def)

lemma redis_incrby_only: "redis_strings_ok rd \<Longrightarrow> only_key rd k r (fst (rd_incrby rd r k n))"
  by (simp add: redis_strings_ok_def incrby_ok_def)

lemma only_key_refl [simp]: "only_key rd k r r"
  by (simp add: only_key_def)

lemma only_key_trans [trans]: "only_key rd k r r' \<Longrightarrow> only_key rd k r' r'' \<Longrightarrow> only_key rd k r r''"
  by (simp add: only_key_def)

lemma get_number_cong: "rd_get rd r' k = rd_get rd r k \<Longrightarrow> get_number rd r' k = get_number rd r k"
  by (simp add: get_number_def)

lemma get_number_int [simp]: "rd_get rd r k = Ok (Some (int_str n)) \<Longrightarrow> get_number rd r k = Ok n"
  by (simp add: get_number_def script_number_def)

section \<open>Behaviour of the hash commands\<close>

definition hmset_ok :: "'r redis \<Rightarrow> bool" where
  "hmset_ok rd \<longleftrightarrow>
     (\<forall>r k fvs. (\<forall>f. \<exists>v. rd_hmget rd r k f = Ok v) \<longrightarrow>
        (\<exists>r'. rd_hmset rd r k fvs = (r', Ok ()) \<and>
           (\<forall>f. rd_hmget rd r' k f = (case map_of (rev fvs) f of Some v \<Rightarrow> Ok (Some v) | None \<Rightarrow> rd_hmget rd r k f))))"

definition expire_hash_ok :: "'r redis \<Rightarrow> bool" where
  "expire_hash_ok rd \<longleftrightarrow>
     (\<forall>r k t. \<exists>r'. rd_expire rd r k t = (r', Ok ()) \<and>
        (\<forall>f. rd_hmget rd r' k f = (if 0 < t then rd_hmget rd r k f else Ok None)))"

definition redis_hashes_ok :: "'r redis \<Rightarrow> bool" where
  "redis_hashes_ok rd \<longleftrightarrow> hmset_ok rd \<and> expire_hash_ok rd"

lemma redis_hmset:
  assumes "redis_hashes_ok rd" "\<And>f. \<exists>v. rd_hmget rd r k f = Ok v"
  shows "\<exists>r'. rd_hmset rd r k fvs = (r', Ok ()) \<and>
    (\<forall>f. rd_hmget rd r' k f = (case map_of (rev fvs) f of Some v \<Rightarrow> Ok (Some v) | None \<Rightarrow> rd_hmget rd r k f))"
  using assms by (simp add: redis_hashes_ok_def hmset_ok_def)

lemma redis_expire_hash:
  assumes "redis_hashes_ok rd"
  shows "\<exists>r'. rd_expire rd r k t = (r', Ok ()) \<and>
    (\<forall>f. rd_hmget rd r' k f = (if 0 < t then rd_hmget rd r k f else Ok None))"
  using assms by (simp add: redis_hashes_ok_def expire_hash_ok_def)

section \<open>Behaviour of the sorted sets\<close>

text \<open>
  \<open>zs r k\<close> is the sorted set at a key, each member with its score; a missing key is an empty set, and
  there is none at a key of another type.
\<close>

type_synonym 'r zsets = "'r \<Rightarrow> string \<Rightarrow> (string \<rightharpoonup> int) option"

definition zcard_ok :: "'r redis \<Rightarrow> 'r zsets \<Rightarrow> bool" where
  "zcard_ok rd zs \<longleftrightarrow>
     (\<forall>r k z. zs r k = Some z \<longrightarrow> finite (dom z) \<and> rd_zcard rd r k = Ok (int (card (dom z))))"

definition zadd_ok :: "'r redis \<Rightarrow> 'r zsets \<Rightarrow> bool" where
  "zadd_ok rd zs \<longleftrightarrow>
     (\<forall>r k z s m. zs r k = Some z \<longrightarrow> (\<exists>r'. rd_zadd rd r k s m = (r', Ok ()) \<and> zs r' k = Some (z(m \<mapsto> s))))"

definition zrem_ok :: "'r redis \<Rightarrow> 'r zsets \<Rightarrow> bool" where
  "zrem_ok rd zs \<longleftrightarrow>
     (\<forall>r k z lo hi. zs r k = Some z \<longrightarrow>
        (\<exists>r'. rd_zremrangebyscore rd r k lo hi = (r', Ok ()) \<and>
           zs r' k = Some (\<lambda>m. case z m of Some s \<Rightarrow> if lo \<le> s \<and> s \<le> hi then None else Some s | None \<Rightarrow> None)))"

definition expire_zset_ok :: "'r redis \<Rightarrow> 'r zsets \<Rightarrow> bool" where
  "expire_zset_ok rd zs \<longleftrightarrow>
     (\<forall>r k z t. zs r k = Some z \<longrightarrow>
        (\<exists>r'. rd_expire rd r k t = (r', Ok ()) \<and> zs r' k = Some (if 0 < t then z else Map.empty)))"

definition redis_zsets_ok :: "'r redis \<Rightarrow> 'r zsets \<Rightarrow> bool" where
  "redis_zsets_ok rd zs \<longleftrightarrow> zcard_ok rd zs \<and> zadd_ok rd zs \<and> zrem_ok rd zs \<and> expire_zset_ok rd zs"

lemma redis_zcard:
  "redis_zsets_ok rd zs \<Longrightarrow> zs r k = Some z \<Longrightarrow> finite (dom z) \<and> rd_zcard rd r k = Ok (int (card (dom z)))"
  by (simp add: redis_zsets_ok_def zcard_ok_def)

lemma redis_zadd:
  "redis_zsets_ok rd zs \<Longrightarrow> zs r k = Some z \<Longrightarrow> \<exists>r'. rd_zadd rd r k s m = (r', Ok ()) \<and> zs r' k = Some (z(m \<mapsto> s))"
  by (simp add: redis_zsets_ok_def zadd_ok_def)

lemma redis_zrem:
  assumes "redis_zsets_ok rd zs" "zs r k = Some z"
  shows "\<exists>r'. rd_zremrangebyscore rd r k lo hi = (r', Ok ()) \<and>
    zs r' k = Some (\<lambda>m. case z m of Some s \<Rightarrow> if lo \<le> s \<and> s \<le> hi then None else Some s | None \<Rightarrow> None)"
  using assms by (simp add: redis_zsets_ok_def zrem_ok_def)

lemma redis_expire_zset:
  "redis_zsets_ok rd zs \<Longrightarrow> zs r k = Some z \<Longrightarrow>
    \<exists>r'. rd_expire rd r k t = (r', Ok ()) \<and> zs r' k = Some (if 0 < t then z else Map.empty)"
  by (simp add: redis_zsets_ok_def expire_zset_ok_def)

section \<open>A server in which no time passes\<close>

text \<open>An instance of the parameter: keys without time to live. The examples of the adapters run on it.\<close>

datatype rvalue = RStr string | RHash "(string \<times> string) list" | RZset "(string \<times> int) list"

definition wrong_type :: go_error where
  "wrong_type = NewErr ''WRONGTYPE Operation against a key holding the wrong kind of value''"

definition plain_get :: "(string \<rightharpoonup> rvalue) \<Rightarrow> string \<Rightarrow> string option res" where
  "plain_get r k = (case r k of None \<Rightarrow> Ok None | Some (RStr s) \<Rightarrow> Ok (Some s) | Some _ \<Rightarrow> Err wrong_type)"

definition plain_incrby :: "(string \<rightharpoonup> rvalue) \<Rightarrow> string \<Rightarrow> int \<Rightarrow> (string \<rightharpoonup> rvalue) \<times> int res" where
  "plain_incrby r k n =
     (case res_bind (plain_get r k) script_number of
        Ok m \<Rightarrow> if in_i64 (m + n) then (r(k \<mapsto> RStr (int_str (m + n))), Ok (m + n))
                else (r, Err (NewErr ''ERR increment or decrement would overflow''))
      | Err e \<Rightarrow> (r, Err e)
      | Panic \<Rightarrow> (r, Panic))"

definition plain_expire :: "(string \<rightharpoonup> rvalue) \<Rightarrow> string \<Rightarrow> int \<Rightarrow> (string \<rightharpoonup> rvalue) \<times> unit res" where
  "plain_expire r k t = ((if 0 < t then r else r(k := None)), Ok ())"

definition plain_hash :: "(string \<rightharpoonup> rvalue) \<Rightarrow> string \<Rightarrow> (string \<times> string) list res" where
  "plain_hash r k = (case r k of None \<Rightarrow> Ok [] | Some (RHash h) \<Rightarrow> Ok h | Some _ \<Rightarrow> Err wrong_type)"

definition plain_zset :: "(string \<rightharpoonup> rvalue) \<Rightarrow> string \<Rightarrow> (string \<times> int) list res" where
  "plain_zset r k = (case r k of None \<Rightarrow> Ok [] | Some (RZset z) \<Rightarrow> Ok (AList.clearjunk z) | Some _ \<Rightarrow> Err wrong_type)"

definition plain_hmset where
  "plain_hmset r k fvs =
     (case plain_hash r k of
        Ok h \<Rightarrow> (r(k \<mapsto> RHash (fold (\<lambda>(f, v) h. AList.update f v h) fvs h)), Ok ())
      | Err e \<Rightarrow> (r, Err e) | Panic \<Rightarrow> (r, Panic))"

definition plain_zrem where
  "plain_zrem r k lo hi =
     (case plain_zset r k of
        Ok z \<Rightarrow> (r(k := (case filter (\<lambda>(m, s). \<not> (lo \<le> s \<and> s \<le> hi)) z of [] \<Rightarrow> None | z' \<Rightarrow> Some (RZset z'))), Ok ())
      | Err e \<Rightarrow> (r, Err e) | Panic \<Rightarrow> (r, Panic))"

definition plain_zadd where
  "plain_zadd r k score member =
     (case plain_zset r k of
        Ok z \<Rightarrow> (r(k \<mapsto> RZset (AList.update member score z)), Ok ())
      | Err e \<Rightarrow> (r, Err e) | Panic \<Rightarrow> (r, Panic))"

definition plain_redis :: "(string \<rightharpoonup> rvalue) redis" where
  "plain_redis =
     \<lparr>rd_get = plain_get, rd_set = (\<lambda>r k v. (r(k \<mapsto> RStr v), Ok ())), rd_incrby = plain_incrby,
      rd_expire = plain_expire, rd_del = (\<lambda>r k. (r(k := None), Ok ())),
      rd_hmget = (\<lambda>r k f. res_bind (plain_hash r k) (\<lambda>h. Ok (map_of h f))), rd_hmset = plain_hmset,
      rd_zremrangebyscore = plain_zrem,
      rd_zcard = (\<lambda>r k. res_bind (plain_zset r k) (\<lambda>z. Ok (int (length z)))), rd_zadd = plain_zadd\<rparr>"

lemma plain_redis_strings: "redis_strings_ok plain_redis"
proof -
  have "plain_incrby r k n = (r(k \<mapsto> RStr (int_str (m + n))), Ok (m + n))"
    if "get_number plain_redis r k = Ok m" "in_i64 (m + n)" for r k m n
    using that by (simp add: plain_incrby_def get_number_def plain_redis_def)
  moreover have "only_key plain_redis k r (fst (plain_incrby r k n))" for r k n
    by (auto simp: only_key_def plain_incrby_def plain_redis_def plain_get_def split: res.split)
  ultimately have "incrby_ok plain_redis"
    by (force simp: incrby_ok_def plain_redis_def plain_get_def)
  moreover have "expire_ok plain_redis" "del_ok plain_redis" "set_ok plain_redis"
    by (simp_all add: expire_ok_def del_ok_def set_ok_def only_key_def plain_redis_def plain_expire_def plain_get_def)
  ultimately show ?thesis by (simp add: redis_strings_ok_def)
qed

lemma plain_redis_hashes: "redis_hashes_ok plain_redis"
proof -
  have fold: "map_of (fold (\<lambda>(f, v) h. AList.update f v h) fvs h) f =
      (case map_of (rev fvs) f of Some v \<Rightarrow> Some v | None \<Rightarrow> map_of h f)" for fvs h and f :: string
    by (induction fvs arbitrary: h) (auto simp: update_conv' map_add_def split: option.splits)
  have "hmset_ok plain_redis"
    unfolding hmset_ok_def
  proof (intro allI impI)
    fix r :: "string \<rightharpoonup> rvalue" and k :: string and fvs :: "(string \<times> string) list"
    assume "\<forall>f. \<exists>v. rd_hmget plain_redis r k f = Ok v"
    then obtain h where h: "plain_hash r k = Ok h"
      by (cases "plain_hash r k") (auto simp: plain_redis_def)
    then have "rd_hmget plain_redis r k f = Ok (map_of h f)" for f by (simp add: plain_redis_def)
    moreover have "rd_hmget plain_redis (r(k \<mapsto> RHash g)) k f = Ok (map_of g f)" for f g
      by (simp add: plain_redis_def plain_hash_def)
    moreover have "rd_hmset plain_redis r k fvs =
        (r(k \<mapsto> RHash (fold (\<lambda>(f, v) h. AList.update f v h) fvs h)), Ok ())"
      using h by (simp add: plain_redis_def plain_hmset_def)
    ultimately show "\<exists>r'. rd_hmset plain_redis r k fvs = (r', Ok ()) \<and>
        (\<forall>f. rd_hmget plain_redis r' k f =
           (case map_of (rev fvs) f of Some v \<Rightarrow> Ok (Some v) | None \<Rightarrow> rd_hmget plain_redis r k f))"
      by (simp add: fold split: option.split)
  qed
  moreover have "expire_hash_ok plain_redis"
    by (simp add: expire_hash_ok_def plain_redis_def plain_expire_def plain_hash_def)
  ultimately show ?thesis by (simp add: redis_hashes_ok_def)
qed

definition plain_zs :: "(string \<rightharpoonup> rvalue) zsets" where
  "plain_zs r k = (case plain_zset r k of Ok z \<Rightarrow> Some (map_of z) | _ \<Rightarrow> None)"

lemma plain_zs: "plain_zs r k = Some z \<longleftrightarrow> (\<exists>l. plain_zset r k = Ok l \<and> z = map_of l \<and> distinct (map fst l))"
  by (auto simp: plain_zs_def plain_zset_def split: res.splits option.splits rvalue.splits)

lemma map_of_filter_score:
  assumes "distinct (map fst l)"
  shows "map_of (filter (\<lambda>(m, s). P s) l) = (\<lambda>m. case map_of l m of Some s \<Rightarrow> if P s then Some s else None | None \<Rightarrow> None)"
  using assms by (induction l) (auto simp: fun_eq_iff map_of_eq_None_iff[THEN iffD2] split: option.splits)

lemma plain_redis_zsets: "redis_zsets_ok plain_redis plain_zs"
proof -
  have "finite (dom z) \<and> rd_zcard plain_redis r k = Ok (int (card (dom z)))" if "plain_zs r k = Some z" for r k z
    using that by (auto simp: plain_zs plain_redis_def finite_dom_map_of dom_map_of_conv_image_fst
        distinct_map card_image distinct_card)
  then have "zcard_ok plain_redis plain_zs" by (simp add: zcard_ok_def)
  moreover have "zadd_ok plain_redis plain_zs"
  proof -
    have "map_of (AList.clearjunk (AList.update m s l)) = (map_of l)(m \<mapsto> s)" for m s and l :: "(string \<times> int) list"
      by (simp add: map_of_clearjunk update_conv')
    then show ?thesis
      by (auto simp: zadd_ok_def plain_zs plain_redis_def plain_zadd_def plain_zset_def distinct_clearjunk)
  qed
  moreover have "zrem_ok plain_redis plain_zs"
    unfolding zrem_ok_def
  proof (intro allI impI)
    fix r :: "string \<rightharpoonup> rvalue" and k :: string and z lo hi
    assume "plain_zs r k = Some z"
    then obtain l where l: "plain_zset r k = Ok l" "z = map_of l" "distinct (map fst l)" by (auto simp: plain_zs)
    let ?l = "filter (\<lambda>(m, s). \<not> (lo \<le> s \<and> s \<le> hi)) l"
    let ?r = "r(k := (case ?l of [] \<Rightarrow> None | z' \<Rightarrow> Some (RZset z')))"
    have d: "distinct (map fst ?l)" using l(3) by (simp add: distinct_map_filter)
    have "plain_zset ?r k = Ok ?l"
      using d by (cases ?l) (simp_all add: plain_zset_def distinct_clearjunk_id)
    then have "plain_zs ?r k = Some (\<lambda>m. case z m of Some s \<Rightarrow> if lo \<le> s \<and> s \<le> hi then None else Some s | None \<Rightarrow> None)"
      using map_of_filter_score [OF l(3), of "\<lambda>s. \<not> (lo \<le> s \<and> s \<le> hi)"] l(2)
      by (auto simp: plain_zs_def fun_eq_iff split: option.split)
    then show "\<exists>r'. rd_zremrangebyscore plain_redis r k lo hi = (r', Ok ()) \<and> plain_zs r' k =
        Some (\<lambda>m. case z m of Some s \<Rightarrow> if lo \<le> s \<and> s \<le> hi then None else Some s | None \<Rightarrow> None)"
      using l(1) by (intro exI [of _ ?r]) (simp add: plain_redis_def plain_zrem_def)
  qed
  moreover have "expire_zset_ok plain_redis plain_zs"
    by (auto simp: expire_zset_ok_def plain_zs plain_redis_def plain_expire_def plain_zset_def)
  ultimately show ?thesis by (simp add: redis_zsets_ok_def)
qed

end
