(* ===== verification/Quota_Redis.thy ===== *)
theory Quota_Redis
  imports Redis_Server
begin

text \<open>
  adapters/quota-redis/quota_manager.go: quotas counted on a Redis server. A method takes the server's
  data and, for each call it makes, how the connection behaves; it returns the data and its result.
  \<^verbatim>\<open>Duration.Seconds\<close> is a float64; here whole seconds are the quotient, which differs only within
  a nanosecond of a full second in durations of months.
\<close>

section \<open>Configuration\<close>

record redis_quota_config =
  rqc_Prefix :: string
  rqc_Limits :: "(string \<times> int) list"
  rqc_ResetTTL :: int

definition rq_DefaultConfig :: redis_quota_config where
  "rq_DefaultConfig = \<lparr>rqc_Prefix = ''quota:'', rqc_Limits = [], rqc_ResetTTL = 24 * hour\<rparr>"

record 'c redis_quota =
  rqm_client :: 'c
  rqm_ownsConn :: bool
  rqm_config :: redis_quota_config

definition NewRedisQuotaManager :: "'c option \<Rightarrow> redis_quota_config \<Rightarrow> 'c redis_quota res" where
  "NewRedisQuotaManager client cfg =
     (case client of
        None \<Rightarrow> Err (NewErr ''redis client cannot be nil'')
      | Some c \<Rightarrow>
          let cfg = (if rqc_Prefix cfg = [] then cfg\<lparr>rqc_Prefix := ''quota:''\<rparr> else cfg);
              cfg = (if rqc_ResetTTL cfg = 0 then cfg\<lparr>rqc_ResetTTL := 24 * hour\<rparr> else cfg)
          in Ok \<lparr>rqm_client = c, rqm_ownsConn = False, rqm_config = cfg\<rparr>)"

text \<open>\<^verbatim>\<open>int64(d.Seconds())\<close>, rounding towards 0.\<close>

definition whole_seconds :: "int \<Rightarrow> int" where
  "whole_seconds d = (if 0 \<le> d then d div second else - ((- d) div second))"

definition buildUsageKey :: "redis_quota_config \<Rightarrow> string \<Rightarrow> string \<Rightarrow> string" where
  "buildUsageKey cfg tenantID quotaType = rqc_Prefix cfg @ tenantID @ '':'' @ quotaType"

definition buildLimitKey :: "redis_quota_config \<Rightarrow> string \<Rightarrow> string \<Rightarrow> string" where
  "buildLimitKey cfg tenantID quotaType = rqc_Prefix cfg @ ''limit:'' @ tenantID @ '':'' @ quotaType"

definition rq_getTenantIDFromContext :: "go_ctx \<Rightarrow> string res" where
  "rq_getTenantIDFromContext ctx =
     (case FromGoContext (Some ctx) of
        Ok tc \<Rightarrow> if tid_value (dc_tenantID tc) \<noteq> [] then Ok (tid_value (dc_tenantID tc))
                 else Err (NewErr ''tenant context required'')
      | _ \<Rightarrow> Err (NewErr ''tenant context required''))"

section \<open>Scripts\<close>

definition checkQuotaScript :: "'r redis \<Rightarrow> string \<Rightarrow> int \<Rightarrow> int \<Rightarrow> 'r \<Rightarrow> 'r \<times> int res" where
  "checkQuotaScript rd key limit amount r =
     (r, res_bind (get_number rd r key) (\<lambda>current. Ok (if limit < current + amount then 0 else 1)))"

text \<open>The answer is whether the amount is granted and what remains.\<close>

definition consumeQuotaScript :: "'r redis \<Rightarrow> string \<Rightarrow> int \<Rightarrow> int \<Rightarrow> int \<Rightarrow> 'r \<Rightarrow> 'r \<times> (int \<times> int) res" where
  "consumeQuotaScript rd key limit amount ttl r =
     script_bind (r, get_number rd r key) (\<lambda>r current.
       if limit < current + amount then (r, Ok (0, limit - current))
       else script_bind (rd_incrby rd r key amount) (\<lambda>r new_usage.
         if new_usage = amount
         then script_bind (rd_expire rd r key ttl) (\<lambda>r _. (r, Ok (1, limit - new_usage)))
         else (r, Ok (1, limit - new_usage))))"

definition setLimitScript :: "'r redis \<Rightarrow> string \<Rightarrow> int \<Rightarrow> 'r \<Rightarrow> 'r \<times> int res" where
  "setLimitScript rd limit_key new_limit r =
     script_bind (rd_set rd r limit_key (int_str new_limit)) (\<lambda>r _. (r, Ok new_limit))"

section \<open>Operations\<close>

text \<open>
  The limit of a tenant: the one stored on the server, or else the one of the configuration; any
  error of the call falls back too. \<^verbatim>\<open>strconv.ParseInt\<close> refuses what is no int64.
\<close>

definition parse_int64 :: "string \<Rightarrow> int option" where
  "parse_int64 s =
     (let t = (if has_prefix s ''+'' then drop 1 s else s)
      in if has_prefix s ''+'' \<and> has_prefix t ''-'' then None
         else case str_int t of Some n \<Rightarrow> if in_i64 n then Some n else None | None \<Rightarrow> None)"

definition parse_error :: "string \<Rightarrow> go_error" where
  "parse_error s =
     NewErr (''strconv.ParseInt: parsing '' @ [CHR 0x22] @ s @ [CHR 0x22]
       @ (if str_int s = None then '': invalid syntax'' else '': value out of range''))"

definition resolveLimit ::
  "'r redis \<Rightarrow> redis_quota_config \<Rightarrow> link \<Rightarrow> 'r \<Rightarrow> string \<Rightarrow> string \<Rightarrow> int res" where
  "resolveLimit rd cfg l r tenantID quotaType =
     (let stored = snd (redis_call l (\<lambda>r. (r, rd_get rd r (buildLimitKey cfg tenantID quotaType))) r);
          fallback = (case map_of (rqc_Limits cfg) quotaType of
                        Some limit \<Rightarrow> Ok limit
                      | None \<Rightarrow> Err (NewErr (''unknown quota type: '' @ quotaType)))
      in case stored of
           Ok (Some s) \<Rightarrow> (case parse_int64 s of Some limit \<Rightarrow> Ok limit | None \<Rightarrow> fallback)
         | _ \<Rightarrow> fallback)"

definition rq_CheckQuota ::
  "'r redis \<Rightarrow> redis_quota_config \<Rightarrow> link \<times> link \<Rightarrow> 'r \<Rightarrow> go_ctx \<Rightarrow> string \<Rightarrow> int \<Rightarrow> 'r \<times> bool res" where
  "rq_CheckQuota rd cfg ls r ctx quotaType amount =
     (if amount < 0 then (r, Err (NewErr ''amount must be non-negative''))
      else case rq_getTenantIDFromContext ctx of
        Err e \<Rightarrow> (r, Err e)
      | Panic \<Rightarrow> (r, Panic)
      | Ok tenantID \<Rightarrow>
          (case resolveLimit rd cfg (fst ls) r tenantID quotaType of
             Err e \<Rightarrow> (r, Err e)
           | Panic \<Rightarrow> (r, Panic)
           | Ok limit \<Rightarrow>
               (case redis_call (snd ls) (checkQuotaScript rd (buildUsageKey cfg tenantID quotaType) limit amount) r of
                  (r, Err e) \<Rightarrow> (r, Err (WrapErr ''redis error: '' e []))
                | (r, Panic) \<Rightarrow> (r, Panic)
                | (r, Ok result) \<Rightarrow> (r, Ok (result = 1)))))"

text \<open>The result is what remains, with an error if the quota is exceeded.\<close>

definition rq_ConsumeQuota ::
  "'r redis \<Rightarrow> redis_quota_config \<Rightarrow> link \<times> link \<Rightarrow> 'r \<Rightarrow> go_ctx \<Rightarrow> string \<Rightarrow> int
     \<Rightarrow> 'r \<times> (int \<times> go_error option) res" where
  "rq_ConsumeQuota rd cfg ls r ctx quotaType amount =
     (if amount < 0 then (r, Ok (0, Some (NewErr ''amount must be non-negative'')))
      else case rq_getTenantIDFromContext ctx of
        Err e \<Rightarrow> (r, Ok (0, Some e))
      | Panic \<Rightarrow> (r, Panic)
      | Ok tenantID \<Rightarrow>
          (case resolveLimit rd cfg (fst ls) r tenantID quotaType of
             Err e \<Rightarrow> (r, Ok (0, Some e))
           | Panic \<Rightarrow> (r, Panic)
           | Ok limit \<Rightarrow>
               (case redis_call (snd ls)
                       (consumeQuotaScript rd (buildUsageKey cfg tenantID quotaType) limit amount
                          (whole_seconds (rqc_ResetTTL cfg))) r of
                  (r, Err e) \<Rightarrow> (r, Ok (0, Some (WrapErr ''redis error: '' e [])))
                | (r, Panic) \<Rightarrow> (r, Panic)
                | (r, Ok (allowed, remaining)) \<Rightarrow>
                    if allowed = 0
                    then (r, Ok (remaining,
                            Some (NewErr (''quota exceeded for '' @ quotaType @ '': limit '' @ int_str limit))))
                    else (r, Ok (remaining, None)))))"

definition rq_GetUsage ::
  "'r redis \<Rightarrow> redis_quota_config \<Rightarrow> link \<times> link \<Rightarrow> 'r \<Rightarrow> go_ctx \<Rightarrow> string \<Rightarrow> 'r \<times> (int \<times> int) res" where
  "rq_GetUsage rd cfg ls r ctx quotaType =
     (case rq_getTenantIDFromContext ctx of
        Err e \<Rightarrow> (r, Err e)
      | Panic \<Rightarrow> (r, Panic)
      | Ok tenantID \<Rightarrow>
          (case resolveLimit rd cfg (fst ls) r tenantID quotaType of
             Err e \<Rightarrow> (r, Err e)
           | Panic \<Rightarrow> (r, Panic)
           | Ok limit \<Rightarrow>
               (case redis_call (snd ls) (\<lambda>r. (r, rd_get rd r (buildUsageKey cfg tenantID quotaType))) r of
                  (r, Ok None) \<Rightarrow> (r, Ok (0, limit))
                | (r, Err e) \<Rightarrow> (r, Err (WrapErr ''redis error: '' e []))
                | (r, Panic) \<Rightarrow> (r, Panic)
                | (r, Ok (Some s)) \<Rightarrow>
                    (case parse_int64 s of
                       Some used \<Rightarrow> (r, Ok (used, limit))
                     | None \<Rightarrow> (r, Err (WrapErr ''failed to parse usage: '' (parse_error s) []))))))"

definition rq_ResetQuota ::
  "'r redis \<Rightarrow> redis_quota_config \<Rightarrow> link \<Rightarrow> 'r \<Rightarrow> go_ctx \<Rightarrow> string \<Rightarrow> 'r \<times> unit res" where
  "rq_ResetQuota rd cfg l r ctx quotaType =
     (case rq_getTenantIDFromContext ctx of
        Err e \<Rightarrow> (r, Err e)
      | Panic \<Rightarrow> (r, Panic)
      | Ok tenantID \<Rightarrow> redis_call l (\<lambda>r. rd_del rd r (buildUsageKey cfg tenantID quotaType)) r)"

definition rq_SetLimit ::
  "'r redis \<Rightarrow> redis_quota_config \<Rightarrow> link \<Rightarrow> 'r \<Rightarrow> go_ctx \<Rightarrow> string \<Rightarrow> int \<Rightarrow> 'r \<times> unit res" where
  "rq_SetLimit rd cfg l r ctx quotaType limit =
     (if limit < 0 then (r, Err (NewErr ''limit must be non-negative''))
      else case rq_getTenantIDFromContext ctx of
        Err e \<Rightarrow> (r, Err e)
      | Panic \<Rightarrow> (r, Panic)
      | Ok tenantID \<Rightarrow>
          (case redis_call l (setLimitScript rd (buildLimitKey cfg tenantID quotaType) limit) r of
             (r, Err e) \<Rightarrow> (r, Err (WrapErr ''redis error: '' e []))
           | (r, Panic) \<Rightarrow> (r, Panic)
           | (r, Ok _) \<Rightarrow> (r, Ok ())))"

definition rq_Health :: "('c \<Rightarrow> go_error option) \<Rightarrow> 'c redis_quota \<Rightarrow> go_error option" where
  "rq_Health ping qm = ping (rqm_client qm)"

text \<open>\<^verbatim>\<open>Close\<close> closes the client in any case, \<^verbatim>\<open>ownsConn\<close> is not asked.\<close>

definition rq_Close :: "('c \<Rightarrow> go_error option) \<Rightarrow> 'c redis_quota \<Rightarrow> 'c \<times> go_error option" where
  "rq_Close close qm = (rqm_client qm, close (rqm_client qm))"

section \<open>The script and its key\<close>

lemma consume_script:
  assumes "redis_strings_ok rd" "get_number rd r key = Ok u" "0 \<le> u" "0 \<le> amount" "u + amount \<le> limit"
    "in_i64 limit" "0 < ttl"
  shows "\<exists>r'. consumeQuotaScript rd key limit amount ttl r = (r', Ok (1, limit - (u + amount))) \<and>
    get_number rd r' key = Ok (u + amount) \<and> only_key rd key r r'"
proof -
  have "in_i64 (u + amount)" using assms(3-6) by (simp add: i64_defs)
  from redis_incrby [OF assms(1,2) this] obtain r1 where
    i: "rd_incrby rd r key amount = (r1, Ok (u + amount))" "get_number rd r1 key = Ok (u + amount)"
      "only_key rd key r r1" by auto
  from redis_expire [OF assms(1), of r1 key ttl] assms(7) obtain r2 where
    e: "rd_expire rd r1 key ttl = (r2, Ok ())" "rd_get rd r2 key = rd_get rd r1 key" "only_key rd key r1 r2" by auto
  show ?thesis
    using i e assms(2,5) get_number_cong [OF e(2)] only_key_trans [OF i(3) e(3)]
    by (simp add: consumeQuotaScript_def)
qed

lemma consume_script_refuses:
  assumes "get_number rd r key = Ok u" "limit < u + amount"
  shows "consumeQuotaScript rd key limit amount ttl r = (r, Ok (0, limit - u))"
  using assms by (simp add: consumeQuotaScript_def)

lemma consume_script_only_key:
  assumes "redis_strings_ok rd"
  shows "only_key rd key r (fst (consumeQuotaScript rd key limit amount ttl r))"
proof -
  obtain r1 x where i: "rd_incrby rd r key amount = (r1, x)" by (cases "rd_incrby rd r key amount")
  then have 1: "only_key rd key r r1" using redis_incrby_only [OF assms, of key r amount] by simp
  obtain r2 where e: "rd_expire rd r1 key ttl = (r2, Ok ())" "only_key rd key r1 r2"
    using redis_expire [OF assms, of r1 key ttl] by blast
  show ?thesis
    using i 1 e only_key_trans [OF 1 e(2)]
    by (cases "get_number rd r key"; cases x) (simp_all add: consumeQuotaScript_def)
qed

section \<open>Keys\<close>

lemma usage_keys:
  assumes "valid_id t" "valid_id t'"
  shows "buildUsageKey cfg t ty = buildUsageKey cfg t' ty' \<longleftrightarrow> t = t' \<and> ty = ty'"
    "buildLimitKey cfg t ty = buildLimitKey cfg t' ty' \<longleftrightarrow> t = t' \<and> ty = ty'"
  using colon_split [OF valid_id_no_colon valid_id_no_colon, OF assms]
  by (auto simp: buildUsageKey_def buildLimitKey_def)

lemma usage_limit_key:
  assumes "valid_id t" "t \<noteq> ''limit''"
  shows "buildUsageKey cfg t ty \<noteq> buildLimitKey cfg t' ty'"
  using colon_split [OF valid_id_no_colon [OF assms(1)], of "''limit''" ty "t' @ CHR '':'' # ty'"] assms(2)
  by (auto simp: buildUsageKey_def buildLimitKey_def)

section \<open>Tenants are independent\<close>

text \<open>The keys an operation of one tenant can change.\<close>

lemma redis_call_only: "(\<And>r. only_key rd k r (fst (run r))) \<Longrightarrow> only_key rd k r (fst (redis_call l run r))"
  by (simp add: redis_call_def split: link.split)

lemma consume_only_key:
  assumes "redis_strings_ok rd" "rq_getTenantIDFromContext ctx = Ok t"
  shows "only_key rd (buildUsageKey cfg t ty) r (fst (rq_ConsumeQuota rd cfg ls r ctx ty n))"
proof -
  let ?run = "\<lambda>limit. consumeQuotaScript rd (buildUsageKey cfg t ty) limit n (whole_seconds (rqc_ResetTTL cfg))"
  have "only_key rd (buildUsageKey cfg t ty) r (fst (redis_call (snd ls) (?run limit) r))" for limit
    by (rule redis_call_only) (rule consume_script_only_key [OF assms(1)])
  then show ?thesis
    using assms(2) by (auto simp: rq_ConsumeQuota_def split: res.splits prod.splits) (metis fst_conv)+
qed

lemma reset_only_key:
  assumes "redis_strings_ok rd" "rq_getTenantIDFromContext ctx = Ok t"
  shows "only_key rd (buildUsageKey cfg t ty) r (fst (rq_ResetQuota rd cfg l r ctx ty))"
proof -
  have "only_key rd k r (fst (rd_del rd r k))" for k r
    using redis_del [OF assms(1), of r k] by auto
  then show ?thesis using assms(2) by (simp add: rq_ResetQuota_def redis_call_only)
qed

lemma set_only_key:
  assumes "redis_strings_ok rd" "rq_getTenantIDFromContext ctx = Ok t"
  shows "only_key rd (buildLimitKey cfg t ty) r (fst (rq_SetLimit rd cfg l r ctx ty n))"
proof -
  have "only_key rd k r (fst (setLimitScript rd k n r))" for k r
    using redis_set [OF assms(1), of r k "int_str n"] by (auto simp: setLimitScript_def)
  then have "only_key rd (buildLimitKey cfg t ty) r
      (fst (redis_call l (setLimitScript rd (buildLimitKey cfg t ty) n) r))" by (rule redis_call_only)
  then show ?thesis
    using assms(2) by (auto simp: rq_SetLimit_def split: res.splits prod.splits)
qed

lemma GetUsage_cong:
  assumes "rq_getTenantIDFromContext ctx = Ok t"
    "rd_get rd r' (buildUsageKey cfg t ty) = rd_get rd r (buildUsageKey cfg t ty)"
    "rd_get rd r' (buildLimitKey cfg t ty) = rd_get rd r (buildLimitKey cfg t ty)"
  shows "snd (rq_GetUsage rd cfg ls r' ctx ty) = snd (rq_GetUsage rd cfg ls r ctx ty) \<and>
    snd (rq_CheckQuota rd cfg ls r' ctx ty n) = snd (rq_CheckQuota rd cfg ls r ctx ty n)"
proof -
  have l: "resolveLimit rd cfg l r' t ty = resolveLimit rd cfg l r t ty" for l
    using assms(3) by (simp add: resolveLimit_def redis_call_def split: link.split)
  have "get_number rd r' (buildUsageKey cfg t ty) = get_number rd r (buildUsageKey cfg t ty)"
    by (rule get_number_cong [OF assms(2)])
  then show ?thesis
    by (cases "snd ls")
      (simp_all add: rq_GetUsage_def rq_CheckQuota_def assms(1,2) l redis_call_def checkQuotaScript_def
        split: res.split option.split)
qed

text \<open>
  C28. On a shared Redis server tenants do not share quotas: whatever one tenant consumes, resets or
  is limited to, over whatever connection, the usage, the limit and the check of every other tenant
  are as before, as long as neither of them is called limit.
\<close>

theorem redis_quota_tenants_apart:
  assumes "redis_strings_ok rd" "rq_getTenantIDFromContext ctx = Ok t" "rq_getTenantIDFromContext ctx' = Ok t'"
    "valid_id t" "valid_id t'" "t' \<noteq> t" "t \<noteq> ''limit''" "t' \<noteq> ''limit''"
    "r' \<in> {fst (rq_ConsumeQuota rd cfg ls r ctx ty n), fst (rq_ResetQuota rd cfg l r ctx ty),
            fst (rq_SetLimit rd cfg l r ctx ty n)}"
  shows "snd (rq_GetUsage rd cfg ls' r' ctx' ty') = snd (rq_GetUsage rd cfg ls' r ctx' ty') \<and>
    snd (rq_CheckQuota rd cfg ls' r' ctx' ty' m) = snd (rq_CheckQuota rd cfg ls' r ctx' ty' m)"
proof (rule GetUsage_cong [OF assms(3)])
  have k: "only_key rd (buildUsageKey cfg t ty) r r' \<or> only_key rd (buildLimitKey cfg t ty) r r'"
    using assms(9) consume_only_key [OF assms(1,2)] reset_only_key [OF assms(1,2)] set_only_key [OF assms(1,2)]
    by blast
  show "rd_get rd r' (buildUsageKey cfg t' ty') = rd_get rd r (buildUsageKey cfg t' ty')"
    using k usage_keys(1) [OF assms(5,4)] usage_limit_key [OF assms(5,8)] assms(6)
    by (auto simp: only_key_def)
  show "rd_get rd r' (buildLimitKey cfg t' ty') = rd_get rd r (buildLimitKey cfg t' ty')"
    using k usage_keys(2) [OF assms(5,4)] usage_limit_key [OF assms(4,7)] assms(6)
    by (auto simp: only_key_def) (metis)+
qed

text \<open>Two tenants with a stored limit of 5 for one type.\<close>

definition redis_ctx :: "string \<Rightarrow> go_ctx" where
  "redis_ctx t = ToGoContext \<lparr>dc_tenantID = \<lparr>tid_value = t\<rparr>, dc_userID = ''u'', dc_requestID = ''r'',
     dc_timestamp = 0\<rparr> background"

definition shared_redis :: "string \<rightharpoonup> rvalue" where
  "shared_redis = [''quota:limit:acme:api'' \<mapsto> RStr ''5'', ''quota:acme:api'' \<mapsto> RStr ''1'']"

lemma redis_ctx: "t \<noteq> [] \<Longrightarrow> rq_getTenantIDFromContext (redis_ctx t) = Ok t"
  by (simp add: rq_getTenantIDFromContext_def redis_ctx_def ToGoContext_def WithValue_def FromGoContext_def)

lemma acme_valid: "valid_id ''acme'' \<and> valid_id ''globex''"
  by code_simp

theorem redis_quota_tenants_apart_witness:
  "snd (rq_GetUsage plain_redis rq_DefaultConfig (Served, Served)
      (fst (rq_SetLimit plain_redis rq_DefaultConfig Served shared_redis (redis_ctx ''globex'') ''api'' 9))
      (redis_ctx ''acme'') ''api'') =
   snd (rq_GetUsage plain_redis rq_DefaultConfig (Served, Served) shared_redis (redis_ctx ''acme'') ''api'')"
  by (rule redis_quota_tenants_apart [THEN conjunct1, OF plain_redis_strings redis_ctx [of "''globex''"] redis_ctx])
    (auto simp: acme_valid)

section \<open>The quota holds\<close>

text \<open>
  A run of calls of \<^verbatim>\<open>ConsumeQuota\<close>: before each of them the data may have been changed, by other
  clients or by time passing (\<open>env\<close>).
\<close>

type_synonym 'r redis_consume = "('r \<Rightarrow> 'r) \<times> (link \<times> link) \<times> go_ctx \<times> string \<times> int"

fun rq_run ::
  "'r redis \<Rightarrow> redis_quota_config \<Rightarrow> 'r \<Rightarrow> 'r redis_consume list \<Rightarrow> 'r \<times> (int \<times> go_error option) res list" where
  "rq_run rd cfg r [] = (r, [])"
| "rq_run rd cfg r ((env, ls, ctx, ty, n) # cs) =
     (let (r, x) = rq_ConsumeQuota rd cfg ls (env r) ctx ty n; (r, xs) = rq_run rd cfg r cs in (r, x # xs))"

definition is_granted :: "(int \<times> go_error option) res \<Rightarrow> bool" where
  "is_granted x \<longleftrightarrow> (\<exists>remaining. x = Ok (remaining, None))"

lemma is_granted_code [code]: "is_granted x = (case x of Ok (_, None) \<Rightarrow> True | _ \<Rightarrow> False)"
  by (auto simp: is_granted_def split: res.split option.split)

text \<open>What the calls for one tenant and type were granted.\<close>

fun rq_granted :: "string \<Rightarrow> string \<Rightarrow> 'r redis_consume list \<Rightarrow> (int \<times> go_error option) res list \<Rightarrow> int" where
  "rq_granted t ty ((env, ls, ctx, ty', n) # cs) (x # xs) =
     (if rq_getTenantIDFromContext ctx = Ok t \<and> ty' = ty \<and> is_granted x then n else 0) + rq_granted t ty cs xs"
| "rq_granted t ty _ _ = 0"

text \<open>
  One period of a tenant's quota: in between the calls neither its usage nor its limit is touched,
  its own calls find the limit, and the tenants have valid identifiers.
\<close>

definition rq_period ::
  "'r redis \<Rightarrow> redis_quota_config \<Rightarrow> string \<Rightarrow> string \<Rightarrow> 'r redis_consume list \<Rightarrow> bool" where
  "rq_period rd cfg t ty cs \<longleftrightarrow>
     (\<forall>(env, ls, ctx, ty', n) \<in> set cs.
        (\<forall>r. rd_get rd (env r) (buildUsageKey cfg t ty) = rd_get rd r (buildUsageKey cfg t ty) \<and>
             rd_get rd (env r) (buildLimitKey cfg t ty) = rd_get rd r (buildLimitKey cfg t ty)) \<and>
        (\<forall>t'. rq_getTenantIDFromContext ctx = Ok t' \<longrightarrow> valid_id t' \<and> t' \<noteq> ''limit'') \<and>
        (rq_getTenantIDFromContext ctx = Ok t \<and> ty' = ty \<longrightarrow> fst ls = Served) \<and> lua_exact n)"

lemma rq_Consume_step:
  assumes "redis_strings_ok rd" "0 < whole_seconds (rqc_ResetTTL cfg)" "valid_id t" "t \<noteq> ''limit''"
    "\<forall>t'. rq_getTenantIDFromContext ctx = Ok t' \<longrightarrow> valid_id t' \<and> t' \<noteq> ''limit''"
    "rq_getTenantIDFromContext ctx = Ok t \<and> ty' = ty \<longrightarrow> fst ls = Served"
    "resolveLimit rd cfg Served r t ty = Ok limit" "in_i64 limit"
    "get_number rd r (buildUsageKey cfg t ty) = Ok u" "0 \<le> u"
    "rq_ConsumeQuota rd cfg ls r ctx ty' n = (r', x)"
  shows "\<exists>u'. get_number rd r' (buildUsageKey cfg t ty) = Ok u' \<and>
    rd_get rd r' (buildLimitKey cfg t ty) = rd_get rd r (buildLimitKey cfg t ty) \<and>
    u + (if rq_getTenantIDFromContext ctx = Ok t \<and> ty' = ty \<and> is_granted x then n else 0) \<le> u' \<and>
    u \<le> u' \<and> u' \<le> max u limit"
proof (cases "rq_getTenantIDFromContext ctx")
  case (Ok t1)
  have v: "valid_id t1" "t1 \<noteq> ''limit''" using assms(5) Ok by simp_all
  have only: "only_key rd (buildUsageKey cfg t1 ty') r r'"
    using consume_only_key [OF assms(1) Ok, of cfg ty' r ls n] assms(11) by simp
  then have lk: "rd_get rd r' (buildLimitKey cfg t ty) = rd_get rd r (buildLimitKey cfg t ty)"
    using usage_limit_key [OF v, of cfg ty' t ty] by (simp add: only_key_def)
  show ?thesis
  proof (cases "t1 = t \<and> ty' = ty")
    case False
    then have "rd_get rd r' (buildUsageKey cfg t ty) = rd_get rd r (buildUsageKey cfg t ty)"
      using only usage_keys(1) [OF assms(3) v(1)] by (auto simp: only_key_def)
    from get_number_cong [OF this] have "get_number rd r' (buildUsageKey cfg t ty) = Ok u" using assms(9) by simp
    then show ?thesis using lk False Ok by auto
  next
    case True
    let ?run = "consumeQuotaScript rd (buildUsageKey cfg t ty) limit n (whole_seconds (rqc_ResetTTL cfg))"
    have f: "resolveLimit rd cfg (fst ls) r t ty = Ok limit" using assms(6,7) Ok True by simp
    show ?thesis
    proof (cases "n < 0 \<or> limit < u + n")
      case True
      have "?run r = (r, Ok (0, limit - u))" if "limit < u + n"
        by (rule consume_script_refuses [OF assms(9) that])
      then have "r' = r \<and> \<not> is_granted x"
        using assms(11) Ok True \<open>t1 = t \<and> ty' = ty\<close> f
        by (cases "snd ls") (auto simp: rq_ConsumeQuota_def redis_call_def is_granted_def split: if_splits)
      then show ?thesis using assms(9) by auto
    next
      case False
      then have "0 \<le> n" "u + n \<le> limit" by simp_all
      from consume_script [OF assms(1,9,10) this assms(8,2)] obtain r1 where
        s: "?run r = (r1, Ok (1, limit - (u + n)))" "get_number rd r1 (buildUsageKey cfg t ty) = Ok (u + n)" by blast
      have "r' = r1 \<or> r' = r \<and> \<not> is_granted x"
        using assms(11) Ok False \<open>t1 = t \<and> ty' = ty\<close> f s(1)
        by (cases "snd ls") (auto simp: rq_ConsumeQuota_def redis_call_def is_granted_def)
      then show ?thesis using s(2) assms(9) \<open>0 \<le> n\<close> \<open>u + n \<le> limit\<close> lk by auto
    qed
  qed
qed (use assms(9,11) in \<open>auto simp: rq_ConsumeQuota_def is_granted_def split: if_splits\<close>)

text \<open>
  The quota on the Redis server holds: in one period, all the calls of \<^verbatim>\<open>ConsumeQuota\<close> of all
  clients for a tenant and a type together are granted at most what the limit leaves, whatever the
  others do in between and whichever answers are lost; the usage on the server covers every grant.
\<close>

theorem redis_quota_bound:
  assumes "redis_strings_ok rd" "0 < whole_seconds (rqc_ResetTTL cfg)" "valid_id t" "t \<noteq> ''limit''"
    "rq_period rd cfg t ty cs" "resolveLimit rd cfg Served r t ty = Ok limit" "lua_exact limit"
    "get_number rd r (buildUsageKey cfg t ty) = Ok u" "0 \<le> u" "rq_run rd cfg r cs = (r', xs)"
  shows "rq_granted t ty cs xs \<le> max 0 (limit - u) \<and>
    (\<exists>u'. get_number rd r' (buildUsageKey cfg t ty) = Ok u' \<and> u + rq_granted t ty cs xs \<le> u' \<and> u' \<le> max u limit)"
proof -
  have i: "in_i64 limit" using assms(7) by (auto simp: lua_exact_def i64_defs abs_le_iff)
  have "\<exists>u'. get_number rd r' (buildUsageKey cfg t ty) = Ok u' \<and> u + rq_granted t ty cs xs \<le> u' \<and> u' \<le> max u limit"
    using assms(5,6,8-10)
  proof (induction cs arbitrary: r u xs)
    case Nil
    then show ?case by auto
  next
    case (Cons c cs)
    obtain env ls ctx ty' n where c: "c = (env, ls, ctx, ty', n)" by (cases c)
    obtain r1 x where s: "rq_ConsumeQuota rd cfg ls (env r) ctx ty' n = (r1, x)"
      by (cases "rq_ConsumeQuota rd cfg ls (env r) ctx ty' n")
    obtain ys where y: "rq_run rd cfg r1 cs = (r', ys)" "xs = x # ys"
      using Cons.prems(5) c s by (auto split: prod.splits)
    have p: "rq_period rd cfg t ty cs"
      "\<And>r. rd_get rd (env r) (buildUsageKey cfg t ty) = rd_get rd r (buildUsageKey cfg t ty)"
      "\<And>r. rd_get rd (env r) (buildLimitKey cfg t ty) = rd_get rd r (buildLimitKey cfg t ty)"
      "\<forall>t'. rq_getTenantIDFromContext ctx = Ok t' \<longrightarrow> valid_id t' \<and> t' \<noteq> ''limit''"
      "rq_getTenantIDFromContext ctx = Ok t \<and> ty' = ty \<longrightarrow> fst ls = Served"
      using Cons.prems(1) c by (simp_all add: rq_period_def)
    have res: "rd_get rd r2 (buildLimitKey cfg t ty) = rd_get rd r (buildLimitKey cfg t ty) \<Longrightarrow>
        resolveLimit rd cfg Served r2 t ty = Ok limit" for r2
      using Cons.prems(2) by (simp add: resolveLimit_def redis_call_def)
    from rq_Consume_step [OF assms(1-4) p(4,5) res [OF p(3)] i _ Cons.prems(4) s] get_number_cong [OF p(2)] Cons.prems(3)
    obtain u1 where u1: "get_number rd r1 (buildUsageKey cfg t ty) = Ok u1"
      "rd_get rd r1 (buildLimitKey cfg t ty) = rd_get rd (env r) (buildLimitKey cfg t ty)"
      "u + (if rq_getTenantIDFromContext ctx = Ok t \<and> ty' = ty \<and> is_granted x then n else 0) \<le> u1"
      "u \<le> u1" "u1 \<le> max u limit" by auto
    have "0 \<le> u1" "resolveLimit rd cfg Served r1 t ty = Ok limit"
      using u1(2,4) Cons.prems(4) res p(3) by simp_all
    from Cons.IH [OF p(1) this(2) u1(1) this(1) y(1)] u1(3-5) y(2) c show ?case by fastforce
  qed
  then show ?thesis by auto
qed

theorem redis_quota_bound_witness:
  "\<exists>(cs :: (string \<rightharpoonup> rvalue) redis_consume list) r' xs.
     rq_run plain_redis rq_DefaultConfig shared_redis cs = (r', xs) \<and> rq_granted ''acme'' ''api'' cs xs \<le> max 0 (5 - 1)"
proof -
  let ?cs = "[(id, (Served, NoReply (NewErr ''i/o timeout'')), redis_ctx ''acme'', ''api'', 3),
    (id, (Served, Served), redis_ctx ''acme'', ''api'', 2)] :: (string \<rightharpoonup> rvalue) redis_consume list"
  obtain r' xs where run: "rq_run plain_redis rq_DefaultConfig shared_redis ?cs = (r', xs)"
    by (cases "rq_run plain_redis rq_DefaultConfig shared_redis ?cs")
  have p: "rq_period plain_redis rq_DefaultConfig ''acme'' ''api'' ?cs"
    by (simp add: rq_period_def redis_ctx acme_valid lua_exact_def)
  have l: "resolveLimit plain_redis rq_DefaultConfig Served shared_redis ''acme'' ''api'' = Ok 5"
    by code_simp
  have g: "get_number plain_redis shared_redis (buildUsageKey rq_DefaultConfig ''acme'' ''api'') = Ok 1"
    by code_simp
  have t: "0 < whole_seconds (rqc_ResetTTL rq_DefaultConfig)" by code_simp
  from redis_quota_bound [OF plain_redis_strings t _ _ p l _ g _ run] run show ?thesis
    by (intro exI [of _ ?cs] exI [of _ r'] exI [of _ xs]) (simp add: acme_valid lua_exact_def)
qed

end
