(* ===== verification/Limiter_Redis.thy ===== *)
theory Limiter_Redis
  imports Quota_Redis
begin

text \<open>
  adapters/limiter-redis/limiter-redis.go: rate limits kept on a Redis server, one Lua script per
  algorithm. The scripts work on \<open>'r redis\<close>; \<open>now\<close> is a reading of \<^verbatim>\<open>time.Now()\<close> in nanoseconds.
\<close>

section \<open>Configuration\<close>

record redis_limiter_config =
  rlc_RedisAddr :: string
  rlc_Password :: string
  rlc_DB :: int
  rlc_Algorithm :: string
  rlc_Limit :: int
  rlc_Window :: int

record 'c redis_limiter =
  rl_client :: 'c
  rl_ownsConn :: bool
  rl_algorithm :: string
  rl_limit :: int
  rl_window :: int

definition check_config :: "redis_limiter_config \<Rightarrow> string res" where
  "check_config config =
     (if rlc_Limit config \<le> 0 then Err (NewErr ''limit must be positive'')
      else if rlc_Window config \<le> 0 then Err (NewErr ''window duration must be positive'')
      else let algorithm = (if rlc_Algorithm config = [] then ''token_bucket'' else rlc_Algorithm config)
        in if algorithm \<in> {''token_bucket'', ''fixed_window'', ''sliding_window''} then Ok algorithm
           else Err (NewErr (''unsupported algorithm: '' @ algorithm
                  @ '' (use token_bucket, fixed_window, or sliding_window)'')))"

text \<open>\<open>ping\<close> is the error of a PING of the client, \<open>connect\<close> the client that \<^verbatim>\<open>redis.NewClient\<close> returns.\<close>

definition rl_New :: "('c \<Rightarrow> go_error option) \<Rightarrow> 'c option \<Rightarrow> redis_limiter_config \<Rightarrow> 'c redis_limiter res" where
  "rl_New ping client config =
     (case client of
        None \<Rightarrow> Err (NewErr ''redis client cannot be nil'')
      | Some c \<Rightarrow> res_bind (check_config config) (\<lambda>algorithm.
          case ping c of
            Some e \<Rightarrow> Err (WrapErr ''failed to connect to Redis: '' e [])
          | None \<Rightarrow> Ok \<lparr>rl_client = c, rl_ownsConn = False, rl_algorithm = algorithm,
                       rl_limit = rlc_Limit config, rl_window = rlc_Window config\<rparr>))"

definition NewLimiterRedis ::
  "(string \<Rightarrow> string \<Rightarrow> int \<Rightarrow> 'c) \<Rightarrow> ('c \<Rightarrow> go_error option) \<Rightarrow> redis_limiter_config \<Rightarrow> 'c redis_limiter res" where
  "NewLimiterRedis connect ping config =
     (if rlc_RedisAddr config = [] then Err (NewErr ''redis address is required'')
      else res_bind (check_config config) (\<lambda>algorithm.
        let c = connect (rlc_RedisAddr config) (rlc_Password config) (rlc_DB config)
        in case ping c of
             Some e \<Rightarrow> Err (WrapErr (''failed to connect to Redis at '' @ rlc_RedisAddr config @ '': '') e [])
           | None \<Rightarrow> Ok \<lparr>rl_client = c, rl_ownsConn = True, rl_algorithm = algorithm,
                        rl_limit = rlc_Limit config, rl_window = rlc_Window config\<rparr>))"

section \<open>Scripts\<close>

text \<open>
  A field that is missing or no number reads as nil. Dividing by a window of 0 gives infinity or NaN,
  and \<^verbatim>\<open>math.min\<close> then gives the limit, or minus infinity when the clock ran backwards, which the
  reply turns into the least integer. Below \<open>2 ^ 53\<close> the floor of the rounded quotient is that of the
  quotient.
\<close>

definition script_field :: "string option \<Rightarrow> int option" where
  "script_field v = (case v of None \<Rightarrow> None | Some s \<Rightarrow> str_int s)"

definition tokenBucketScript ::
  "'r redis \<Rightarrow> string \<Rightarrow> int \<Rightarrow> int \<Rightarrow> int \<Rightarrow> int \<Rightarrow> 'r \<Rightarrow> 'r \<times> int list res" where
  "tokenBucketScript rd key limit now window requested r =
     script_bind (r, rd_hmget rd r key ''tokens'') (\<lambda>r v.
     script_bind (r, rd_hmget rd r key ''last_update'') (\<lambda>r w.
       let (tokens, last_update) =
             (case script_field v of None \<Rightarrow> (limit, Some now) | Some tokens \<Rightarrow> (tokens, script_field w))
       in case last_update of
            None \<Rightarrow> (r, Err (NewErr ''ERR attempt to perform arithmetic on a nil value''))
          | Some last_update \<Rightarrow>
              let elapsed = now - last_update
              in if window = 0 \<and> elapsed < 0 then (r, Ok [0, - (2 ^ 63)])
                 else let tokens = (if window = 0 then limit else min limit (tokens + elapsed * limit div window))
                   in if requested \<le> tokens
                      then let tokens = tokens - requested
                        in script_bind (rd_hmset rd r key [(''tokens'', int_str tokens), (''last_update'', int_str now)]) (\<lambda>r _.
                           script_bind (rd_expire rd r key window) (\<lambda>r _. (r, Ok [1, tokens])))
                      else (r, Ok [0, tokens])))"

definition fixedWindowScript ::
  "'r redis \<Rightarrow> string \<Rightarrow> int \<Rightarrow> int \<Rightarrow> int \<Rightarrow> 'r \<Rightarrow> 'r \<times> int list res" where
  "fixedWindowScript rd key limit window requested r =
     script_bind (r, get_number rd r key) (\<lambda>r current.
       if current + requested \<le> limit
       then script_bind (rd_incrby rd r key requested) (\<lambda>r new_count.
         if new_count = requested
         then script_bind (rd_expire rd r key window) (\<lambda>r _. (r, Ok [1, limit - new_count]))
         else (r, Ok [1, limit - new_count]))
       else (r, Ok [0, limit - current]))"

text \<open>
  The loop of the sliding window adds the members \<^verbatim>\<open>now:1\<close> to \<^verbatim>\<open>now:requested\<close>. Lua prints
  a number with 14 digits, which is all of a time in milliseconds for three thousand years to come.
\<close>

definition log_member :: "int \<Rightarrow> nat \<Rightarrow> string" where
  "log_member now i = int_str now @ '':'' @ int_str (int i)"

fun log_requests :: "'r redis \<Rightarrow> string \<Rightarrow> int \<Rightarrow> nat list \<Rightarrow> 'r \<Rightarrow> 'r \<times> unit res" where
  "log_requests rd key now [] r = (r, Ok ())"
| "log_requests rd key now (i # is) r =
     script_bind (rd_zadd rd r key now (log_member now i)) (\<lambda>r _. log_requests rd key now is r)"

definition slidingWindowScript ::
  "'r redis \<Rightarrow> string \<Rightarrow> int \<Rightarrow> int \<Rightarrow> int \<Rightarrow> int \<Rightarrow> 'r \<Rightarrow> 'r \<times> int list res" where
  "slidingWindowScript rd key limit window now requested r =
     (let cutoff = now - window * 1000
      in script_bind (rd_zremrangebyscore rd r key 0 cutoff) (\<lambda>r _.
         script_bind (r, rd_zcard rd r key) (\<lambda>r current.
           if current + requested \<le> limit
           then script_bind (log_requests rd key now [1..<nat requested + 1] r) (\<lambda>r _.
                script_bind (rd_expire rd r key (window * 2)) (\<lambda>r _.
                script_bind (r, rd_zcard rd r key) (\<lambda>r new_count. (r, Ok [1, limit - new_count]))))
           else (r, Ok [0, limit - current]))))"

section \<open>Operations\<close>

definition unix :: "int \<Rightarrow> int" where
  "unix now = now div second"

definition unix_milli :: "int \<Rightarrow> int" where
  "unix_milli now = now div 1000000"

definition rl_AllowN ::
  "'r redis \<Rightarrow> 'c redis_limiter \<Rightarrow> link \<Rightarrow> int \<Rightarrow> 'r \<Rightarrow> string \<Rightarrow> int \<Rightarrow> 'r \<times> bool res" where
  "rl_AllowN rd lr l now r key n =
     (if n \<le> 0 then (r, Err (NewErr ''n must be positive''))
      else
        let windowSeconds = whole_seconds (rl_window lr);
            run =
              (if rl_algorithm lr = ''token_bucket''
               then Some (tokenBucketScript rd key (rl_limit lr) (unix now) windowSeconds n)
               else if rl_algorithm lr = ''fixed_window''
               then Some (fixedWindowScript rd key (rl_limit lr) windowSeconds n)
               else if rl_algorithm lr = ''sliding_window''
               then Some (slidingWindowScript rd key (rl_limit lr) windowSeconds (unix_milli now) n)
               else None)
        in case run of
             None \<Rightarrow> (r, Err (NewErr (''unknown algorithm: '' @ rl_algorithm lr)))
           | Some run \<Rightarrow>
               (case redis_call l run r of
                  (r, Err e) \<Rightarrow> (r, Err (WrapErr ''redis rate limit check failed: '' e []))
                | (r, Panic) \<Rightarrow> (r, Panic)
                | (r, Ok []) \<Rightarrow> (r, Err (NewErr ''unexpected redis response''))
                | (r, Ok (allowed # _)) \<Rightarrow> (r, Ok (allowed = 1))))"

definition rl_Allow :: "'r redis \<Rightarrow> 'c redis_limiter \<Rightarrow> link \<Rightarrow> int \<Rightarrow> 'r \<Rightarrow> string \<Rightarrow> 'r \<times> bool res" where
  "rl_Allow rd lr l now r key = rl_AllowN rd lr l now r key 1"

text \<open>A value that is no int64 counts as a full bucket, but is an error for a fixed window.\<close>

definition rl_Remaining ::
  "'r redis \<Rightarrow> 'c redis_limiter \<Rightarrow> link \<times> link \<Rightarrow> int \<Rightarrow> 'r \<Rightarrow> string \<Rightarrow> 'r \<times> int res" where
  "rl_Remaining rd lr ls now r key =
     (if rl_algorithm lr = ''token_bucket''
      then (case redis_call (fst ls) (\<lambda>r. (r, rd_hmget rd r key ''tokens'')) r of
              (r, Err e) \<Rightarrow> (r, Err (WrapErr ''failed to get remaining tokens: '' e []))
            | (r, Panic) \<Rightarrow> (r, Panic)
            | (r, Ok None) \<Rightarrow> (r, Ok (rl_limit lr))
            | (r, Ok (Some tokensStr)) \<Rightarrow>
                (r, Ok (case parse_int64 tokensStr of None \<Rightarrow> rl_limit lr | Some tokens \<Rightarrow> tokens)))
      else if rl_algorithm lr = ''fixed_window''
      then (case redis_call (fst ls) (\<lambda>r. (r, rd_get rd r key)) r of
              (r, Err e) \<Rightarrow> (r, Err (WrapErr ''failed to get current count: '' e []))
            | (r, Panic) \<Rightarrow> (r, Panic)
            | (r, Ok None) \<Rightarrow> (r, Ok (rl_limit lr))
            | (r, Ok (Some s)) \<Rightarrow>
                (r, case parse_int64 s of
                      None \<Rightarrow> Err (WrapErr ''failed to get current count: '' (parse_error s) [])
                    | Some current \<Rightarrow> Ok (max 0 (sub64 (rl_limit lr) current))))
      else if rl_algorithm lr = ''sliding_window''
      then let cutoff = unix_milli now - whole_seconds (rl_window lr) * 1000
        in (case redis_call (fst ls) (\<lambda>r. rd_zremrangebyscore rd r key 0 cutoff) r of
              (r, Err e) \<Rightarrow> (r, Err (WrapErr ''failed to remove old entries: '' e []))
            | (r, Panic) \<Rightarrow> (r, Panic)
            | (r, Ok _) \<Rightarrow>
                (case redis_call (snd ls) (\<lambda>r. (r, rd_zcard rd r key)) r of
                   (r, Err e) \<Rightarrow> (r, Err (WrapErr ''failed to get current count: '' e []))
                 | (r, Panic) \<Rightarrow> (r, Panic)
                 | (r, Ok current) \<Rightarrow> (r, Ok (max 0 (sub64 (rl_limit lr) current)))))
      else (r, Err (NewErr (''unknown algorithm: '' @ rl_algorithm lr))))"

definition rl_Reset :: "'r redis \<Rightarrow> link \<Rightarrow> 'r \<Rightarrow> string \<Rightarrow> 'r \<times> unit res" where
  "rl_Reset rd l r key =
     (case redis_call l (\<lambda>r. rd_del rd r key) r of
        (r, Err e) \<Rightarrow> (r, Err (WrapErr ''failed to reset key: '' e []))
      | (r, Panic) \<Rightarrow> (r, Panic)
      | (r, Ok _) \<Rightarrow> (r, Ok ()))"

definition rl_Health :: "('c \<Rightarrow> go_error option) \<Rightarrow> 'c redis_limiter \<Rightarrow> unit res" where
  "rl_Health ping lr =
     (case ping (rl_client lr) of Some e \<Rightarrow> Err (WrapErr ''redis health check failed: '' e []) | None \<Rightarrow> Ok ())"

text \<open>What \<^verbatim>\<open>Close\<close> closes: only a connection the limiter opened itself.\<close>

definition rl_Close :: "('c \<Rightarrow> go_error option) \<Rightarrow> 'c redis_limiter \<Rightarrow> 'c option \<times> unit res" where
  "rl_Close close lr =
     (if rl_ownsConn lr
      then (Some (rl_client lr), case close (rl_client lr) of Some e \<Rightarrow> Err e | None \<Rightarrow> Ok ())
      else (None, Ok ()))"

text \<open>
  \<^verbatim>\<open>Stats\<close>: algorithm, limit, window, whether \<^verbatim>\<open>Health\<close> succeeds, and what the server says of
  itself, \<^verbatim>\<open>info\<close>, which is empty when it does not answer.
\<close>

definition rl_Stats ::
  "('c \<Rightarrow> go_error option) \<Rightarrow> ('c \<Rightarrow> string) \<Rightarrow> 'c redis_limiter \<Rightarrow> string \<times> int \<times> int \<times> bool \<times> string" where
  "rl_Stats ping info lr =
     (rl_algorithm lr, rl_limit lr, rl_window lr, rl_Health ping lr = Ok (), info (rl_client lr))"

section \<open>Runs\<close>

text \<open>
  A run of calls for one key, by any number of clients: before each of them the server's data may
  have changed, by calls for other keys or by time passing (\<open>env\<close>); its answer may get lost.
\<close>

type_synonym 'r limit_call = "('r \<Rightarrow> 'r) \<times> link \<times> int \<times> int"

fun rl_run ::
  "'r redis \<Rightarrow> 'c redis_limiter \<Rightarrow> string \<Rightarrow> 'r \<Rightarrow> 'r limit_call list \<Rightarrow> 'r \<times> bool res list" where
  "rl_run rd lr key r [] = (r, [])"
| "rl_run rd lr key r ((env, l, now, n) # cs) =
     (let (r, x) = rl_AllowN rd lr l now (env r) key n; (r, xs) = rl_run rd lr key r cs in (r, x # xs))"

text \<open>What a run grants, and the requests it grants, as the reading of the clock and the amount.\<close>

fun rl_granted :: "'r limit_call list \<Rightarrow> bool res list \<Rightarrow> int" where
  "rl_granted ((env, l, now, n) # cs) (x # xs) = (if x = Ok True then n else 0) + rl_granted cs xs"
| "rl_granted _ _ = 0"

lemma rl_run_Cons:
  assumes "rl_run rd lr key r ((env, l, now, n) # cs) = (r', xs)"
  shows "\<exists>r1 x ys. rl_AllowN rd lr l now (env r) key n = (r1, x) \<and> rl_run rd lr key r1 cs = (r', ys) \<and> xs = x # ys"
  using assms by (auto split: prod.splits)

text \<open>A call runs the script of the algorithm on the server or leaves the server as it was.\<close>

definition rl_script :: "'r redis \<Rightarrow> 'c redis_limiter \<Rightarrow> int \<Rightarrow> string \<Rightarrow> int \<Rightarrow> 'r \<Rightarrow> 'r \<times> int list res" where
  "rl_script rd lr now key n =
     (let w = whole_seconds (rl_window lr)
      in if rl_algorithm lr = ''token_bucket'' then tokenBucketScript rd key (rl_limit lr) (unix now) w n
         else if rl_algorithm lr = ''fixed_window'' then fixedWindowScript rd key (rl_limit lr) w n
         else slidingWindowScript rd key (rl_limit lr) w (unix_milli now) n)"

definition known_algorithm :: "'c redis_limiter \<Rightarrow> bool" where
  "known_algorithm lr \<longleftrightarrow> rl_algorithm lr \<in> {''token_bucket'', ''fixed_window'', ''sliding_window''}"

lemma rl_AllowN_cases:
  assumes "rl_AllowN rd lr l now r key n = (r', x)" "known_algorithm lr"
  shows "r' = r \<and> x \<noteq> Ok True \<or>
    0 < n \<and> r' = fst (rl_script rd lr now key n r) \<and>
    (x = Ok True \<longrightarrow> (\<exists>reply. snd (rl_script rd lr now key n r) = Ok (1 # reply)))"
proof (cases "n \<le> 0")
  case True
  then show ?thesis using assms(1) by (auto simp: rl_AllowN_def)
next
  case False
  obtain r1 y where s: "rl_script rd lr now key n r = (r1, y)" by (cases "rl_script rd lr now key n r")
  have a: "rl_AllowN rd lr l now r key n =
      (case redis_call l (rl_script rd lr now key n) r of
         (r, Err e) \<Rightarrow> (r, Err (WrapErr ''redis rate limit check failed: '' e []))
       | (r, Panic) \<Rightarrow> (r, Panic)
       | (r, Ok []) \<Rightarrow> (r, Err (NewErr ''unexpected redis response''))
       | (r, Ok (allowed # _)) \<Rightarrow> (r, Ok (allowed = 1)))"
    using False assms(2) by (auto simp: rl_AllowN_def rl_script_def known_algorithm_def Let_def)
  show ?thesis
  proof (cases l)
    case Served
    then show ?thesis
      using assms(1) a s False by (cases y) (auto simp: redis_call_def split: list.splits)
  qed (use assms(1) a s False in \<open>auto simp: redis_call_def\<close>)
qed

lemma rl_AllowN_served:
  assumes "rl_script rd lr now key n r = (r', Ok (1 # reply))" "0 < n" "known_algorithm lr"
  shows "rl_AllowN rd lr Served now r key n = (r', Ok True)"
  using assms by (auto simp: rl_AllowN_def rl_script_def known_algorithm_def redis_call_def Let_def)

section \<open>Fixed window\<close>

text \<open>The script is the one of the quotas, with the reply as an array.\<close>

lemma fixed_window_consume:
  "fixedWindowScript rd key limit window n r =
     (case consumeQuotaScript rd key limit n window r of
        (r, Ok (a, b)) \<Rightarrow> (r, Ok [a, b]) | (r, Err e) \<Rightarrow> (r, Err e) | (r, Panic) \<Rightarrow> (r, Panic))"
  by (cases "get_number rd r key"; cases "rd_incrby rd r key n"; cases "snd (rd_incrby rd r key n)";
      cases "rd_expire rd (fst (rd_incrby rd r key n)) key window";
      cases "snd (rd_expire rd (fst (rd_incrby rd r key n)) key window)")
    (auto simp: fixedWindowScript_def consumeQuotaScript_def)

lemma fixed_step:
  assumes "redis_strings_ok rd" "0 < whole_seconds (rl_window lr)" "rl_algorithm lr = ''fixed_window''"
    "in_i64 (rl_limit lr)" "get_number rd r key = Ok u" "0 \<le> u"
    "rl_AllowN rd lr l now r key n = (r', x)"
  shows "\<exists>u'. get_number rd r' key = Ok u' \<and> u + (if x = Ok True then n else 0) \<le> u' \<and> u \<le> u' \<and>
    u' \<le> max u (rl_limit lr)"
proof -
  have k: "known_algorithm lr" using assms(3) by (simp add: known_algorithm_def)
  have sc: "rl_script rd lr now key n = fixedWindowScript rd key (rl_limit lr) (whole_seconds (rl_window lr)) n"
    using assms(3) by (simp add: rl_script_def)
  from rl_AllowN_cases [OF assms(7) k] show ?thesis
  proof
    assume "r' = r \<and> x \<noteq> Ok True"
    then show ?thesis using assms(5) by auto
  next
    assume h: "0 < n \<and> r' = fst (rl_script rd lr now key n r) \<and>
      (x = Ok True \<longrightarrow> (\<exists>reply. snd (rl_script rd lr now key n r) = Ok (1 # reply)))"
    show ?thesis
    proof (cases "u + n \<le> rl_limit lr")
      case True
      from consume_script [OF assms(1,5,6) _ True assms(4,2)] h obtain r1 where
        "consumeQuotaScript rd key (rl_limit lr) n (whole_seconds (rl_window lr)) r = (r1, Ok (1, rl_limit lr - (u + n)))"
        "get_number rd r1 key = Ok (u + n)" by auto
      then show ?thesis using h sc True by (auto simp: fixed_window_consume)
    next
      case False
      then have "rl_script rd lr now key n r = (r, Ok [0, rl_limit lr - u])"
        using sc assms(5) by (simp add: fixedWindowScript_def)
      then show ?thesis using h assms(5) by auto
    qed
  qed
qed

text \<open>
  The fixed window on the Redis server holds the limit: until the key expires, the calls of all
  clients together are granted at most what the limit leaves, whatever happens to other keys in
  between and whichever answers are lost, and the counter covers every grant.
\<close>

theorem redis_fixed_window_bound:
  assumes "redis_strings_ok rd" "0 < whole_seconds (rl_window lr)" "rl_algorithm lr = ''fixed_window''"
    "in_i64 (rl_limit lr)" "\<forall>(env, l, now, n) \<in> set cs. \<forall>r. rd_get rd (env r) key = rd_get rd r key"
    "get_number rd r key = Ok u" "0 \<le> u" "rl_run rd lr key r cs = (r', xs)"
  shows "rl_granted cs xs \<le> max 0 (rl_limit lr - u) \<and>
    (\<exists>u'. get_number rd r' key = Ok u' \<and> u + rl_granted cs xs \<le> u' \<and> u' \<le> max u (rl_limit lr))"
proof -
  have "\<exists>u'. get_number rd r' key = Ok u' \<and> u + rl_granted cs xs \<le> u' \<and> u' \<le> max u (rl_limit lr)"
    using assms(5-8)
  proof (induction cs arbitrary: r u xs)
    case Nil
    then show ?case by auto
  next
    case (Cons c cs)
    obtain env l now n where c: "c = (env, l, now, n)" by (cases c)
    from rl_run_Cons [OF Cons.prems(4) [unfolded c]] obtain r1 x ys where
      s: "rl_AllowN rd lr l now (env r) key n = (r1, x)" "rl_run rd lr key r1 cs = (r', ys)" "xs = x # ys" by blast
    have "get_number rd (env r) key = Ok u"
      using Cons.prems(1,2) c get_number_cong [of rd "env r" key r] by simp
    from fixed_step [OF assms(1-4) this Cons.prems(3) s(1)] obtain u1 where
      u1: "get_number rd r1 key = Ok u1" "u + (if x = Ok True then n else 0) \<le> u1" "u \<le> u1"
        "u1 \<le> max u (rl_limit lr)" by blast
    from Cons.IH [OF _ u1(1) _ s(2)] Cons.prems(1,3) u1(2-4) s(3) c show ?case by fastforce
  qed
  then show ?thesis by auto
qed

section \<open>Windows of less than a second\<close>

text \<open>Nothing is kept at the key, as the commands of the algorithm see it.\<close>

definition fresh_key :: "'r redis \<Rightarrow> 'r zsets \<Rightarrow> 'c redis_limiter \<Rightarrow> 'r \<Rightarrow> string \<Rightarrow> bool" where
  "fresh_key rd zs lr r key \<longleftrightarrow>
     (if rl_algorithm lr = ''token_bucket'' then \<forall>f. rd_hmget rd r key f = Ok None
      else if rl_algorithm lr = ''fixed_window'' then rd_get rd r key = Ok None
      else zs r key = Some Map.empty)"

lemma token_subsecond:
  assumes "redis_hashes_ok rd" "\<forall>f. rd_hmget rd r key f = Ok None" "n \<le> limit"
  shows "\<exists>r'. tokenBucketScript rd key limit now 0 n r = (r', Ok [1, limit - n]) \<and> (\<forall>f. rd_hmget rd r' key f = Ok None)"
proof -
  from redis_hmset [OF assms(1), of r key "[(''tokens'', int_str (limit - n)), (''last_update'', int_str now)]"] assms(2)
  obtain r1 where 1: "rd_hmset rd r key [(''tokens'', int_str (limit - n)), (''last_update'', int_str now)] = (r1, Ok ())"
    by auto
  from redis_expire_hash [OF assms(1), of r1 key 0] obtain r2 where
    2: "rd_expire rd r1 key 0 = (r2, Ok ())" "\<forall>f. rd_hmget rd r2 key f = Ok None" by auto
  show ?thesis using 1 2 assms(2,3) by (simp add: tokenBucketScript_def script_field_def)
qed

lemma fixed_subsecond:
  assumes "redis_strings_ok rd" "rd_get rd r key = Ok None" "n \<le> limit" "in_i64 n"
  shows "\<exists>r'. fixedWindowScript rd key limit 0 n r = (r', Ok [1, limit - n]) \<and> rd_get rd r' key = Ok None"
proof -
  have g: "get_number rd r key = Ok 0" using assms(2) by (simp add: get_number_def script_number_def)
  from redis_incrby [OF assms(1) g, of n] assms(4) obtain r1 where 1: "rd_incrby rd r key n = (r1, Ok n)" by auto
  from redis_expire [OF assms(1), of r1 key 0] obtain r2 where
    2: "rd_expire rd r1 key 0 = (r2, Ok ())" "rd_get rd r2 key = Ok None" by auto
  show ?thesis using g 1 2 assms(3) by (simp add: fixedWindowScript_def)
qed

section \<open>The log of the sliding window\<close>

lemma log_member_inj: "log_member now i = log_member now' j \<longleftrightarrow> now = now' \<and> i = j"
proof
  have c: "CHR '':'' \<notin> set (int_str m)" for m
    by (auto simp: int_str_def is_digit_def dest!: nat_str_digits)
  assume "log_member now i = log_member now' j"
  then have "int_str now = int_str now' \<and> int_str (int i) = int_str (int j)"
    using colon_split [OF c [of now] c [of now'], of "int_str (int i)" "int_str (int j)"] by (simp add: log_member_def)
  then show "now = now' \<and> i = j" using str_int_int_str by (metis of_nat_eq_iff option.inject)
qed simp

lemma log_requests:
  assumes "redis_zsets_ok rd zs" "zs r key = Some z"
  shows "\<exists>r'. log_requests rd key now is r = (r', Ok ()) \<and>
    zs r' key = Some (\<lambda>m. if m \<in> log_member now ` set is then Some now else z m)"
  using assms(2)
proof (induction "is" arbitrary: r z)
  case Nil
  then show ?case by simp
next
  case (Cons i "is")
  from redis_zadd [OF assms(1) Cons.prems, of now "log_member now i"] obtain r1 where
    1: "rd_zadd rd r key now (log_member now i) = (r1, Ok ())" "zs r1 key = Some (z(log_member now i \<mapsto> now))" by blast
  from Cons.IH [OF 1(2)] obtain r2 where
    2: "log_requests rd key now is r1 = (r2, Ok ())"
      "zs r2 key = Some (\<lambda>m. if m \<in> log_member now ` set is then Some now else (z(log_member now i \<mapsto> now)) m)"
    by blast
  have "(\<lambda>m. if m \<in> log_member now ` set is then Some now else (z(log_member now i \<mapsto> now)) m) =
      (\<lambda>m. if m \<in> log_member now ` set (i # is) then Some now else z m)"
    by (auto simp: fun_eq_iff)
  then show ?case using 1 2 by simp
qed

text \<open>What the log holds after the old entries are gone.\<close>

definition recent_log :: "int \<Rightarrow> (string \<rightharpoonup> int) \<Rightarrow> string \<rightharpoonup> int" where
  "recent_log cutoff z = (\<lambda>m. case z m of Some s \<Rightarrow> if 0 \<le> s \<and> s \<le> cutoff then None else Some s | None \<Rightarrow> None)"

lemma sliding_script:
  assumes "redis_zsets_ok rd zs" "zs r key = Some z" "z' = recent_log (now - window * 1000) z"
  shows "if int (card (dom z')) + n \<le> limit
    then \<exists>r' k. slidingWindowScript rd key limit window now n r = (r', Ok [1, k]) \<and>
      zs r' key = Some (if 0 < window then (\<lambda>m. if m \<in> log_member now ` {1..nat n} then Some now else z' m) else Map.empty)
    else \<exists>r' k. slidingWindowScript rd key limit window now n r = (r', Ok [0, k]) \<and> zs r' key = Some z'"
proof -
  from redis_zrem [OF assms(1,2), of 0 "now - window * 1000"] obtain r1 where
    1: "rd_zremrangebyscore rd r key 0 (now - window * 1000) = (r1, Ok ())" "zs r1 key = Some z'"
    by (auto simp: assms(3) recent_log_def)
  have 2: "rd_zcard rd r1 key = Ok (int (card (dom z')))" using redis_zcard [OF assms(1) 1(2)] by simp
  show ?thesis
  proof (cases "int (card (dom z')) + n \<le> limit")
    case True
    from log_requests [OF assms(1) 1(2), of now "[1..<nat n + 1]"] obtain r2 where
      3: "log_requests rd key now [1..<nat n + 1] r1 = (r2, Ok ())"
        "zs r2 key = Some (\<lambda>m. if m \<in> log_member now ` {1..nat n} then Some now else z' m)"
      by (auto simp: atLeastLessThanSuc_atLeastAtMost simp del: upt_Suc)
    from redis_expire_zset [OF assms(1) 3(2), of "window * 2"] obtain r3 where
      4: "rd_expire rd r2 key (window * 2) = (r3, Ok ())"
        "zs r3 key = Some (if 0 < window then (\<lambda>m. if m \<in> log_member now ` {1..nat n} then Some now else z' m) else Map.empty)"
      by (auto split: if_splits)
    show ?thesis
      using 1 2 3 4 True redis_zcard [OF assms(1) 4(2)] by (simp add: slidingWindowScript_def del: upt_Suc)
  next
    case False
    then show ?thesis using 1 2 by (simp add: slidingWindowScript_def)
  qed
qed

lemma sliding_subsecond:
  assumes "redis_zsets_ok rd zs" "zs r key = Some Map.empty" "n \<le> limit"
  shows "\<exists>r' k. slidingWindowScript rd key limit 0 now n r = (r', Ok [1, k]) \<and> zs r' key = Some Map.empty"
  using sliding_script [OF assms(1,2) refl, of now 0 n limit] assms(3) by (simp add: recent_log_def)

lemma subsecond_step:
  assumes "redis_strings_ok rd" "redis_hashes_ok rd" "redis_zsets_ok rd zs" "known_algorithm lr"
    "0 < rl_window lr" "rl_window lr < second" "in_i64 (rl_limit lr)" "0 < n" "n \<le> rl_limit lr"
    "fresh_key rd zs lr r key"
  shows "\<exists>r'. rl_AllowN rd lr Served now r key n = (r', Ok True) \<and> fresh_key rd zs lr r' key"
proof -
  have w: "whole_seconds (rl_window lr) = 0" using assms(5,6) by (simp add: whole_seconds_def)
  have n: "in_i64 n" using assms(7-9) by (simp add: i64_defs)
  obtain r' k where "rl_script rd lr now key n r = (r', Ok (1 # k))" "fresh_key rd zs lr r' key"
    using token_subsecond [OF assms(2) _ assms(9), of r key "unix now"]
      fixed_subsecond [OF assms(1) _ assms(9) n, of r key]
      sliding_subsecond [OF assms(3) _ assms(9), of r key "unix_milli now"] assms(4,10) w
    by (auto simp: rl_script_def known_algorithm_def fresh_key_def)
  then show ?thesis using rl_AllowN_served [OF _ assms(8,4)] by (intro exI [of _ r']) simp
qed

section \<open>Sliding window\<close>

lemma sliding_rl_script:
  "rl_algorithm lr = ''sliding_window'' \<Longrightarrow>
    rl_script rd lr now key n = slidingWindowScript rd key (rl_limit lr) (whole_seconds (rl_window lr)) (unix_milli now) n"
  by (simp add: rl_script_def)

text \<open>The requests a run grants, each with the millisecond of its clock reading.\<close>

fun rl_grants :: "'r limit_call list \<Rightarrow> bool res list \<Rightarrow> (int \<times> int) list" where
  "rl_grants ((env, l, now, n) # cs) (x # xs) = (if x = Ok True then [(unix_milli now, n)] else []) @ rl_grants cs xs"
| "rl_grants _ _ = []"

text \<open>What is granted in the milliseconds after \<open>from\<close> and up to \<open>upto\<close>.\<close>

definition granted_in :: "int \<Rightarrow> int \<Rightarrow> (int \<times> int) list \<Rightarrow> int" where
  "granted_in from_ms upto_ms gs = sum_list (map snd (filter (\<lambda>(t, n). from_ms < t \<and> t \<le> upto_ms) gs))"

lemma granted_in_append [simp]: "granted_in a b (gs @ hs) = granted_in a b gs + granted_in a b hs"
  by (simp add: granted_in_def)

lemma granted_in_mono:
  assumes "\<forall>(t, n) \<in> set gs. 0 \<le> n \<and> (a < t \<and> t \<le> b \<longrightarrow> a' < t \<and> t \<le> b')"
  shows "granted_in a b gs \<le> granted_in a' b' gs"
  using assms by (induction gs) (auto simp: granted_in_def)

text \<open>The members the log keeps for the requests granted.\<close>

definition grant_members :: "(int \<times> int) list \<Rightarrow> string list" where
  "grant_members gs = concat (map (\<lambda>(t, n). map (log_member t) [1..<nat n + 1]) gs)"

lemma grant_members_set: "m \<in> set (grant_members gs) \<longleftrightarrow> (\<exists>t n i. (t, n) \<in> set gs \<and> i \<in> {1..nat n} \<and> m = log_member t i)"
  by (fastforce simp: grant_members_def atLeastLessThanSuc_atLeastAtMost simp del: upt_Suc)

lemma grant_members_distinct: "distinct (map fst gs) \<Longrightarrow> distinct (grant_members gs)"
proof (induction gs)
  case (Cons g gs)
  obtain t n where g: "g = (t, n)" by (cases g)
  have "distinct (map (log_member t) [1..<nat n + 1])"
    by (simp add: distinct_map inj_on_def log_member_inj del: upt_Suc)
  moreover have "set (map (log_member t) [1..<nat n + 1]) \<inter> set (grant_members gs) = {}"
    using Cons.prems g by (force simp: grant_members_set log_member_inj simp del: upt_Suc)
  ultimately show ?case using Cons g by (simp add: grant_members_def del: upt_Suc)
qed (simp add: grant_members_def)

lemma grant_members_length: "\<forall>(t, n) \<in> set gs. 0 \<le> n \<Longrightarrow> int (length (grant_members gs)) = sum_list (map snd gs)"
  by (induction gs) (auto simp: grant_members_def)

text \<open>The log covers the requests granted within the window before \<open>last_ms\<close>.\<close>

definition log_covers :: "(string \<rightharpoonup> int) \<Rightarrow> int \<Rightarrow> int \<Rightarrow> (int \<times> int) list \<Rightarrow> bool" where
  "log_covers z last_ms window gs \<longleftrightarrow>
     distinct (map fst gs) \<and>
     (\<forall>(t, n) \<in> set gs. 0 \<le> n \<and> t \<le> last_ms \<and>
        (last_ms - window * 1000 < t \<longrightarrow> (\<forall>i \<in> {1..nat n}. z (log_member t i) = Some t)))"

lemma log_covers_card:
  assumes "log_covers z last_ms window gs" "finite (dom z)"
  shows "granted_in (last_ms - window * 1000) last_ms gs \<le> int (card (dom z))"
proof -
  let ?gs = "filter (\<lambda>(t, n). last_ms - window * 1000 < t \<and> t \<le> last_ms) gs"
  have "granted_in (last_ms - window * 1000) last_ms gs = int (length (grant_members ?gs))"
    using assms(1) by (subst grant_members_length) (auto simp: granted_in_def log_covers_def)
  moreover have "distinct (grant_members ?gs)"
    using assms(1) by (intro grant_members_distinct distinct_map_filter) (simp add: log_covers_def)
  moreover have "set (grant_members ?gs) \<subseteq> dom z"
    using assms(1) by (fastforce simp: grant_members_set log_covers_def)
  ultimately show ?thesis
    using card_mono [OF assms(2), of "set (grant_members ?gs)"] by (simp add: distinct_card)
qed

text \<open>Time passes: the log may lose what is older than the window.\<close>

lemma log_covers_later:
  assumes "log_covers z last_ms window gs" "last_ms \<le> ms"
    "\<And>m s. z m = Some s \<Longrightarrow> ms - window * 1000 < s \<Longrightarrow> z' m = Some s"
  shows "log_covers z' ms window gs"
  using assms by (fastforce simp: log_covers_def)

lemma log_covers_grant:
  assumes "log_covers z ms window gs" "\<forall>(t, n) \<in> set gs. t \<noteq> ms" "0 < n"
  shows "log_covers (\<lambda>m. if m \<in> log_member ms ` {1..nat n} then Some ms else z m) ms window (gs @ [(ms, n)])"
  using assms by (auto simp: log_covers_def log_member_inj)

lemma log_covers_more:
  assumes "log_covers z ms window gs" "\<forall>(t, n) \<in> set gs. t \<noteq> ms"
  shows "log_covers (\<lambda>m. if m \<in> log_member ms ` {1..nat n} then Some ms else z m) ms window gs"
  using assms by (fastforce simp: log_covers_def log_member_inj)

lemma sliding_step:
  assumes "redis_zsets_ok rd zs" "0 < whole_seconds (rl_window lr)" "rl_algorithm lr = ''sliding_window''"
    "zs r key = Some z" "log_covers z (unix_milli now) (whole_seconds (rl_window lr)) gs"
    "\<forall>(t, n) \<in> set gs. t < unix_milli now" "rl_AllowN rd lr l now r key n = (r', x)"
  shows "\<exists>z'. zs r' key = Some z' \<and>
    log_covers z' (unix_milli now) (whole_seconds (rl_window lr)) (gs @ (if x = Ok True then [(unix_milli now, n)] else [])) \<and>
    (x = Ok True \<longrightarrow> 0 < n \<and>
       granted_in (unix_milli now - whole_seconds (rl_window lr) * 1000) (unix_milli now) gs + n \<le> rl_limit lr)"
proof -
  let ?w = "whole_seconds (rl_window lr)"
  let ?z = "recent_log (unix_milli now - ?w * 1000) z"
  let ?new = "\<lambda>m. if m \<in> log_member (unix_milli now) ` {1..nat n} then Some (unix_milli now) else ?z m"
  have k: "known_algorithm lr" using assms(3) by (simp add: known_algorithm_def)
  have cov: "log_covers ?z (unix_milli now) ?w gs"
    using assms(5) by (rule log_covers_later) (auto simp: recent_log_def)
  have new: "\<forall>(t, n) \<in> set gs. t \<noteq> unix_milli now" using assms(6) by auto
  from rl_AllowN_cases [OF assms(7) k] show ?thesis
  proof
    assume "r' = r \<and> x \<noteq> Ok True"
    then show ?thesis using assms(4,5) by auto
  next
    assume h: "0 < n \<and> r' = fst (rl_script rd lr now key n r) \<and>
      (x = Ok True \<longrightarrow> (\<exists>reply. snd (rl_script rd lr now key n r) = Ok (1 # reply)))"
    show ?thesis
    proof (cases "int (card (dom ?z)) + n \<le> rl_limit lr")
      case True
      with sliding_script [OF assms(1,4) refl, of "unix_milli now" ?w n "rl_limit lr"] assms(2)
      obtain r1 where "fst (rl_script rd lr now key n r) = r1" "zs r1 key = Some ?new"
        by (auto simp: sliding_rl_script [OF assms(3)])
      then have z': "zs r' key = Some ?new" using h by simp
      have "finite (dom ?z)"
        using redis_zcard [OF assms(1,4)] by (rule_tac finite_subset [of _ "dom z"])
          (auto simp: recent_log_def split: option.splits if_splits)
      from log_covers_card [OF cov this] True
      have "granted_in (unix_milli now - ?w * 1000) (unix_milli now) gs + n \<le> rl_limit lr" by simp
      then show ?thesis
        using z' h log_covers_grant [OF cov new, of n] log_covers_more [OF cov new, of n] by simp
    next
      case False
      with sliding_script [OF assms(1,4) refl, of "unix_milli now" ?w n "rl_limit lr"]
      obtain r1 k where "rl_script rd lr now key n r = (r1, Ok [0, k])" "zs r1 key = Some ?z"
        by (auto simp: sliding_rl_script [OF assms(3)])
      then show ?thesis using h cov by auto
    qed
  qed
qed

text \<open>The log outlives the window: in between, no entry younger than the window of the next call goes.\<close>

definition log_kept :: "'r zsets \<Rightarrow> string \<Rightarrow> int \<Rightarrow> 'r limit_call \<Rightarrow> bool" where
  "log_kept zs key window c \<longleftrightarrow>
     (case c of (env, l, now, n) \<Rightarrow> \<forall>r z. zs r key = Some z \<longrightarrow>
        (\<exists>z'. zs (env r) key = Some z' \<and> (\<forall>m s. z m = Some s \<and> unix_milli now - window * 1000 < s \<longrightarrow> z' m = Some s)))"

definition call_ms :: "'r limit_call \<Rightarrow> int" where
  "call_ms c = (case c of (env, l, now, n) \<Rightarrow> unix_milli now)"

lemma sliding_run:
  assumes "redis_zsets_ok rd zs" "0 < whole_seconds (rl_window lr)" "rl_algorithm lr = ''sliding_window''" "0 \<le> rl_limit lr"
    "\<forall>c \<in> set cs. log_kept zs key (whole_seconds (rl_window lr)) c" "sorted_wrt (<) (last_ms # map call_ms cs)"
    "zs r key = Some z" "log_covers z last_ms (whole_seconds (rl_window lr)) gs"
    "\<forall>T. granted_in (T - whole_seconds (rl_window lr) * 1000) T gs \<le> rl_limit lr" "rl_run rd lr key r cs = (r', xs)"
  shows "granted_in (T - whole_seconds (rl_window lr) * 1000) T (gs @ rl_grants cs xs) \<le> rl_limit lr"
  using assms(5-10)
proof (induction cs arbitrary: last_ms r z gs xs)
  case Nil
  then show ?case by (auto simp: granted_in_def)
next
  case (Cons c cs)
  let ?w = "whole_seconds (rl_window lr)"
  obtain env l now n where c: "c = (env, l, now, n)" by (cases c)
  let ?ms = "unix_milli now"
  from rl_run_Cons [OF Cons.prems(6) [unfolded c]] obtain r1 x ys where
    s: "rl_AllowN rd lr l now (env r) key n = (r1, x)" "rl_run rd lr key r1 cs = (r', ys)" "xs = x # ys" by blast
  have kept: "log_kept zs key ?w (env, l, now, n)" using Cons.prems(1) c by simp
  have "\<exists>z'. zs (env r) key = Some z' \<and> (\<forall>m s. z m = Some s \<and> ?ms - ?w * 1000 < s \<longrightarrow> z' m = Some s)"
    by (rule kept [unfolded log_kept_def split_conv, rule_format, OF Cons.prems(3)])
  then obtain z1 where z1: "zs (env r) key = Some z1"
    "\<And>m s. z m = Some s \<Longrightarrow> ?ms - ?w * 1000 < s \<Longrightarrow> z1 m = Some s" by blast
  have later: "last_ms < ?ms" using Cons.prems(2) c by (simp add: call_ms_def)
  have cov: "log_covers z1 ?ms ?w gs"
    by (rule log_covers_later [OF Cons.prems(4) less_imp_le [OF later] z1(2)])
  have before: "\<forall>(t, n) \<in> set gs. t < ?ms" using Cons.prems(4) later unfolding log_covers_def by auto
  let ?gs = "gs @ (if x = Ok True then [(?ms, n)] else [])"
  from sliding_step [OF assms(1-3) z1(1) cov before s(1)] obtain z2 where
    z2: "zs r1 key = Some z2" "log_covers z2 ?ms ?w ?gs"
      "x = Ok True \<Longrightarrow> 0 < n \<and> granted_in (?ms - ?w * 1000) ?ms gs + n \<le> rl_limit lr" by blast
  have "granted_in (T - ?w * 1000) T ?gs \<le> rl_limit lr" for T
  proof (cases "x = Ok True \<and> T - ?w * 1000 < ?ms \<and> ?ms \<le> T")
    case True
    have "granted_in (T - ?w * 1000) T gs \<le> granted_in (?ms - ?w * 1000) ?ms gs"
      using cov True by (intro granted_in_mono) (auto simp: log_covers_def)
    then show ?thesis using True z2(3) by (simp add: granted_in_def)
  next
    case False
    then show ?thesis using Cons.prems(5) by (auto simp: granted_in_def)
  qed
  moreover have "call_ms c = ?ms" by (simp add: c call_ms_def)
  then have "sorted_wrt (<) (?ms # map call_ms cs)" using Cons.prems(2) by simp
  ultimately have "granted_in (T - ?w * 1000) T (?gs @ rl_grants cs ys) \<le> rl_limit lr"
    using Cons.IH [OF _ _ z2(1,2) _ s(2)] Cons.prems(1) by simp
  then show ?case using c s(3) by simp
qed

text \<open>
  C4. The sliding window on the Redis server holds the limit as long as the calls for the key, of all
  clients together and in the order in which the server runs them, read strictly increasing
  milliseconds: the clocks agree, none runs backwards, and no two calls share a millisecond (C19). Then in every
  window, wherever it starts, at most the limit is granted, to all clients together, and whichever
  answers are lost. The limit is not negative, the window counts in whole seconds and has at least one,
  and what else happens to the key between the calls keeps the entries that are in the window.
\<close>

theorem redis_sliding_window_bound:
  assumes "redis_zsets_ok rd zs" "0 < whole_seconds (rl_window lr)" "rl_algorithm lr = ''sliding_window''"
    "0 \<le> rl_limit lr" "\<forall>c \<in> set cs. log_kept zs key (whole_seconds (rl_window lr)) c"
    "sorted_wrt (<) (map call_ms cs)" "zs r key = Some z" "rl_run rd lr key r cs = (r', xs)"
  shows "granted_in (T - whole_seconds (rl_window lr) * 1000) T (rl_grants cs xs) \<le> rl_limit lr"
proof -
  have "sorted_wrt (<) ((if cs = [] then 0 else call_ms (hd cs) - 1) # map call_ms cs)"
    using assms(6) by (cases cs) auto
  from sliding_run [OF assms(1-5) this assms(7) _ _ assms(8), of "[]" T] assms(4) show ?thesis
    by (simp add: log_covers_def granted_in_def)
qed

text \<open>
  C19. Calls in the same millisecond escape the limit: each of them writes its requests to the log
  under the same members, so that from an empty log any number of single requests of one millisecond
  is granted, for every limit of at least 2.
\<close>

theorem redis_sliding_collides:
  assumes "redis_zsets_ok rd zs" "0 < whole_seconds (rl_window lr)" "rl_algorithm lr = ''sliding_window''"
    "2 \<le> rl_limit lr" "\<forall>(env, l, now, n) \<in> set cs. l = Served \<and> unix_milli now = ms \<and> n = 1 \<and> (\<forall>r. zs (env r) key = zs r key)"
    "zs r key = Some Map.empty" "rl_run rd lr key r cs = (r', xs)"
  shows "rl_granted cs xs = int (length cs)"
proof -
  have "rl_granted cs xs = int (length cs)" if "zs r key = Some z" "dom z \<subseteq> {log_member ms 1}" for z
    using assms(5,7) that
  proof (induction cs arbitrary: r z xs)
    case Nil
    then show ?case by simp
  next
    case (Cons c cs)
    let ?w = "whole_seconds (rl_window lr)"
    let ?z = "recent_log (ms - ?w * 1000) z"
    obtain env l now n where c: "c = (env, l, now, n)" by (cases c)
    from rl_run_Cons [OF Cons.prems(2) [unfolded c]] obtain r1 x ys where
      s: "rl_AllowN rd lr l now (env r) key n = (r1, x)" "rl_run rd lr key r1 cs = (r', ys)" "xs = x # ys" by blast
    have h: "l = Served" "unix_milli now = ms" "n = 1" "zs (env r) key = Some z"
      using Cons.prems(1,3) c by auto
    have sub: "dom ?z \<subseteq> {log_member ms 1}"
      using Cons.prems(4) by (auto simp: recent_log_def dom_def split: option.splits if_splits)
    then have "card (dom ?z) \<le> 1" using card_mono [of "{log_member ms 1}" "dom ?z"] by simp
    then have room: "int (card (dom ?z)) + 1 \<le> rl_limit lr" using assms(4) by simp
    have "\<exists>r1 k. slidingWindowScript rd key (rl_limit lr) ?w ms 1 (env r) = (r1, Ok [1, k]) \<and>
        zs r1 key = Some (\<lambda>m. if m \<in> log_member ms ` {1..nat 1} then Some ms else ?z m)"
      using sliding_script [OF assms(1) h(4) refl, of ms ?w 1 "rl_limit lr"] room assms(2) by simp
    then obtain r2 k where r2: "slidingWindowScript rd key (rl_limit lr) ?w ms 1 (env r) = (r2, Ok [1, k])"
        "zs r2 key = Some (\<lambda>m. if m \<in> log_member ms ` {1..nat 1} then Some ms else ?z m)" by blast
    have "rl_AllowN rd lr Served now (env r) key n = (r2, Ok True)"
      using r2(1) h(2,3) assms(3) by (intro rl_AllowN_served) (auto simp: sliding_rl_script known_algorithm_def)
    then have x: "x = Ok True" "r1 = r2" using s(1) h(1) by simp_all
    have "dom (\<lambda>m. if m \<in> log_member ms ` {1..nat 1} then Some ms else ?z m) \<subseteq> {log_member ms 1}"
      using sub by (auto simp: dom_def split: if_splits)
    from Cons.IH [OF _ _ r2(2) this] Cons.prems(1) s(2,3) x c h(3) show ?case by simp
  qed
  from this [OF assms(6)] show ?thesis by simp
qed

text \<open>
  A window of less than a second limits nothing: the script is given 0 seconds, so that every
  request deletes what it has counted, and each request of at most the limit is granted, with each of
  the three algorithms.
\<close>

theorem redis_subsecond_never_limits:
  assumes "redis_strings_ok rd" "redis_hashes_ok rd" "redis_zsets_ok rd zs" "known_algorithm lr"
    "0 < rl_window lr" "rl_window lr < second" "in_i64 (rl_limit lr)"
    "\<forall>(env, l, now, n) \<in> set cs. l = Served \<and> 0 < n \<and> n \<le> rl_limit lr \<and>
       (\<forall>r. fresh_key rd zs lr r key \<longrightarrow> fresh_key rd zs lr (env r) key)"
    "fresh_key rd zs lr r key" "rl_run rd lr key r cs = (r', xs)"
  shows "rl_granted cs xs = sum_list (map (\<lambda>(env, l, now, n). n) cs)"
  using assms(8-10)
proof (induction cs arbitrary: r xs)
  case Nil
  then show ?case by simp
next
  case (Cons c cs)
  obtain env l now n where c: "c = (env, l, now, n)" by (cases c)
  from rl_run_Cons [OF Cons.prems(3) [unfolded c]] obtain r1 x ys where
    s: "rl_AllowN rd lr l now (env r) key n = (r1, x)" "rl_run rd lr key r1 cs = (r', ys)" "xs = x # ys" by blast
  have h: "l = Served" "0 < n" "n \<le> rl_limit lr" "fresh_key rd zs lr (env r) key"
    using Cons.prems(1,2) c by auto
  from subsecond_step [OF assms(1-7) h(2-4), of now] s(1) h(1)
  have "x = Ok True" "fresh_key rd zs lr r1 key" by auto
  then show ?case using Cons.IH [OF _ _ s(2)] Cons.prems(1) s(3) c by simp
qed

section \<open>Token bucket\<close>

text \<open>The bucket kept at a key: none, or its tokens and the second of its last update.\<close>

definition bucket_at :: "'r redis \<Rightarrow> 'r \<Rightarrow> string \<Rightarrow> (int \<times> int) option \<Rightarrow> bool" where
  "bucket_at rd r key b \<longleftrightarrow>
     (case b of
        None \<Rightarrow> \<forall>f. rd_hmget rd r key f = Ok None
      | Some (tokens, last_update) \<Rightarrow>
          rd_hmget rd r key ''tokens'' = Ok (Some (int_str tokens)) \<and>
          rd_hmget rd r key ''last_update'' = Ok (Some (int_str last_update)) \<and>
          (\<forall>f. \<exists>v. rd_hmget rd r key f = Ok v))"

definition bucket_ok :: "int \<Rightarrow> (int \<times> int) option \<Rightarrow> bool" where
  "bucket_ok t b \<longleftrightarrow> (case b of None \<Rightarrow> True | Some (tokens, last_update) \<Rightarrow> 0 \<le> tokens \<and> last_update \<le> t)"

text \<open>What a bucket can give at second \<open>t\<close>, in parts of a token.\<close>

definition bucket_parts :: "int \<Rightarrow> int \<Rightarrow> int \<Rightarrow> (int \<times> int) option \<Rightarrow> int" where
  "bucket_parts limit window t b =
     (case b of
        None \<Rightarrow> window * limit
      | Some (tokens, last_update) \<Rightarrow> min (window * limit) (window * tokens + (t - last_update) * limit))"

definition bucket_level :: "int \<Rightarrow> int \<Rightarrow> int \<Rightarrow> (int \<times> int) option \<Rightarrow> int" where
  "bucket_level limit window t b =
     (case b of
        None \<Rightarrow> limit
      | Some (tokens, last_update) \<Rightarrow> min limit (tokens + (t - last_update) * limit div window))"

lemma bucket_level_parts: "0 < window \<Longrightarrow> window * bucket_level limit window t b \<le> bucket_parts limit window t b"
proof -
  assume w: "0 < window"
  have "window * (x div window) \<le> x" for x
    using mult_div_mod_eq [of window x] pos_mod_sign [OF w, of x] by linarith
  then have "window * (tokens + x div window) \<le> window * tokens + x" for tokens x
    by (simp add: distrib_left)
  moreover have "window * min a c = min (window * a) (window * c)" for a c :: int
    using w by (simp add: min_mult_distrib_left)
  ultimately show ?thesis by (auto simp: bucket_level_def bucket_parts_def min.coboundedI2 split: option.split)
qed

lemma bucket_level_nonneg:
  assumes "0 < window" "0 \<le> limit" "bucket_ok t b"
  shows "0 \<le> bucket_level limit window t b"
  using assms by (auto simp: bucket_level_def bucket_ok_def pos_imp_zdiv_nonneg_iff split: option.split)

lemma token_script:
  assumes "redis_hashes_ok rd" "0 < window" "bucket_at rd r key b"
  shows "if n \<le> bucket_level limit window now b
    then \<exists>r' k. tokenBucketScript rd key limit now window n r = (r', Ok [1, k]) \<and>
      bucket_at rd r' key (Some (bucket_level limit window now b - n, now))
    else \<exists>k. tokenBucketScript rd key limit now window n r = (r, Ok [0, k])"
proof -
  let ?l = "bucket_level limit window now b"
  have all: "\<exists>v. rd_hmget rd r key f = Ok v" for f
    using assms(3) by (auto simp: bucket_at_def split: option.splits prod.splits)
  from redis_hmset [OF assms(1) all, of "[(''tokens'', int_str (?l - n)), (''last_update'', int_str now)]"] obtain r1 where
    1: "rd_hmset rd r key [(''tokens'', int_str (?l - n)), (''last_update'', int_str now)] = (r1, Ok ())"
      "\<And>f. rd_hmget rd r1 key f =
        (case map_of (rev [(''tokens'', int_str (?l - n)), (''last_update'', int_str now)]) f of
           Some v \<Rightarrow> Ok (Some v) | None \<Rightarrow> rd_hmget rd r key f)" by blast
  from redis_expire_hash [OF assms(1), of r1 key window] assms(2) obtain r2 where
    2: "rd_expire rd r1 key window = (r2, Ok ())" "\<And>f. rd_hmget rd r2 key f = rd_hmget rd r1 key f" by auto
  have "bucket_at rd r2 key (Some (?l - n, now))"
    using all by (auto simp: bucket_at_def 2(2) 1(2))
  then show ?thesis
    using assms(2,3) 1(1) 2(1)
    by (cases b) (auto simp: tokenBucketScript_def script_field_def bucket_at_def bucket_level_def)
qed

lemma token_step:
  assumes "redis_hashes_ok rd" "0 < whole_seconds (rl_window lr)" "rl_algorithm lr = ''token_bucket''" "0 \<le> rl_limit lr"
    "bucket_at rd r key b" "bucket_ok (unix now) b" "rl_AllowN rd lr l now r key n = (r', x)"
  shows "\<exists>b'. bucket_at rd r' key b' \<and> bucket_ok (unix now) b' \<and>
    whole_seconds (rl_window lr) * (if x = Ok True then n else 0) +
      bucket_parts (rl_limit lr) (whole_seconds (rl_window lr)) (unix now) b'
    \<le> bucket_parts (rl_limit lr) (whole_seconds (rl_window lr)) (unix now) b"
proof -
  let ?w = "whole_seconds (rl_window lr)"
  let ?l = "bucket_level (rl_limit lr) ?w (unix now) b"
  have k: "known_algorithm lr" using assms(3) by (simp add: known_algorithm_def)
  have sc: "rl_script rd lr now key n = tokenBucketScript rd key (rl_limit lr) (unix now) ?w n"
    using assms(3) by (simp add: rl_script_def)
  from rl_AllowN_cases [OF assms(7) k] show ?thesis
  proof
    assume "r' = r \<and> x \<noteq> Ok True"
    then show ?thesis using assms(5,6) by auto
  next
    assume h: "0 < n \<and> r' = fst (rl_script rd lr now key n r) \<and>
      (x = Ok True \<longrightarrow> (\<exists>reply. snd (rl_script rd lr now key n r) = Ok (1 # reply)))"
    show ?thesis
    proof (cases "n \<le> ?l")
      case True
      let ?b = "Some (?l - n, unix now)"
      from token_script [OF assms(1,2,5), of n "rl_limit lr" "unix now"] True h sc
      have b: "bucket_at rd r' key ?b" by auto
      have "bucket_parts (rl_limit lr) ?w (unix now) ?b \<le> ?w * ?l - ?w * n"
        by (simp add: bucket_parts_def right_diff_distrib)
      moreover have "?w * ?l \<le> bucket_parts (rl_limit lr) ?w (unix now) b"
        by (rule bucket_level_parts [OF assms(2)])
      moreover have "0 \<le> ?w * n" using assms(2) h by simp
      ultimately have "?w * (if x = Ok True then n else 0) + bucket_parts (rl_limit lr) ?w (unix now) ?b
          \<le> bucket_parts (rl_limit lr) ?w (unix now) b" by simp
      then show ?thesis using b True by (intro exI [of _ ?b]) (simp add: bucket_ok_def)
    next
      case False
      with token_script [OF assms(1,2,5), of n "rl_limit lr" "unix now"] sc
      obtain k where "rl_script rd lr now key n r = (r, Ok [0, k])" by auto
      then show ?thesis using h assms(5,6) by auto
    qed
  qed
qed

text \<open>In between the bucket stays, or it expires a window after its last update.\<close>

definition bucket_kept :: "'r redis \<Rightarrow> string \<Rightarrow> int \<Rightarrow> 'r limit_call \<Rightarrow> bool" where
  "bucket_kept rd key window c \<longleftrightarrow>
     (case c of (env, l, now, n) \<Rightarrow> \<forall>r b. bucket_at rd r key b \<longrightarrow>
        bucket_at rd (env r) key b \<or>
        bucket_at rd (env r) key None \<and> (\<forall>tokens u. b = Some (tokens, u) \<longrightarrow> u + window \<le> unix now))"

definition call_unix :: "'r limit_call \<Rightarrow> int" where
  "call_unix c = (case c of (env, l, now, n) \<Rightarrow> unix now)"

lemma bucket_parts_later:
  assumes "t \<le> t'" "0 \<le> limit"
  shows "bucket_parts limit window t' b \<le> bucket_parts limit window t b + (t' - t) * limit"
proof -
  have "limit * t \<le> limit * t'" using assms by (rule mult_left_mono)
  then show ?thesis by (cases b) (auto simp: bucket_parts_def min_def algebra_simps)
qed

lemma bucket_parts_full:
  assumes "bucket_ok t b" "0 < window" "0 \<le> limit" "\<forall>tokens u. b = Some (tokens, u) \<longrightarrow> u + window \<le> t"
  shows "bucket_parts limit window t b = window * limit"
proof (cases b)
  case (Some p)
  obtain tokens u where p: "p = (tokens, u)" by (cases p)
  have "window * limit \<le> (t - u) * limit" using assms(3,4) Some p by (intro mult_right_mono) auto
  moreover have "0 \<le> window * tokens" using assms(1,2) Some p by (simp add: bucket_ok_def)
  ultimately show ?thesis using Some p by (simp add: bucket_parts_def)
qed (simp add: bucket_parts_def)

lemma bucket_parts_nonneg: "0 < window \<Longrightarrow> 0 \<le> limit \<Longrightarrow> bucket_ok t b \<Longrightarrow> 0 \<le> bucket_parts limit window t b"
  by (rule order_trans [OF mult_nonneg_nonneg bucket_level_parts [of window limit t b]])
    (simp_all add: bucket_level_nonneg)

lemma token_env:
  assumes "bucket_kept rd key window (env, l, now, n)" "bucket_at rd r key b" "bucket_ok t b" "t \<le> unix now"
    "0 < window" "0 \<le> limit"
  shows "\<exists>b'. bucket_at rd (env r) key b' \<and> bucket_ok (unix now) b' \<and>
    bucket_parts limit window (unix now) b' \<le> bucket_parts limit window t b + (unix now - t) * limit"
proof -
  let ?t = "unix now"
  have ok: "bucket_ok ?t b" using assms(3,4) by (auto simp: bucket_ok_def split: option.splits)
  note later = bucket_parts_later [OF assms(4,6), of window b]
  have "bucket_at rd (env r) key b \<or>
      bucket_at rd (env r) key None \<and> (\<forall>tokens u. b = Some (tokens, u) \<longrightarrow> u + window \<le> ?t)"
    by (rule assms(1) [unfolded bucket_kept_def split_conv, rule_format, OF assms(2)])
  then show ?thesis
  proof
    assume "bucket_at rd (env r) key b"
    then show ?thesis using ok later by blast
  next
    assume e: "bucket_at rd (env r) key None \<and> (\<forall>tokens u. b = Some (tokens, u) \<longrightarrow> u + window \<le> ?t)"
    have "bucket_parts limit window ?t None = bucket_parts limit window ?t b"
      using bucket_parts_full [OF ok assms(5,6)] e by (simp add: bucket_parts_def)
    then show ?thesis using e later by (intro exI [of _ None]) (simp add: bucket_ok_def)
  qed
qed

lemma token_run:
  assumes "redis_hashes_ok rd" "0 < whole_seconds (rl_window lr)" "rl_algorithm lr = ''token_bucket''" "0 \<le> rl_limit lr"
    "\<forall>c \<in> set cs. bucket_kept rd key (whole_seconds (rl_window lr)) c" "sorted_wrt (\<le>) (t # map call_unix cs @ [T])"
    "bucket_at rd r key b" "bucket_ok t b" "rl_run rd lr key r cs = (r', xs)"
  shows "whole_seconds (rl_window lr) * rl_granted cs xs
    \<le> bucket_parts (rl_limit lr) (whole_seconds (rl_window lr)) t b + (T - t) * rl_limit lr"
  using assms(5-9)
proof (induction cs arbitrary: t r b xs)
  case Nil
  have "0 \<le> bucket_parts (rl_limit lr) (whole_seconds (rl_window lr)) t b"
    by (rule bucket_parts_nonneg [OF assms(2,4) Nil.prems(4)])
  moreover have "0 \<le> (T - t) * rl_limit lr" using Nil.prems(2) assms(4) by simp
  ultimately show ?case by simp
next
  case (Cons c cs)
  let ?w = "whole_seconds (rl_window lr)" and ?L = "rl_limit lr"
  obtain env l now n where c: "c = (env, l, now, n)" by (cases c)
  let ?t = "unix now"
  from rl_run_Cons [OF Cons.prems(5) [unfolded c]] obtain r1 x ys where
    s: "rl_AllowN rd lr l now (env r) key n = (r1, x)" "rl_run rd lr key r1 cs = (r', ys)" "xs = x # ys" by blast
  have ct: "call_unix c = ?t" by (simp add: c call_unix_def)
  then have later: "t \<le> ?t" and rest: "sorted_wrt (\<le>) (?t # map call_unix cs @ [T])" using Cons.prems(2) by simp_all
  have "bucket_kept rd key ?w (env, l, now, n)" using Cons.prems(1) c by simp
  from token_env [OF this Cons.prems(3,4) later assms(2,4)] obtain b1 where b1: "bucket_at rd (env r) key b1"
    "bucket_ok ?t b1" "bucket_parts ?L ?w ?t b1 \<le> bucket_parts ?L ?w t b + (?t - t) * ?L" by blast
  from token_step [OF assms(1-4) b1(1,2) s(1)] obtain b2 where
    b2: "bucket_at rd r1 key b2" "bucket_ok ?t b2"
      "?w * (if x = Ok True then n else 0) + bucket_parts ?L ?w ?t b2 \<le> bucket_parts ?L ?w ?t b1" by blast
  have "?w * rl_granted cs ys \<le> bucket_parts ?L ?w ?t b2 + (T - ?t) * ?L"
    using Cons.IH [OF _ rest b2(1,2) s(2)] Cons.prems(1) by simp
  then show ?case
    using b2(3) b1(3) s(3) c by (simp add: algebra_simps split: if_splits)
qed

text \<open>
  C18. The token bucket on the Redis server bounds the rate: with clocks that do not run backwards
  across the clients, and a window that counts in whole seconds and has at least one, whatever is
  granted from second \<open>t\<close> to second \<open>T\<close> is at most the limit, plus the limit for each window that
  passes, whichever answers are lost and whenever the key expires, which it may do a window after its
  last update.
\<close>

theorem redis_token_bucket_bound:
  assumes "redis_hashes_ok rd" "0 < whole_seconds (rl_window lr)" "rl_algorithm lr = ''token_bucket''" "0 \<le> rl_limit lr"
    "\<forall>c \<in> set cs. bucket_kept rd key (whole_seconds (rl_window lr)) c" "sorted_wrt (\<le>) (t # map call_unix cs @ [T])"
    "bucket_at rd r key b" "bucket_ok t b" "rl_run rd lr key r cs = (r', xs)"
  shows "whole_seconds (rl_window lr) * rl_granted cs xs
    \<le> whole_seconds (rl_window lr) * rl_limit lr + (T - t) * rl_limit lr"
proof -
  have "bucket_parts (rl_limit lr) w t b \<le> w * rl_limit lr" for w
    by (simp add: bucket_parts_def split: option.split)
  then show ?thesis using token_run [OF assms] by (meson add_right_mono order_trans)
qed

section \<open>Examples\<close>

definition limiter_on :: "string \<Rightarrow> int \<Rightarrow> int \<Rightarrow> unit redis_limiter" where
  "limiter_on algorithm limit window =
     \<lparr>rl_client = (), rl_ownsConn = False, rl_algorithm = algorithm, rl_limit = limit, rl_window = window\<rparr>"

definition call_at :: "int \<Rightarrow> int \<Rightarrow> (string \<rightharpoonup> rvalue) limit_call" where
  "call_at now n = (id, Served, now, n)"

lemmas limiter_on_simps =
  limiter_on_def call_at_def plain_redis_strings plain_redis_hashes plain_redis_zsets whole_seconds_def go_time

lemma plain_fresh: "plain_zs Map.empty k = Some Map.empty" "bucket_at plain_redis Map.empty k None"
  "get_number plain_redis Map.empty k = Ok 0"
  by (simp_all add: plain_zs_def plain_zset_def bucket_at_def plain_redis_def plain_hash_def get_number_def
      plain_get_def script_number_def)

theorem redis_fixed_window_bound_witness:
  "\<exists>r' xs. rl_run plain_redis (limiter_on ''fixed_window'' 3 minute) ''k'' Map.empty [call_at 0 2, call_at 1 2] = (r', xs) \<and>
     rl_granted [call_at 0 2, call_at 1 2] xs \<le> max 0 (3 - 0)"
proof -
  obtain r' xs where run:
    "rl_run plain_redis (limiter_on ''fixed_window'' 3 minute) ''k'' Map.empty [call_at 0 2, call_at 1 2] = (r', xs)"
    by (cases "rl_run plain_redis (limiter_on ''fixed_window'' 3 minute) ''k'' Map.empty [call_at 0 2, call_at 1 2]")
  from redis_fixed_window_bound [OF plain_redis_strings _ _ _ _ plain_fresh(3) _ run] run
  show ?thesis by (simp add: limiter_on_simps i64_defs del: rl_run.simps)
qed

theorem redis_sliding_window_bound_witness:
  "\<exists>r' xs. rl_run plain_redis (limiter_on ''sliding_window'' 2 second) ''k'' Map.empty
       [call_at 0 2, call_at 1000000 1] = (r', xs) \<and>
     granted_in (1 - 1000) 1 (rl_grants [call_at 0 2, call_at 1000000 1] xs) \<le> 2"
proof -
  obtain r' xs where run:
    "rl_run plain_redis (limiter_on ''sliding_window'' 2 second) ''k'' Map.empty [call_at 0 2, call_at 1000000 1] = (r', xs)"
    by (cases "rl_run plain_redis (limiter_on ''sliding_window'' 2 second) ''k'' Map.empty [call_at 0 2, call_at 1000000 1]")
  from redis_sliding_window_bound [OF plain_redis_zsets _ _ _ _ _ plain_fresh(1) run, of 1] run
  show ?thesis by (simp add: limiter_on_simps log_kept_def call_ms_def unix_milli_def del: rl_run.simps)
qed

theorem redis_sliding_collides_witness:
  "rl_granted (replicate 50 (call_at 7 1))
     (snd (rl_run plain_redis (limiter_on ''sliding_window'' 2 second) ''k'' Map.empty (replicate 50 (call_at 7 1)))) = 50"
proof -
  let ?cs = "replicate 50 (call_at 7 1)"
  obtain r' xs where run: "rl_run plain_redis (limiter_on ''sliding_window'' 2 second) ''k'' Map.empty ?cs = (r', xs)"
    by (cases "rl_run plain_redis (limiter_on ''sliding_window'' 2 second) ''k'' Map.empty ?cs")
  have "rl_granted ?cs xs = int (length ?cs)"
    by (rule redis_sliding_collides [OF plain_redis_zsets _ _ _ _ plain_fresh(1) run, of 0])
      (auto simp: limiter_on_simps unix_milli_def)
  then show ?thesis using run by simp
qed

theorem redis_subsecond_never_limits_witness:
  "rl_granted (replicate 9 (call_at 7 2))
     (snd (rl_run plain_redis (limiter_on ''token_bucket'' 2 1000) ''k'' Map.empty (replicate 9 (call_at 7 2)))) = 18"
proof -
  let ?cs = "replicate 9 (call_at 7 2)"
  obtain r' xs where run: "rl_run plain_redis (limiter_on ''token_bucket'' 2 1000) ''k'' Map.empty ?cs = (r', xs)"
    by (cases "rl_run plain_redis (limiter_on ''token_bucket'' 2 1000) ''k'' Map.empty ?cs")
  have "rl_granted ?cs xs = sum_list (map (\<lambda>(env, l, now, n). n) ?cs)"
    by (rule redis_subsecond_never_limits [OF plain_redis_strings plain_redis_hashes plain_redis_zsets _ _ _ _ _ _ run])
      (auto simp: limiter_on_simps known_algorithm_def i64_defs fresh_key_def plain_redis_def plain_hash_def)
  then show ?thesis using run by (simp add: call_at_def sum_list_replicate)
qed

theorem redis_token_bucket_bound_witness:
  "\<exists>r' xs. rl_run plain_redis (limiter_on ''token_bucket'' 3 minute) ''k'' Map.empty
       [call_at 0 2, call_at (5 * second) 1] = (r', xs) \<and>
     60 * rl_granted [call_at 0 2, call_at (5 * second) 1] xs \<le> 60 * 3 + (5 - 0) * 3"
proof -
  let ?cs = "[call_at 0 2, call_at (5 * second) 1]"
  obtain r' xs where run: "rl_run plain_redis (limiter_on ''token_bucket'' 3 minute) ''k'' Map.empty ?cs = (r', xs)"
    by (cases "rl_run plain_redis (limiter_on ''token_bucket'' 3 minute) ''k'' Map.empty ?cs")
  from redis_token_bucket_bound [OF plain_redis_hashes _ _ _ _ _ plain_fresh(2) _ run, of 0 5] run
  show ?thesis by (simp add: limiter_on_simps bucket_kept_def bucket_ok_def call_unix_def unix_def del: rl_run.simps)
qed

end
