(* ===== verification/Web_Adapters.thy ===== *)
theory Web_Adapters
  imports Http_Middleware
begin

text \<open>
  adapters/http-chi, http-gin, http-echo and http-fiber: the tenant middleware for four web
  frameworks. The context a framework hands to a middleware is a record of what the code reads of it
  and of what it writes to it; the frameworks themselves, which run the chain of handlers, are the
  parameter \<open>next_handler\<close>. What the four share, the resolution of the tenant and the laws of
  their contexts, is stated once.
\<close>

section \<open>Reading a tenant identifier\<close>

definition ErrTenantNotFound :: go_error where
  "ErrTenantNotFound = NewErr ''tenant ID not found''"

definition not_found :: "string \<Rightarrow> 'a res" where
  "not_found msg = Err (WrapErr [] ErrTenantNotFound ('': '' @ msg))"

definition host_only :: "string \<Rightarrow> string" where
  "host_only host = takeWhile (\<lambda>c. c \<noteq> CHR '':'') host"

definition path_segments :: "string \<Rightarrow> string list" where
  "path_segments path = split_char (trim_chars path ''/'') CHR ''/''"

text \<open>The bodies of the \<^verbatim>\<open>Resolve\<close> methods that gin, echo and fiber share, on what they read.\<close>

definition web_value :: "string \<Rightarrow> string \<Rightarrow> string \<Rightarrow> string res" where
  "web_value what name v = (if v = [] then not_found (what @ name @ '' is empty'') else Ok v)"

definition web_subdomain :: "string \<Rightarrow> string \<Rightarrow> string res" where
  "web_subdomain baseDomain host =
     (let host = host_only host
      in if baseDomain \<noteq> []
         then let suffix = ''.'' @ baseDomain
           in if \<not> has_suffix host suffix
              then not_found (''host '' @ host @ '' does not end with base domain '' @ baseDomain)
              else let subdomain = trim_suffix host suffix
                in if subdomain = [] then not_found (''no subdomain found in host '' @ host) else Ok subdomain
         else let parts = split_char host CHR ''.''
           in if parts = [] \<or> hd parts = [] then not_found (''cannot extract subdomain from host '' @ host)
              else Ok (hd parts))"

definition web_path :: "int \<Rightarrow> string \<Rightarrow> string res" where
  "web_path pathIndex path =
     (let parts = path_segments path
      in if pathIndex < 0 \<or> int (length parts) \<le> pathIndex
         then not_found (''path index '' @ int_str pathIndex @ '' out of range for path '' @ path)
         else let tenantID = parts ! nat pathIndex
           in if tenantID = [] then not_found (''path segment at index '' @ int_str pathIndex @ '' is empty'')
              else Ok tenantID)"

definition web_static :: "string \<Rightarrow> string res" where
  "web_static tenantID = (if tenantID = [] then not_found ''static tenant ID is empty'' else Ok tenantID)"

definition or_name :: "string \<Rightarrow> string \<Rightarrow> string" where
  "or_name name d = (if name = [] then d else name)"

text \<open>The end of a chain: nothing configured, or the last error.\<close>

definition web_chain_end :: "go_error option \<Rightarrow> 'a res" where
  "web_chain_end lastErr =
     (case lastErr of
        None \<Rightarrow> not_found ''no resolvers configured''
      | Some e \<Rightarrow> not_found (''all resolvers failed, last error: '' @ error_string e))"

section \<open>What the four middlewares share\<close>

text \<open>
  Resolving the tenant and building its context; an error goes to the error handler.
\<close>

definition tenant_of ::
  "('c \<Rightarrow> string res) \<Rightarrow> (string \<Rightarrow> string) \<Rightarrow> int \<Rightarrow> 'c \<Rightarrow> dcontext res" where
  "tenant_of resolve requestID now c =
     (case resolve c of
        Err e \<Rightarrow> Err e
      | Panic \<Rightarrow> Panic
      | Ok tenantID \<Rightarrow>
          if tenantID = [] then Err (NewErr ''tenant ID not found'')
          else (case NewContext tenantID ''http-request'' (requestID tenantID) now of
                  Err e \<Rightarrow> Err (WrapErr ''failed to create tenant context: '' e [])
                | Panic \<Rightarrow> Panic
                | Ok tc \<Rightarrow> Ok tc))"

definition web_requestID :: "string \<Rightarrow> string" where
  "web_requestID tenantID = tenantID @ ''-req''"

text \<open>
  A framework's context: a middleware puts the tenant into it, and the handlers behind read it.
\<close>

locale web_context =
  fixes inject :: "dcontext \<Rightarrow> 'c \<Rightarrow> 'c"
    and tenant_id :: "'c \<Rightarrow> string res"
  assumes reads: "tid_value (dc_tenantID tc) \<noteq> [] \<Longrightarrow> tenant_id (inject tc c) = Ok (tid_value (dc_tenantID tc))"
begin

lemma reads_resolved:
  assumes "tenant_of resolve requestID now c = Ok tc"
  shows "\<exists>t. resolve c = Ok t \<and> t \<noteq> [] \<and> tenant_id (inject tc c) = Ok (to_lower t) \<and> valid_id (to_lower t)"
proof -
  obtain t where t: "resolve c = Ok t" "t \<noteq> []" "NewContext t ''http-request'' (requestID t) now = Ok tc"
    using assms by (auto simp: tenant_of_def split: res.splits if_splits)
  then have tid: "NewTenantID t = Ok (dc_tenantID tc)" by (auto simp: NewContext_Ok_iff)
  then have v: "tid_value (dc_tenantID tc) = to_lower t" by (auto simp: NewTenantID_Ok_iff)
  have "valid_id (to_lower t)" using NewTenantID_valid [OF tid] v by simp
  moreover have "tid_value (dc_tenantID tc) \<noteq> []" by (rule NewContext_tenant_nonempty [OF t(3)])
  ultimately show ?thesis using t(1,2) v reads by auto
qed

end

lemma tenant_of_safe: "resolve c \<noteq> Panic \<Longrightarrow> tenant_of resolve requestID now c \<noteq> Panic"
  using NewContext_no_panic by (auto simp: tenant_of_def split: res.splits)

section \<open>Gin\<close>

text \<open>Of \<^verbatim>\<open>gin.Context\<close>: the request, the parameters, the keys, and what aborting sets.\<close>

record gin =
  gn_Request :: request
  gn_Param :: "string \<Rightarrow> string"
  gn_Query :: "string \<Rightarrow> string"
  gn_Keys :: "string \<rightharpoonup> ctx_val"
  gn_aborted :: bool
  gn_status :: int
  gn_error :: string

datatype web_resolver =
    WebHeader string
  | WebSubdomain string
  | WebPath int
  | WebParam string
  | WebQuery string
  | WebChain "web_resolver list"
  | WebStatic string

fun gin_Resolve :: "web_resolver \<Rightarrow> gin \<Rightarrow> string res"
  and gin_chain :: "web_resolver list \<Rightarrow> go_error option \<Rightarrow> gin \<Rightarrow> string res" where
  "gin_Resolve (WebHeader headerName) c =
     (let headerName = or_name headerName ''X-Tenant-ID''
      in web_value ''header '' headerName (Header_Get (gn_Request c) headerName))"
| "gin_Resolve (WebSubdomain baseDomain) c = web_subdomain baseDomain (rq_Host (gn_Request c))"
| "gin_Resolve (WebPath pathIndex) c = web_path pathIndex (rq_Path (gn_Request c))"
| "gin_Resolve (WebParam paramName) c =
     (let paramName = or_name paramName ''tenantID'' in web_value ''parameter '' paramName (gn_Param c paramName))"
| "gin_Resolve (WebQuery paramName) c =
     (let paramName = or_name paramName ''tenant'' in web_value ''query parameter '' paramName (gn_Query c paramName))"
| "gin_Resolve (WebChain resolvers) c = gin_chain resolvers None c"
| "gin_Resolve (WebStatic tenantID) c = web_static tenantID"
| "gin_chain [] lastErr c = web_chain_end lastErr"
| "gin_chain (r # rs) lastErr c =
     (case gin_Resolve r c of Ok tenantID \<Rightarrow> Ok tenantID | Err e \<Rightarrow> gin_chain rs (Some e) c | Panic \<Rightarrow> Panic)"

record gin_config =
  gc_Resolver :: "(gin \<Rightarrow> string res) option"
  gc_ErrorHandler :: "(gin \<Rightarrow> go_error \<Rightarrow> gin res) option"
  gc_SkipPaths :: "string list"
  gc_ContextKey :: string

definition gin_onError :: "gin \<Rightarrow> go_error \<Rightarrow> gin res" where
  "gin_onError c e = Ok (c\<lparr>gn_aborted := True, gn_status := 400, gn_error := ''tenant resolution failed: '' @ error_string e\<rparr>)"

definition gin_inject :: "string \<Rightarrow> dcontext \<Rightarrow> gin \<Rightarrow> gin" where
  "gin_inject contextKey tc c =
     (let c = c\<lparr>gn_Keys := (gn_Keys c)(contextKey \<mapsto> CtxTenant tc)\<rparr>
      in c\<lparr>gn_Request := (gn_Request c)\<lparr>rq_ctx := ToGoContext tc (rq_ctx (gn_Request c))\<rparr>\<rparr>)"

definition gin_Middleware :: "gin_config option \<Rightarrow> int \<Rightarrow> (gin \<Rightarrow> gin res) \<Rightarrow> gin \<Rightarrow> gin res" where
  "gin_Middleware cfg now next_handler c =
     (let cfg = (case cfg of None \<Rightarrow> \<lparr>gc_Resolver = None, gc_ErrorHandler = None, gc_SkipPaths = [], gc_ContextKey = []\<rparr>
                 | Some cfg \<Rightarrow> cfg);
          resolve = (case gc_Resolver cfg of None \<Rightarrow> gin_Resolve (WebHeader ''X-Tenant-ID'') | Some f \<Rightarrow> f);
          onError = (case gc_ErrorHandler cfg of None \<Rightarrow> gin_onError | Some f \<Rightarrow> f);
          contextKey = or_name (gc_ContextKey cfg) ''tenant_context''
      in if rq_Path (gn_Request c) \<in> set (gc_SkipPaths cfg) then next_handler c
         else (case tenant_of resolve web_requestID now c of
                 Err e \<Rightarrow> onError c e
               | Panic \<Rightarrow> Panic
               | Ok tc \<Rightarrow> next_handler (gin_inject contextKey tc c)))"

text \<open>The keys are read before the context of the request.\<close>

definition gin_GetTenantContext :: "gin \<Rightarrow> dcontext res" where
  "gin_GetTenantContext c =
     (case gn_Keys c ''tenant_context'' of
        Some (CtxTenant tc) \<Rightarrow> Ok tc
      | _ \<Rightarrow> FromGoContext (Some (rq_ctx (gn_Request c))))"

definition gin_GetTenantID :: "gin \<Rightarrow> string res" where
  "gin_GetTenantID c = res_bind (gin_GetTenantContext c) (\<lambda>tc. Ok (tid_value (dc_tenantID tc)))"

definition gin_MustGetTenantID :: "gin \<Rightarrow> string res" where
  "gin_MustGetTenantID c = (case gin_GetTenantID c of Ok t \<Rightarrow> Ok t | _ \<Rightarrow> Panic)"

definition gin_WithTenantID :: "gin \<Rightarrow> string \<Rightarrow> int \<Rightarrow> gin res" where
  "gin_WithTenantID c tenantID now =
     (case NewContext tenantID ''http-request'' (tenantID @ ''-test-req'') now of
        Ok tc \<Rightarrow> Ok (gin_inject ''tenant_context'' tc c) | _ \<Rightarrow> Panic)"

section \<open>Echo\<close>

text \<open>\<^verbatim>\<open>echo.Context\<close>; \<open>ec_Path\<close> is the pattern of the route, which \<^verbatim>\<open>c.Path()\<close> returns.\<close>

record echo =
  ec_Request :: request
  ec_Path :: string
  ec_Param :: "string \<Rightarrow> string"
  ec_QueryParam :: "string \<Rightarrow> string"
  ec_store :: "string \<rightharpoonup> ctx_val"

type_synonym 'c web_result = "('c \<times> go_error option) res"

fun echo_Resolve :: "web_resolver \<Rightarrow> echo \<Rightarrow> string res"
  and echo_chain :: "web_resolver list \<Rightarrow> go_error option \<Rightarrow> echo \<Rightarrow> string res" where
  "echo_Resolve (WebHeader headerName) c =
     (let headerName = or_name headerName ''X-Tenant-ID''
      in web_value ''header '' headerName (Header_Get (ec_Request c) headerName))"
| "echo_Resolve (WebSubdomain baseDomain) c = web_subdomain baseDomain (rq_Host (ec_Request c))"
| "echo_Resolve (WebPath pathIndex) c = web_path pathIndex (rq_Path (ec_Request c))"
| "echo_Resolve (WebParam paramName) c =
     (let paramName = or_name paramName ''tenantID'' in web_value ''parameter '' paramName (ec_Param c paramName))"
| "echo_Resolve (WebQuery paramName) c =
     (let paramName = or_name paramName ''tenant'' in web_value ''query parameter '' paramName (ec_QueryParam c paramName))"
| "echo_Resolve (WebChain resolvers) c = echo_chain resolvers None c"
| "echo_Resolve (WebStatic tenantID) c = web_static tenantID"
| "echo_chain [] lastErr c = web_chain_end lastErr"
| "echo_chain (r # rs) lastErr c =
     (case echo_Resolve r c of Ok tenantID \<Rightarrow> Ok tenantID | Err e \<Rightarrow> echo_chain rs (Some e) c | Panic \<Rightarrow> Panic)"

record echo_config =
  ecc_Resolver :: "(echo \<Rightarrow> string res) option"
  ecc_ErrorHandler :: "(echo \<Rightarrow> go_error \<Rightarrow> echo web_result) option"
  ecc_SkipPaths :: "string list"
  ecc_ContextKey :: string

definition echo_onError :: "echo \<Rightarrow> go_error \<Rightarrow> echo web_result" where
  "echo_onError c e = Ok (c, Some (NewErr (''code=400, message=tenant resolution failed: '' @ error_string e)))"

definition echo_inject :: "string \<Rightarrow> dcontext \<Rightarrow> echo \<Rightarrow> echo" where
  "echo_inject contextKey tc c =
     (let c = c\<lparr>ec_store := (ec_store c)(contextKey \<mapsto> CtxTenant tc)\<rparr>
      in c\<lparr>ec_Request := (ec_Request c)\<lparr>rq_ctx := ToGoContext tc (rq_ctx (ec_Request c))\<rparr>\<rparr>)"

definition echo_Middleware ::
  "echo_config option \<Rightarrow> int \<Rightarrow> (echo \<Rightarrow> echo web_result) \<Rightarrow> echo \<Rightarrow> echo web_result" where
  "echo_Middleware cfg now next_handler c =
     (let cfg = (case cfg of None \<Rightarrow> \<lparr>ecc_Resolver = None, ecc_ErrorHandler = None, ecc_SkipPaths = [], ecc_ContextKey = []\<rparr>
                 | Some cfg \<Rightarrow> cfg);
          resolve = (case ecc_Resolver cfg of None \<Rightarrow> echo_Resolve (WebHeader ''X-Tenant-ID'') | Some f \<Rightarrow> f);
          onError = (case ecc_ErrorHandler cfg of None \<Rightarrow> echo_onError | Some f \<Rightarrow> f);
          contextKey = or_name (ecc_ContextKey cfg) ''tenant_context''
      in if ec_Path c \<in> set (ecc_SkipPaths cfg) then next_handler c
         else (case tenant_of resolve web_requestID now c of
                 Err e \<Rightarrow> onError c e
               | Panic \<Rightarrow> Panic
               | Ok tc \<Rightarrow> next_handler (echo_inject contextKey tc c)))"

definition echo_GetTenantContext :: "echo \<Rightarrow> dcontext res" where
  "echo_GetTenantContext c =
     (case ec_store c ''tenant_context'' of
        Some (CtxTenant tc) \<Rightarrow> Ok tc
      | _ \<Rightarrow> FromGoContext (Some (rq_ctx (ec_Request c))))"

definition echo_GetTenantID :: "echo \<Rightarrow> string res" where
  "echo_GetTenantID c = res_bind (echo_GetTenantContext c) (\<lambda>tc. Ok (tid_value (dc_tenantID tc)))"

definition echo_MustGetTenantID :: "echo \<Rightarrow> string res" where
  "echo_MustGetTenantID c = (case echo_GetTenantID c of Ok t \<Rightarrow> Ok t | _ \<Rightarrow> Panic)"

definition echo_WithTenantID :: "echo \<Rightarrow> string \<Rightarrow> int \<Rightarrow> echo res" where
  "echo_WithTenantID c tenantID now =
     (case NewContext tenantID ''http-request'' (tenantID @ ''-test-req'') now of
        Ok tc \<Rightarrow> Ok (echo_inject ''tenant_context'' tc c) | _ \<Rightarrow> Panic)"

section \<open>Fiber\<close>

text \<open>
  \<^verbatim>\<open>fiber.Ctx\<close> with what its accessors answer. It has two Go contexts: the one of the request,
  \<^verbatim>\<open>c.Context()\<close>, and the one handlers exchange, \<^verbatim>\<open>c.UserContext()\<close>.
\<close>

record fiber =
  fb_Get :: "string \<Rightarrow> string"
  fb_Hostname :: string
  fb_Path :: string
  fb_Params :: "string \<Rightarrow> string"
  fb_Query :: "string \<Rightarrow> string"
  fb_Locals :: "string \<rightharpoonup> ctx_val"
  fb_Context :: go_ctx
  fb_UserContext :: go_ctx
  fb_status :: int
  fb_error :: string

fun fiber_Resolve :: "web_resolver \<Rightarrow> fiber \<Rightarrow> string res"
  and fiber_chain :: "web_resolver list \<Rightarrow> go_error option \<Rightarrow> fiber \<Rightarrow> string res" where
  "fiber_Resolve (WebHeader headerName) c =
     (let headerName = or_name headerName ''X-Tenant-ID'' in web_value ''header '' headerName (fb_Get c headerName))"
| "fiber_Resolve (WebSubdomain baseDomain) c = web_subdomain baseDomain (fb_Hostname c)"
| "fiber_Resolve (WebPath pathIndex) c = web_path pathIndex (fb_Path c)"
| "fiber_Resolve (WebParam paramName) c =
     (let paramName = or_name paramName ''tenantID'' in web_value ''parameter '' paramName (fb_Params c paramName))"
| "fiber_Resolve (WebQuery paramName) c =
     (let paramName = or_name paramName ''tenant'' in web_value ''query parameter '' paramName (fb_Query c paramName))"
| "fiber_Resolve (WebChain resolvers) c = fiber_chain resolvers None c"
| "fiber_Resolve (WebStatic tenantID) c = web_static tenantID"
| "fiber_chain [] lastErr c = web_chain_end lastErr"
| "fiber_chain (r # rs) lastErr c =
     (case fiber_Resolve r c of Ok tenantID \<Rightarrow> Ok tenantID | Err e \<Rightarrow> fiber_chain rs (Some e) c | Panic \<Rightarrow> Panic)"

record fiber_config =
  fc_Resolver :: "(fiber \<Rightarrow> string res) option"
  fc_ErrorHandler :: "(fiber \<Rightarrow> go_error \<Rightarrow> fiber web_result) option"
  fc_SkipPaths :: "string list"
  fc_ContextKey :: string

definition fiber_onError :: "fiber \<Rightarrow> go_error \<Rightarrow> fiber web_result" where
  "fiber_onError c e =
     Ok (c\<lparr>fb_status := 400, fb_error := ''tenant resolution failed: '' @ error_string e\<rparr>, None)"

text \<open>The middleware builds the user context on the context of the request, \<open>WithTenantID\<close> on the user context.\<close>

definition fiber_inject :: "string \<Rightarrow> dcontext \<Rightarrow> fiber \<Rightarrow> fiber" where
  "fiber_inject contextKey tc c =
     c\<lparr>fb_Locals := (fb_Locals c)(contextKey \<mapsto> CtxTenant tc), fb_UserContext := ToGoContext tc (fb_Context c)\<rparr>"

definition fiber_Middleware ::
  "fiber_config option \<Rightarrow> int \<Rightarrow> (fiber \<Rightarrow> fiber web_result) \<Rightarrow> fiber \<Rightarrow> fiber web_result" where
  "fiber_Middleware cfg now next_handler c =
     (let cfg = (case cfg of None \<Rightarrow> \<lparr>fc_Resolver = None, fc_ErrorHandler = None, fc_SkipPaths = [], fc_ContextKey = []\<rparr>
                 | Some cfg \<Rightarrow> cfg);
          resolve = (case fc_Resolver cfg of None \<Rightarrow> fiber_Resolve (WebHeader ''X-Tenant-ID'') | Some f \<Rightarrow> f);
          onError = (case fc_ErrorHandler cfg of None \<Rightarrow> fiber_onError | Some f \<Rightarrow> f);
          contextKey = or_name (fc_ContextKey cfg) ''tenant_context''
      in if fb_Path c \<in> set (fc_SkipPaths cfg) then next_handler c
         else (case tenant_of resolve web_requestID now c of
                 Err e \<Rightarrow> onError c e
               | Panic \<Rightarrow> Panic
               | Ok tc \<Rightarrow> next_handler (fiber_inject contextKey tc c)))"

definition fiber_GetTenantContext :: "fiber \<Rightarrow> dcontext res" where
  "fiber_GetTenantContext c =
     (case fb_Locals c ''tenant_context'' of
        Some (CtxTenant tc) \<Rightarrow> Ok tc
      | _ \<Rightarrow> FromGoContext (Some (fb_UserContext c)))"

definition fiber_GetTenantID :: "fiber \<Rightarrow> string res" where
  "fiber_GetTenantID c = res_bind (fiber_GetTenantContext c) (\<lambda>tc. Ok (tid_value (dc_tenantID tc)))"

definition fiber_MustGetTenantID :: "fiber \<Rightarrow> string res" where
  "fiber_MustGetTenantID c = (case fiber_GetTenantID c of Ok t \<Rightarrow> Ok t | _ \<Rightarrow> Panic)"

definition fiber_WithTenantID :: "fiber \<Rightarrow> string \<Rightarrow> int \<Rightarrow> fiber res" where
  "fiber_WithTenantID c tenantID now =
     (case NewContext tenantID ''http-request'' (tenantID @ ''-test-req'') now of
        Ok tc \<Rightarrow> Ok (c\<lparr>fb_Locals := (fb_Locals c)(''tenant_context'' \<mapsto> CtxTenant tc),
                       fb_UserContext := ToGoContext tc (fb_UserContext c)\<rparr>)
      | _ \<Rightarrow> Panic)"

section \<open>Chi\<close>

text \<open>The request with what the router and the query parser answer for it.\<close>

record chi =
  ch_Request :: request
  ch_URLParam :: "string \<Rightarrow> string"
  ch_Query :: "string \<Rightarrow> string"

datatype chi_resolver =
    ChiHeader string
  | ChiSubdomain string
  | ChiPath string int
  | ChiURLParam string
  | ChiQueryParam string
  | ChiChain "chi_resolver list"
  | ChiStatic string

definition chi_value :: "string \<Rightarrow> string \<Rightarrow> string \<Rightarrow> string res" where
  "chi_value what name v = (if v = [] then Err (NewErr (what @ name @ '' not found'')) else Ok v)"

definition chi_subdomain :: "string \<Rightarrow> request \<Rightarrow> string res" where
  "chi_subdomain baseDomain r =
     (let host = host_only (rq_Host r);
          parts = split_char host CHR ''.''
      in if baseDomain \<noteq> []
         then let baseParts = split_char baseDomain CHR ''.'';
                  expectedSuffix = ''.'' @ baseDomain
           in if length parts \<le> length baseParts
              then Err (NewErr (''no subdomain found in host: '' @ rq_Host r))
              else if \<not> has_suffix host expectedSuffix
              then Err (NewErr (''host '' @ host @ '' does not end with base domain '' @ baseDomain))
              else let subdomain = trim_suffix host expectedSuffix
                in if subdomain = [] then Err (NewErr (''empty subdomain in host: '' @ rq_Host r))
                   else Ok subdomain
         else if parts = [] \<or> hd parts = [] then Err (NewErr (''no subdomain found in host: '' @ rq_Host r))
         else Ok (hd parts))"

text \<open>A negative segment indexes out of range.\<close>

definition chi_path :: "string \<Rightarrow> int \<Rightarrow> request \<Rightarrow> string res" where
  "chi_path pathPrefix pathSegment r =
     (let path = rq_Path r
      in if pathPrefix \<noteq> [] \<and> \<not> has_prefix path pathPrefix
         then Err (NewErr (''path does not start with '' @ pathPrefix))
         else let path = (if pathPrefix \<noteq> [] then trim_prefix path pathPrefix else path);
                  segments = path_segments path
           in if int (length segments) \<le> pathSegment
              then Err (NewErr (''path segment '' @ int_str pathSegment @ '' not found in '' @ rq_Path r))
              else if pathSegment < 0 then Panic
              else let tenantID = segments ! nat pathSegment
                in if tenantID = []
                   then Err (NewErr (''empty tenant ID in path segment '' @ int_str pathSegment))
                   else Ok tenantID)"

definition chi_chain_end :: "string list \<Rightarrow> 'a res" where
  "chi_chain_end errors =
     (if errors \<noteq> [] then Err (NewErr (''all resolvers failed: '' @ str_join errors ''; ''))
      else Err (NewErr ''no resolver found tenant ID''))"

text \<open>A chain counts its members and collects their errors; one that finds an empty identifier is passed over.\<close>

fun chi_Resolve :: "chi_resolver \<Rightarrow> chi \<Rightarrow> string res"
  and chi_chain :: "nat \<Rightarrow> chi_resolver list \<Rightarrow> string list \<Rightarrow> chi \<Rightarrow> string res" where
  "chi_Resolve (ChiHeader headerName) c = chi_value ''header '' headerName (Header_Get (ch_Request c) headerName)"
| "chi_Resolve (ChiSubdomain baseDomain) c = chi_subdomain baseDomain (ch_Request c)"
| "chi_Resolve (ChiPath pathPrefix pathSegment) c = chi_path pathPrefix pathSegment (ch_Request c)"
| "chi_Resolve (ChiURLParam paramName) c = chi_value ''URL parameter '' paramName (ch_URLParam c paramName)"
| "chi_Resolve (ChiQueryParam paramName) c = chi_value ''query parameter '' paramName (ch_Query c paramName)"
| "chi_Resolve (ChiChain resolvers) c = chi_chain 0 resolvers [] c"
| "chi_Resolve (ChiStatic tenantID) c = Ok tenantID"
| "chi_chain i [] errors c = chi_chain_end errors"
| "chi_chain i (r # rs) errors c =
     (case chi_Resolve r c of
        Ok tenantID \<Rightarrow> if tenantID \<noteq> [] then Ok tenantID else chi_chain (Suc i) rs errors c
      | Err e \<Rightarrow> chi_chain (Suc i) rs (errors @ [''resolver '' @ int_str (int i) @ '': '' @ error_string e]) c
      | Panic \<Rightarrow> Panic)"

type_synonym chi_handler = "response \<Rightarrow> chi \<Rightarrow> response res"

record chi_config =
  chc_Resolver :: "(chi \<Rightarrow> string res) option"
  chc_ErrorHandler :: "(response \<Rightarrow> chi \<Rightarrow> go_error \<Rightarrow> response res) option"
  chc_SkipPaths :: "string list"
  chc_ContextKey :: "ctx_key option"

definition chi_defaultErrorHandler :: "response \<Rightarrow> chi \<Rightarrow> go_error \<Rightarrow> response res" where
  "chi_defaultErrorHandler w r e = Ok (http_Error w (''Tenant resolution failed: '' @ error_string e) 400)"

text \<open>
  \<^verbatim>\<open>fmt.Sprintf\<close> with \<^verbatim>\<open>%d\<close>: a value that is no integer is reported with its type. \<open>fmt_other\<close> is
  what it prints for the values this library does not know.
\<close>

definition sprintf_d :: "(ctx_val \<Rightarrow> string) \<Rightarrow> ctx_val option \<Rightarrow> string" where
  "sprintf_d fmt_other v =
     (case v of
        None \<Rightarrow> ''%!d(<nil>)''
      | Some (CtxString s) \<Rightarrow> ''%!d(string='' @ s @ '')''
      | Some (CtxBool b) \<Rightarrow> ''%!d(bool='' @ (if b then ''true'' else ''false'') @ '')''
      | Some v \<Rightarrow> fmt_other v)"

definition chi_requestID :: "(ctx_val \<Rightarrow> string) \<Rightarrow> go_ctx \<Rightarrow> string \<Rightarrow> string" where
  "chi_requestID fmt_other ctx tenantID =
     (let requestID = tenantID @ ''-'' @ sprintf_d fmt_other (ctx (OtherKey ''requestID''))
      in if requestID = tenantID @ ''-<nil>'' then tenantID @ ''-req'' else requestID)"

definition chi_inject :: "ctx_key \<Rightarrow> dcontext \<Rightarrow> chi \<Rightarrow> chi" where
  "chi_inject contextKey tc c =
     (let ctx = WithValue (rq_ctx (ch_Request c)) contextKey (CtxTenant tc);
          ctx = ToGoContext tc ctx
      in c\<lparr>ch_Request := (ch_Request c)\<lparr>rq_ctx := ctx\<rparr>\<rparr>)"

definition chi_Middleware ::
  "(ctx_val \<Rightarrow> string) \<Rightarrow> chi_config option \<Rightarrow> int \<Rightarrow> chi_handler \<Rightarrow> chi_handler" where
  "chi_Middleware fmt_other cfg now next_handler w c =
     (let cfg = (case cfg of None \<Rightarrow> \<lparr>chc_Resolver = None, chc_ErrorHandler = None, chc_SkipPaths = [], chc_ContextKey = None\<rparr>
                 | Some cfg \<Rightarrow> cfg);
          resolve = (case chc_Resolver cfg of None \<Rightarrow> chi_Resolve (ChiHeader ''X-Tenant-ID'') | Some f \<Rightarrow> f);
          onError = (case chc_ErrorHandler cfg of None \<Rightarrow> chi_defaultErrorHandler | Some f \<Rightarrow> f);
          contextKey = (case chc_ContextKey cfg of None \<Rightarrow> TenantContextKey | Some k \<Rightarrow> k)
      in if list_ex (has_prefix (rq_Path (ch_Request c))) (chc_SkipPaths cfg) then next_handler w c
         else (case tenant_of resolve (chi_requestID fmt_other (rq_ctx (ch_Request c))) now c of
                 Err e \<Rightarrow> onError w c e
               | Panic \<Rightarrow> Panic
               | Ok tc \<Rightarrow> next_handler w (chi_inject contextKey tc c)))"

definition chi_GetTenantContext :: "go_ctx \<Rightarrow> dcontext res" where
  "chi_GetTenantContext ctx = FromGoContext (Some ctx)"

definition chi_GetTenantID :: "go_ctx \<Rightarrow> string res" where
  "chi_GetTenantID ctx = res_bind (chi_GetTenantContext ctx) (\<lambda>tc. Ok (tid_value (dc_tenantID tc)))"

definition chi_GetTenantIDFromRequest :: "chi \<Rightarrow> string res" where
  "chi_GetTenantIDFromRequest c = chi_GetTenantID (rq_ctx (ch_Request c))"

definition chi_URLParam :: "chi \<Rightarrow> string \<Rightarrow> string" where
  "chi_URLParam c key = ch_URLParam c key"

definition chi_WithTenantID :: "go_ctx \<Rightarrow> string \<Rightarrow> int \<Rightarrow> go_ctx res" where
  "chi_WithTenantID ctx tenantID now =
     res_bind (NewContext tenantID ''system'' ''background'' now) (\<lambda>tc. Ok (ToGoContext tc ctx))"

section \<open>The laws of the contexts\<close>

interpretation gin_ctx: web_context "gin_inject ''tenant_context''" gin_GetTenantID
  by unfold_locales (simp add: gin_inject_def gin_GetTenantID_def gin_GetTenantContext_def)

interpretation echo_ctx: web_context "echo_inject ''tenant_context''" echo_GetTenantID
  by unfold_locales (simp add: echo_inject_def echo_GetTenantID_def echo_GetTenantContext_def)

interpretation fiber_ctx: web_context "fiber_inject ''tenant_context''" fiber_GetTenantID
  by unfold_locales (simp add: fiber_inject_def fiber_GetTenantID_def fiber_GetTenantContext_def)

interpretation chi_ctx: web_context "chi_inject contextKey" chi_GetTenantIDFromRequest for contextKey
  by unfold_locales
    (simp add: chi_inject_def chi_GetTenantIDFromRequest_def chi_GetTenantID_def chi_GetTenantContext_def
      FromGoContext_ToGoContext)

section \<open>The resolvers\<close>

lemma not_found_simps [simp]: "not_found m \<noteq> Ok t" "not_found m \<noteq> Panic"
  by (simp_all add: not_found_def)

lemma web_value_Ok [simp]: "web_value what name v = Ok t \<longleftrightarrow> v = t \<and> t \<noteq> []" "web_value what name v \<noteq> Panic"
  by (auto simp: web_value_def)

lemma web_path_Ok:
  "web_path i path = Ok t \<longleftrightarrow> 0 \<le> i \<and> nat i < length (path_segments path) \<and> path_segments path ! nat i = t \<and> t \<noteq> []"
  "web_path i path \<noteq> Panic"
  by (auto simp: web_path_def Let_def)

lemma web_static_Ok [simp]: "web_static s = Ok t \<longleftrightarrow> s = t \<and> t \<noteq> []" "web_static s \<noteq> Panic"
  by (auto simp: web_static_def)

lemma web_chain_end_simps [simp]: "web_chain_end e \<noteq> Ok t" "web_chain_end e \<noteq> Panic"
  by (simp_all add: web_chain_end_def split: option.split)

lemma host_only_split: "host_only h = hd (split_char h CHR '':'')"
  unfolding split_char_def host_only_def
proof (induction h)
  case (Cons c h)
  then show ?case by (cases "split_by (\<lambda>c. c = CHR '':'') h") auto
qed simp

lemma hd_split_char: "hd (split_char s x) = takeWhile (\<lambda>c. c \<noteq> x) s" "split_char s x \<noteq> []"
proof -
  have "hd (split_by (\<lambda>c. c = x) s) = takeWhile (\<lambda>c. c \<noteq> x) s \<and> split_by (\<lambda>c. c = x) s \<noteq> []"
    by (induction s) (auto split: list.split)
  then show "hd (split_char s x) = takeWhile (\<lambda>c. c \<noteq> x) s" "split_char s x \<noteq> []"
    by (simp_all add: split_char_def)
qed

lemma takeWhile_label:
  "takeWhile (\<lambda>c. c \<noteq> x) s = t \<longleftrightarrow> x \<notin> set t \<and> (s = t \<or> (\<exists>rest. s = t @ x # rest))"
proof (induction s arbitrary: t)
  case (Cons c s)
  then show ?case by (cases t) auto
qed auto

lemma web_subdomain_safe [simp]: "web_subdomain d host \<noteq> Panic"
  by (simp add: web_subdomain_def Let_def)

lemma gin_Resolve_port:
  "gin_Resolve r c \<noteq> Panic \<and> (gin_Resolve r c = Ok t \<longrightarrow> t \<noteq> [])"
  "gin_chain rs e c \<noteq> Panic \<and> (gin_chain rs e c = Ok t \<longrightarrow> t \<noteq> [])"
  by (induction r c and rs e c rule: gin_Resolve_gin_chain.induct)
    (auto simp: Let_def web_path_Ok web_subdomain_def split: res.splits if_splits)

lemma echo_Resolve_port:
  "echo_Resolve r c \<noteq> Panic \<and> (echo_Resolve r c = Ok t \<longrightarrow> t \<noteq> [])"
  "echo_chain rs e c \<noteq> Panic \<and> (echo_chain rs e c = Ok t \<longrightarrow> t \<noteq> [])"
  by (induction r c and rs e c rule: echo_Resolve_echo_chain.induct)
    (auto simp: Let_def web_path_Ok web_subdomain_def split: res.splits if_splits)

lemma fiber_Resolve_port:
  "fiber_Resolve r c \<noteq> Panic \<and> (fiber_Resolve r c = Ok t \<longrightarrow> t \<noteq> [])"
  "fiber_chain rs e c \<noteq> Panic \<and> (fiber_chain rs e c = Ok t \<longrightarrow> t \<noteq> [])"
  by (induction r c and rs e c rule: fiber_Resolve_fiber_chain.induct)
    (auto simp: Let_def web_path_Ok web_subdomain_def split: res.splits if_splits)

interpretation gin_res: tenant_resolver "gin_Resolve r" for r
  using gin_Resolve_port by unfold_locales auto

interpretation echo_res: tenant_resolver "echo_Resolve r" for r
  using echo_Resolve_port by unfold_locales auto

interpretation fiber_res: tenant_resolver "fiber_Resolve r" for r
  using fiber_Resolve_port by unfold_locales auto

text \<open>
  The subdomain strategy of gin, echo and fiber, exactly: with a base domain, the host without
  its port is the tenant, a dot and the base domain, and the tenant may itself contain dots; without
  one, the tenant is the first label of any host.
\<close>

theorem web_subdomain_iff:
  "web_subdomain d host = Ok t \<longleftrightarrow>
     t \<noteq> [] \<and> (if d \<noteq> [] then host_only host = t @ ''.'' @ d
                else CHR ''.'' \<notin> set t \<and> (host_only host = t \<or> (\<exists>rest. host_only host = t @ ''.'' @ rest)))"
proof (cases "d = []")
  case True
  then show ?thesis
    by (cases t) (auto simp: web_subdomain_def Let_def hd_split_char takeWhile_label)
next
  case False
  have "has_suffix (t @ ''.'' @ d) (''.'' @ d)" "trim_suffix (t @ ''.'' @ d) (''.'' @ d) = t"
    using has_suffix_append [of t "''.'' @ d"] trim_suffix_append [of t "''.'' @ d"] by simp_all
  moreover have "host_only host = trim_suffix (host_only host) (''.'' @ d) @ ''.'' @ d"
    if h: "has_suffix (host_only host) (''.'' @ d)"
  proof -
    obtain u where "host_only host = u @ ''.'' @ d" using h by (auto simp: has_suffix_iff)
    then show ?thesis using trim_suffix_append [of u "''.'' @ d"] by simp
  qed
  ultimately show ?thesis using False by (auto simp: web_subdomain_def Let_def)
qed

text \<open>
  C34. The three frameworks resolve alike: contexts that answer the same to gin's, echo's and fiber's
  accessors give every strategy, chains included, the same tenant or the same error.
\<close>

theorem frameworks_resolve_alike:
  assumes "\<And>h. fb_Get f h = Header_Get (gn_Request g) h" "fb_Hostname f = rq_Host (gn_Request g)"
    "fb_Path f = rq_Path (gn_Request g)" "ec_Request e = gn_Request g" "fb_Params f = gn_Param g"
    "ec_Param e = gn_Param g" "fb_Query f = gn_Query g" "ec_QueryParam e = gn_Query g"
  shows "echo_Resolve r e = gin_Resolve r g \<and> fiber_Resolve r f = gin_Resolve r g"
proof -
  have "echo_Resolve r e = gin_Resolve r g \<and> fiber_Resolve r f = gin_Resolve r g"
    "echo_chain rs l e = gin_chain rs l g \<and> fiber_chain rs l f = gin_chain rs l g" for rs l
    using assms by (induction r g and rs l g rule: gin_Resolve_gin_chain.induct) (auto simp: Let_def split: res.split)
  then show ?thesis by blast
qed

definition acme_request :: request where
  "acme_request = \<lparr>rq_Host = ''acme.eu.example.com:8080'', rq_Header = [(''X-Tenant-Id'', [''Acme''])],
     rq_Path = ''/tenants/acme/users'', rq_RemoteAddr = ''10.0.0.1:99'', rq_ctx = background\<rparr>"

definition acme_gin :: gin where
  "acme_gin = \<lparr>gn_Request = acme_request, gn_Param = (\<lambda>_. []), gn_Query = (\<lambda>_. []), gn_Keys = Map.empty,
     gn_aborted = False, gn_status = 0, gn_error = []\<rparr>"

definition acme_echo :: echo where
  "acme_echo = \<lparr>ec_Request = acme_request, ec_Path = ''/tenants/:id'', ec_Param = (\<lambda>_. []),
     ec_QueryParam = (\<lambda>_. []), ec_store = Map.empty\<rparr>"

definition acme_fiber :: fiber where
  "acme_fiber = \<lparr>fb_Get = Header_Get acme_request, fb_Hostname = rq_Host acme_request, fb_Path = rq_Path acme_request,
     fb_Params = (\<lambda>_. []), fb_Query = (\<lambda>_. []), fb_Locals = Map.empty, fb_Context = background,
     fb_UserContext = background, fb_status = 0, fb_error = []\<rparr>"

theorem frameworks_resolve_alike_witness:
  "echo_Resolve (WebSubdomain ''example.com'') acme_echo = gin_Resolve (WebSubdomain ''example.com'') acme_gin"
  by (rule frameworks_resolve_alike [THEN conjunct1, of acme_fiber acme_gin acme_echo])
    (simp_all add: acme_fiber_def acme_gin_def acme_echo_def)

section \<open>The handlers behind the middleware\<close>

text \<open>
  C33. Behind gin's middleware there is always a tenant: a request whose path is not one of those
  skipped is given to the error handler, on the context as it came, or the handlers that follow
  read the identifier the resolver named, in lower case and valid, from the context; with the handler
  used by default an error aborts the chain with status 400. (One that does not abort leaves it to gin
  to go on with the handlers that follow.)
\<close>

theorem gin_guarded:
  assumes "rq_Path (gn_Request c) \<notin> set (gc_SkipPaths cfg)" "gc_Resolver cfg = Some (gin_Resolve r)"
    "gc_ContextKey cfg \<in> {[], ''tenant_context''}"
  shows "(\<exists>t c'. gin_Resolve r c = Ok t \<and> gin_Middleware (Some cfg) now next_handler c = next_handler c' \<and>
            gin_GetTenantID c' = Ok (to_lower t) \<and> valid_id (to_lower t) \<and> gn_aborted c' = gn_aborted c) \<or>
         (\<exists>e. gin_Middleware (Some cfg) now next_handler c =
            (case gc_ErrorHandler cfg of
               Some onError \<Rightarrow> onError c e
             | None \<Rightarrow> Ok (c\<lparr>gn_aborted := True, gn_status := 400,
                             gn_error := ''tenant resolution failed: '' @ error_string e\<rparr>)))"
proof (cases "tenant_of (gin_Resolve r) web_requestID now c")
  case (Ok tc)
  from gin_ctx.reads_resolved [OF Ok] obtain t where
    "gin_Resolve r c = Ok t" "gin_GetTenantID (gin_inject ''tenant_context'' tc c) = Ok (to_lower t)"
    "valid_id (to_lower t)" by blast
  moreover have "gin_Middleware (Some cfg) now next_handler c = next_handler (gin_inject ''tenant_context'' tc c)"
    using assms Ok by (auto simp: gin_Middleware_def or_name_def)
  moreover have "gn_aborted (gin_inject ''tenant_context'' tc c) = gn_aborted c" by (simp add: gin_inject_def)
  ultimately show ?thesis by blast
next
  case (Err e)
  then have "gin_Middleware (Some cfg) now next_handler c =
      (case gc_ErrorHandler cfg of Some onError \<Rightarrow> onError c e | None \<Rightarrow> gin_onError c e)"
    using assms by (simp add: gin_Middleware_def split: option.split)
  then show ?thesis unfolding gin_onError_def by blast
next
  case Panic
  then show ?thesis using tenant_of_safe [of "gin_Resolve r" c] gin_res.safe [of r c] by simp
qed

definition gin_header_config :: gin_config where
  "gin_header_config = \<lparr>gc_Resolver = Some (gin_Resolve (WebHeader [])), gc_ErrorHandler = None,
     gc_SkipPaths = [''/health''], gc_ContextKey = []\<rparr>"

theorem gin_guarded_witness:
  "\<exists>c'. gin_Middleware (Some gin_header_config) 0 Ok acme_gin = Ok c' \<and> gin_GetTenantID c' = Ok ''acme''"
proof -
  have r: "gin_Resolve (WebHeader []) acme_gin = Ok ''Acme''" by code_simp
  have l: "to_lower ''Acme'' = ''acme''" by code_simp
  have ok: "\<exists>tc. tenant_of (gin_Resolve (WebHeader [])) web_requestID 0 acme_gin = Ok tc" (is "\<exists>tc. ?x = Ok tc")
  proof -
    have "case ?x of Ok _ \<Rightarrow> True | _ \<Rightarrow> False" by code_simp
    then show ?thesis by (cases ?x) auto
  qed
  then obtain tc where tc: "tenant_of (gin_Resolve (WebHeader [])) web_requestID 0 acme_gin = Ok tc" by blast
  have n: "rq_Path (gn_Request acme_gin) \<notin> set (gc_SkipPaths gin_header_config)" by code_simp
  then have m: "gin_Middleware (Some gin_header_config) 0 Ok acme_gin = Ok (gin_inject ''tenant_context'' tc acme_gin)"
    using tc by (simp add: gin_Middleware_def gin_header_config_def or_name_def)
  have "\<not> gn_aborted (gin_inject ''tenant_context'' tc acme_gin)" by (simp add: gin_inject_def acme_gin_def)
  with gin_guarded [OF n, of "WebHeader []" 0 Ok] r l m
  show ?thesis by (auto simp: gin_header_config_def)
qed

text \<open>The same for echo and fiber.\<close>

lemma echo_guarded:
  assumes "ec_Path c \<notin> set (ecc_SkipPaths cfg)" "ecc_Resolver cfg = Some (echo_Resolve r)"
    "ecc_ErrorHandler cfg = Some onError" "ecc_ContextKey cfg \<in> {[], ''tenant_context''}"
  shows "(\<exists>t c'. echo_Resolve r c = Ok t \<and> echo_Middleware (Some cfg) now next_handler c = next_handler c' \<and>
            echo_GetTenantID c' = Ok (to_lower t) \<and> valid_id (to_lower t)) \<or>
         (\<exists>e. echo_Middleware (Some cfg) now next_handler c = onError c e)"
proof (cases "tenant_of (echo_Resolve r) web_requestID now c")
  case (Ok tc)
  with echo_ctx.reads_resolved [OF Ok] assms show ?thesis by (auto simp: echo_Middleware_def or_name_def)
next
  case Panic
  then show ?thesis using tenant_of_safe [of "echo_Resolve r" c] echo_res.safe [of r c] by simp
qed (use assms in \<open>auto simp: echo_Middleware_def\<close>)

lemma fiber_guarded:
  assumes "fb_Path c \<notin> set (fc_SkipPaths cfg)" "fc_Resolver cfg = Some (fiber_Resolve r)"
    "fc_ErrorHandler cfg = Some onError" "fc_ContextKey cfg \<in> {[], ''tenant_context''}"
  shows "(\<exists>t c'. fiber_Resolve r c = Ok t \<and> fiber_Middleware (Some cfg) now next_handler c = next_handler c' \<and>
            fiber_GetTenantID c' = Ok (to_lower t) \<and> valid_id (to_lower t)) \<or>
         (\<exists>e. fiber_Middleware (Some cfg) now next_handler c = onError c e)"
proof (cases "tenant_of (fiber_Resolve r) web_requestID now c")
  case (Ok tc)
  with fiber_ctx.reads_resolved [OF Ok] assms show ?thesis by (auto simp: fiber_Middleware_def or_name_def)
next
  case Panic
  then show ?thesis using tenant_of_safe [of "fiber_Resolve r" c] fiber_res.safe [of r c] by simp
qed (use assms in \<open>auto simp: fiber_Middleware_def\<close>)

text \<open>
  Fiber's middleware loses what earlier handlers put into the user context: a tenant once
  resolved, the handlers behind see there the tenant and nothing but the values of the context of the
  request, so that a mark like the one that bypasses the tenant is gone.
\<close>

theorem fiber_drops_user_context:
  assumes "tenant_of resolve web_requestID now c = Ok tc" "fc_Resolver cfg = Some resolve"
    "fb_Path c \<notin> set (fc_SkipPaths cfg)"
  shows "\<exists>c'. fiber_Middleware (Some cfg) now next_handler c = next_handler c' \<and>
    fb_UserContext c' = (fb_Context c)(TenantContextKey \<mapsto> CtxTenant tc) \<and>
    shouldBypass (fb_UserContext c') = shouldBypass (fb_Context c)"
  using assms by (auto simp: fiber_Middleware_def fiber_inject_def ToGoContext_def WithValue_def shouldBypass_def
      TenantContextKey_def bypassKey_def)

theorem fiber_drops_user_context_witness:
  "\<exists>c'. fiber_Middleware (Some \<lparr>fc_Resolver = Some (fiber_Resolve (WebHeader [])), fc_ErrorHandler = None,
        fc_SkipPaths = [], fc_ContextKey = []\<rparr>) 0 (\<lambda>c. Ok (c, None))
        (acme_fiber\<lparr>fb_UserContext := WithoutTenantFiltering background\<rparr>) = Ok (c', None) \<and>
     \<not> shouldBypass (fb_UserContext c')" (is "\<exists>c'. fiber_Middleware (Some ?cfg) 0 _ ?c = _ \<and> _")
proof -
  let ?x = "tenant_of (fiber_Resolve (WebHeader [])) web_requestID 0 ?c"
  have "case ?x of Ok _ \<Rightarrow> True | _ \<Rightarrow> False" by code_simp
  then obtain tc where "?x = Ok tc" by (cases ?x) auto
  from fiber_drops_user_context [OF this, of ?cfg "\<lambda>c. Ok (c, None)"]
  show ?thesis by (auto simp: acme_fiber_def shouldBypass_def background_def)
qed

text \<open>
  Chi's middleware: a request that no skip prefix matches is answered by the error handler, or the
  next handler reads the identifier the resolver named, in lower case and valid; this holds for every
  context key and for every resolver that does not panic.
\<close>

theorem chi_guarded:
  assumes "\<forall>p \<in> set (chc_SkipPaths cfg). \<not> has_prefix (rq_Path (ch_Request c)) p"
    "chc_Resolver cfg = Some resolve" "resolve c \<noteq> Panic" "chc_ErrorHandler cfg = Some onError"
  shows "(\<exists>t c'. resolve c = Ok t \<and> t \<noteq> [] \<and> chi_Middleware fmt_other (Some cfg) now next_handler w c = next_handler w c' \<and>
            chi_GetTenantIDFromRequest c' = Ok (to_lower t) \<and> valid_id (to_lower t)) \<or>
         (\<exists>e. chi_Middleware fmt_other (Some cfg) now next_handler w c = onError w c e)"
proof -
  let ?x = "tenant_of resolve (chi_requestID fmt_other (rq_ctx (ch_Request c))) now c"
  have s: "\<not> list_ex (has_prefix (rq_Path (ch_Request c))) (chc_SkipPaths cfg)" using assms(1) by (simp add: list_ex_iff)
  show ?thesis
  proof (cases ?x)
    case (Ok tc)
    from chi_ctx.reads_resolved [OF Ok] show ?thesis
      using assms(2) s Ok by (cases "chc_ContextKey cfg") (fastforce simp: chi_Middleware_def)+
  next
    case (Err e)
    then show ?thesis using assms s by (auto simp: chi_Middleware_def)
  next
    case Panic
    then show ?thesis using tenant_of_safe [of resolve c] assms(3) by simp
  qed
qed

definition acme_chi :: chi where
  "acme_chi = \<lparr>ch_Request = acme_request, ch_URLParam = (\<lambda>_. []), ch_Query = (\<lambda>_. [])\<rparr>"

definition chi_never :: "response \<Rightarrow> chi \<Rightarrow> go_error \<Rightarrow> response res" where
  "chi_never w c e = Panic"

definition chi_answer :: chi_handler where
  "chi_answer w c = Ok w"

definition chi_header_config :: chi_config where
  "chi_header_config = \<lparr>chc_Resolver = Some (chi_Resolve (ChiHeader ''X-Tenant-ID'')),
     chc_ErrorHandler = Some chi_never, chc_SkipPaths = [''/health''], chc_ContextKey = None\<rparr>"

theorem chi_guarded_witness:
  "\<exists>t c'. chi_Resolve (ChiHeader ''X-Tenant-ID'') acme_chi = Ok t \<and> chi_GetTenantIDFromRequest c' = Ok (to_lower t) \<and>
     chi_Middleware (\<lambda>_. []) (Some chi_header_config) 0 chi_answer empty_response acme_chi = chi_answer empty_response c'"
proof -
  have s: "\<forall>p \<in> set (chc_SkipPaths chi_header_config). \<not> has_prefix (rq_Path (ch_Request acme_chi)) p" by code_simp
  have ok: "case chi_Middleware (\<lambda>_. []) (Some chi_header_config) 0 chi_answer empty_response acme_chi of Ok _ \<Rightarrow> True | _ \<Rightarrow> False"
    by code_simp
  have "chi_Resolve (ChiHeader ''X-Tenant-ID'') c \<noteq> Panic" for c by (simp add: chi_value_def)
  from chi_guarded [where resolve = "chi_Resolve (ChiHeader ''X-Tenant-ID'')", OF s _ this,
      where onError = chi_never and fmt_other = "\<lambda>_. []" and now = 0 and next_handler = chi_answer and w = empty_response] ok
  show ?thesis by (auto simp: chi_header_config_def chi_never_def)
qed

text \<open>
  The fallback of chi's request identifiers never applies: without a request identifier in the
  context, the identifier is the tenant and what \<^verbatim>\<open>%d\<close> prints for nil, never the tenant and req.
\<close>

lemma chi_request_id_fallback_dead:
  "chi_requestID fmt_other ctx tenantID = tenantID @ ''-'' @ sprintf_d fmt_other (ctx (OtherKey ''requestID'')) \<or>
     (\<exists>v. ctx (OtherKey ''requestID'') = Some v \<and> fmt_other v = ''<nil>'')"
  by (auto simp: chi_requestID_def sprintf_d_def Let_def split: option.split ctx_val.split)

end
