(* ===== verification/Metrics_Prometheus.thy ===== *)
theory Metrics_Prometheus
  imports Tenant_Context
begin

text \<open>
  adapters/metrics-prometheus and adapters/metrics-noop: the recorder of metrics. The collectors of
  the Prometheus client are not modelled; a method returns the calls it makes on them, in order, with
  the name of the metric and its labels. The hits and misses behind the cache ratio are the state of
  the recorder, and their concurrent update is a step relation.
\<close>

section \<open>Configuration (config.go)\<close>

record metrics_config =
  HTTPRequestSizeBuckets :: "rat list"
  HTTPResponseSizeBuckets :: "rat list"
  QueryDurationBuckets :: "rat list"
  QueryRowsBuckets :: "rat list"

definition DefaultMetricsConfig :: metrics_config where
  "DefaultMetricsConfig =
     \<lparr>HTTPRequestSizeBuckets = [100, 1000, 10000, 100000, 1000000],
      HTTPResponseSizeBuckets = [100, 1000, 10000, 100000, 1000000],
      QueryDurationBuckets = [1, 5, 10, 50, 100, 500, 1000],
      QueryRowsBuckets = [1, 10, 100, 1000, 10000, 100000]\<rparr>"

definition HighGranularityMetricsConfig :: metrics_config where
  "HighGranularityMetricsConfig =
     \<lparr>HTTPRequestSizeBuckets = [10, 50, 100, 500, 1000, 5000, 10000, 50000, 100000, 500000, 1000000, 5000000],
      HTTPResponseSizeBuckets = [10, 50, 100, 500, 1000, 5000, 10000, 50000, 100000, 500000, 1000000, 5000000],
      QueryDurationBuckets = [1, 2, 5, 10, 20, 50, 100, 200, 500, 1000, 2000, 5000, 10000],
      QueryRowsBuckets = [1, 5, 10, 50, 100, 500, 1000, 5000, 10000, 50000, 100000, 500000]\<rparr>"

definition LowGranularityMetricsConfig :: metrics_config where
  "LowGranularityMetricsConfig =
     \<lparr>HTTPRequestSizeBuckets = [1000, 100000, 1000000], HTTPResponseSizeBuckets = [1000, 100000, 1000000],
      QueryDurationBuckets = [10, 100, 1000], QueryRowsBuckets = [100, 10000, 100000]\<rparr>"

section \<open>The recorder\<close>

type_synonym cache_pair = "int \<times> int"

text \<open>A registry of the client library is known by its identity only.\<close>

datatype registerer = DefaultRegisterer | Registerer nat

record prometheus_metrics =
  pm_namespace :: string
  pm_subsystem :: string
  pm_registerer :: registerer
  pm_config :: metrics_config
  pm_cacheStats :: "string \<rightharpoonup> cache_pair"

definition NewPrometheusMetricsWithConfig :: "string \<Rightarrow> string \<Rightarrow> metrics_config option \<Rightarrow> prometheus_metrics" where
  "NewPrometheusMetricsWithConfig namespace subsystem config =
     \<lparr>pm_namespace = namespace, pm_subsystem = subsystem, pm_registerer = DefaultRegisterer,
      pm_config = (case config of None \<Rightarrow> DefaultMetricsConfig | Some c \<Rightarrow> c), pm_cacheStats = Map.empty\<rparr>"

definition NewPrometheusMetrics :: "string \<Rightarrow> string \<Rightarrow> prometheus_metrics" where
  "NewPrometheusMetrics namespace subsystem =
     NewPrometheusMetricsWithConfig namespace subsystem (Some DefaultMetricsConfig)"

definition NewPrometheusMetricsWithRegistryAndConfig ::
  "string \<Rightarrow> string \<Rightarrow> registerer \<Rightarrow> metrics_config option \<Rightarrow> prometheus_metrics" where
  "NewPrometheusMetricsWithRegistryAndConfig namespace subsystem reg config =
     \<lparr>pm_namespace = namespace, pm_subsystem = subsystem, pm_registerer = reg,
      pm_config = (case config of None \<Rightarrow> DefaultMetricsConfig | Some c \<Rightarrow> c), pm_cacheStats = Map.empty\<rparr>"

definition NewPrometheusMetricsWithRegistry :: "string \<Rightarrow> string \<Rightarrow> registerer \<Rightarrow> prometheus_metrics" where
  "NewPrometheusMetricsWithRegistry namespace subsystem reg =
     NewPrometheusMetricsWithRegistryAndConfig namespace subsystem reg (Some DefaultMetricsConfig)"

datatype metric_kind = Counter | Histogram "rat list" | Gauge

text \<open>
  The collectors \<^verbatim>\<open>initMetrics\<close> registers: name, kind and label names. The buckets of the durations
  of requests, \<^verbatim>\<open>prometheus.DefBuckets\<close>, are a parameter.
\<close>

definition cache_collectors :: "(string \<times> metric_kind \<times> string list) list" where
  "cache_collectors =
     [(''cache_hits_total'', Counter, [''tenant_id'', ''cache_type'']),
      (''cache_misses_total'', Counter, [''tenant_id'', ''cache_type'']),
      (''cache_hit_ratio'', Gauge, [''tenant_id'', ''cache_type''])]"

definition initMetrics :: "rat list \<Rightarrow> metrics_config \<Rightarrow> (string \<times> metric_kind \<times> string list) list" where
  "initMetrics defBuckets config =
     [(''http_requests_total'', Counter, [''tenant_id'', ''method'', ''endpoint'', ''status'']),
      (''http_request_duration_ms'', Histogram defBuckets, [''tenant_id'', ''method'', ''endpoint'']),
      (''http_request_size_bytes'', Histogram (HTTPRequestSizeBuckets config), [''tenant_id'', ''method'', ''endpoint'']),
      (''http_response_size_bytes'', Histogram (HTTPResponseSizeBuckets config), [''tenant_id'', ''method'', ''endpoint'']),
      (''queries_total'', Counter, [''tenant_id'', ''operation'']),
      (''query_duration_ms'', Histogram (QueryDurationBuckets config), [''tenant_id'', ''operation'']),
      (''query_rows_affected'', Histogram (QueryRowsBuckets config), [''tenant_id'', ''operation'']),
      (''errors_total'', Counter, [''tenant_id'', ''error_type'']),
      (''quota_used_bytes'', Gauge, [''tenant_id'', ''quota_type'']),
      (''quota_limit_bytes'', Gauge, [''tenant_id'', ''quota_type'']),
      (''quota_usage_ratio'', Gauge, [''tenant_id'', ''quota_type'']),
      (''rate_limit_hits_total'', Counter, [''tenant_id'', ''endpoint'']),
      (''rate_limit_requests_total'', Counter, [''tenant_id'', ''endpoint''])] @ cache_collectors"

section \<open>String helpers\<close>

definition toUpperASCII :: "string \<Rightarrow> string" where
  "toUpperASCII s = map (\<lambda>c. if 97 \<le> code c \<and> code c \<le> 122 then char_of (code c - 32) else c) s"

definition startsWith :: "string \<Rightarrow> string \<Rightarrow> bool" where
  "startsWith s prefix \<longleftrightarrow> length prefix \<le> length s \<and> take (length prefix) s = prefix"

text \<open>
  The loop of \<^verbatim>\<open>splitString\<close> goes on by one position after a match, so that a separator that
  overlaps itself slices backwards, which is a panic.
\<close>

function split_loop :: "string \<Rightarrow> string \<Rightarrow> nat \<Rightarrow> nat \<Rightarrow> string list \<Rightarrow> string list res" where
  "split_loop s sep start i result =
     (if length s < i + length sep then Ok (result @ [drop start s])
      else if take (length sep) (drop i s) = sep
      then if i < start then Panic
           else split_loop s sep (i + length sep) (Suc i) (result @ [take (i - start) (drop start s)])
      else split_loop s sep start (Suc i) result)"
  by pat_completeness auto
termination
  by (relation "measure (\<lambda>(s, sep, start, i, result). Suc (length s) - i)") auto

declare split_loop.simps [simp del]

definition splitString :: "string \<Rightarrow> string \<Rightarrow> string list res" where
  "splitString s sep = (if sep = [] then Ok [s] else split_loop s sep 0 0 [])"

definition pm_getTenantID :: "go_ctx \<Rightarrow> string" where
  "pm_getTenantID ctx =
     (case ctx (OtherKey ''tenant_id'') of Some (CtxString tenantID) \<Rightarrow> tenantID | _ \<Rightarrow> ''unknown'')"

definition pm_extractOperation :: "string \<Rightarrow> string" where
  "pm_extractOperation query =
     (let upperQuery = toUpperASCII query
      in if startsWith upperQuery ''SELECT'' then ''select''
         else if startsWith upperQuery ''INSERT'' then ''insert''
         else if startsWith upperQuery ''UPDATE'' then ''update''
         else if startsWith upperQuery ''DELETE'' then ''delete''
         else ''other'')"

definition extractCacheType :: "string \<Rightarrow> string res" where
  "extractCacheType key =
     res_bind (splitString key '':'') (\<lambda>parts. Ok (if 2 \<le> length parts then parts ! 1 else ''default''))"

section \<open>Recording\<close>

datatype prom_call =
    Inc string "string list"
  | Observe string "string list" rat
  | SetGauge string "string list" rat

definition pm_RecordRequest :: "go_ctx \<Rightarrow> string \<Rightarrow> string \<Rightarrow> int \<Rightarrow> int \<Rightarrow> prom_call list" where
  "pm_RecordRequest ctx method endpoint statusCode durationMS =
     (let tenantID = pm_getTenantID ctx
      in [Inc ''http_requests_total'' [tenantID, method, endpoint, int_str statusCode],
          Observe ''http_request_duration_ms'' [tenantID, method, endpoint] (of_int durationMS)])"

definition pm_RecordQuery :: "go_ctx \<Rightarrow> string \<Rightarrow> int \<Rightarrow> int \<Rightarrow> prom_call list" where
  "pm_RecordQuery ctx query rowsAffected durationMS =
     (let tenantID = pm_getTenantID ctx; operation = pm_extractOperation query
      in [Inc ''queries_total'' [tenantID, operation],
          Observe ''query_duration_ms'' [tenantID, operation] (of_int durationMS),
          Observe ''query_rows_affected'' [tenantID, operation] (of_int rowsAffected)])"

definition pm_RecordError :: "go_ctx \<Rightarrow> string \<Rightarrow> string \<Rightarrow> prom_call list" where
  "pm_RecordError ctx errorType message = [Inc ''errors_total'' [pm_getTenantID ctx, errorType]]"

definition pm_RecordQuotaUsage :: "go_ctx \<Rightarrow> string \<Rightarrow> int \<Rightarrow> int \<Rightarrow> prom_call list" where
  "pm_RecordQuotaUsage ctx quotaType used limit =
     (let tenantID = pm_getTenantID ctx
      in [SetGauge ''quota_used_bytes'' [tenantID, quotaType] (of_int used),
          SetGauge ''quota_limit_bytes'' [tenantID, quotaType] (of_int limit)]
         @ (if 0 < limit then [SetGauge ''quota_usage_ratio'' [tenantID, quotaType] (of_int used / of_int limit)] else []))"

definition pm_RecordRateLimit :: "go_ctx \<Rightarrow> string \<Rightarrow> bool \<Rightarrow> prom_call list" where
  "pm_RecordRateLimit ctx endpoint limited =
     (let tenantID = pm_getTenantID ctx
      in [Inc ''rate_limit_requests_total'' [tenantID, endpoint]]
         @ (if limited then [Inc ''rate_limit_hits_total'' [tenantID, endpoint]] else []))"

text \<open>
  The update of a pair under its lock gives the total; the hits are read again after the lock is
  released. Here nothing comes in between.
\<close>

definition pair_add :: "bool \<Rightarrow> cache_pair \<Rightarrow> cache_pair" where
  "pair_add hit p = (if hit then (add64 (fst p) 1, snd p) else (fst p, add64 (snd p) 1))"

definition pair_total :: "cache_pair \<Rightarrow> int" where
  "pair_total p = add64 (fst p) (snd p)"

definition pair_ratio :: "int \<Rightarrow> int \<Rightarrow> rat" where
  "pair_ratio hits all_of = (if 0 < all_of then of_int hits / of_int all_of else 0)"

definition pm_RecordCacheHit ::
  "prometheus_metrics \<Rightarrow> go_ctx \<Rightarrow> string \<Rightarrow> bool \<Rightarrow> prometheus_metrics \<times> prom_call list res" where
  "pm_RecordCacheHit pm ctx key hit =
     (case extractCacheType key of
        Err e \<Rightarrow> (pm, Err e)
      | Panic \<Rightarrow> (pm, Panic)
      | Ok cacheType \<Rightarrow>
          let tenantID = pm_getTenantID ctx;
              statsKey = tenantID @ '':'' @ cacheType;
              p = pair_add hit (case pm_cacheStats pm statsKey of None \<Rightarrow> (0, 0) | Some p \<Rightarrow> p)
          in (pm\<lparr>pm_cacheStats := (pm_cacheStats pm)(statsKey \<mapsto> p)\<rparr>,
              Ok [Inc (if hit then ''cache_hits_total'' else ''cache_misses_total'') [tenantID, cacheType],
                  SetGauge ''cache_hit_ratio'' [tenantID, cacheType] (pair_ratio (fst p) (pair_total p))]))"

section \<open>The recorder that does nothing\<close>

definition noop_RecordRequest :: "go_ctx \<Rightarrow> string \<Rightarrow> string \<Rightarrow> int \<Rightarrow> int \<Rightarrow> prom_call list" where
  "noop_RecordRequest ctx method endpoint statusCode durationMS = []"

definition noop_RecordQuery :: "go_ctx \<Rightarrow> string \<Rightarrow> int \<Rightarrow> int \<Rightarrow> prom_call list" where
  "noop_RecordQuery ctx query rowsAffected durationMS = []"

definition noop_RecordError :: "go_ctx \<Rightarrow> string \<Rightarrow> string \<Rightarrow> prom_call list" where
  "noop_RecordError ctx errorType message = []"

definition noop_RecordQuotaUsage :: "go_ctx \<Rightarrow> string \<Rightarrow> int \<Rightarrow> int \<Rightarrow> prom_call list" where
  "noop_RecordQuotaUsage ctx quotaType used limit = []"

definition noop_RecordRateLimit :: "go_ctx \<Rightarrow> string \<Rightarrow> bool \<Rightarrow> prom_call list" where
  "noop_RecordRateLimit ctx endpoint limited = []"

definition noop_RecordCacheHit :: "go_ctx \<Rightarrow> string \<Rightarrow> bool \<Rightarrow> prom_call list" where
  "noop_RecordCacheHit ctx key hit = []"

section \<open>The string helpers are those of the standard library\<close>

lemma toUpperASCII: "toUpperASCII s = to_upper s"
  by (simp add: toUpperASCII_def to_upper_def up_char_def is_lower_def)

lemma startsWith: "startsWith s p \<longleftrightarrow> has_prefix s p"
  by (metis has_prefix_def length_take min.absorb_iff2 nat_le_linear startsWith_def take_all)

lemma split_char_append:
  "c \<notin> set p \<Longrightarrow> split_char (p @ q) c = (p @ hd (split_char q c)) # tl (split_char q c)"
  unfolding split_char_def
proof (induction p)
  case Nil
  then show ?case by (cases "split_by (\<lambda>x. x = c) q") simp_all
next
  case (Cons x p)
  then show ?case by auto
qed

lemma split_char_Cons: "split_char (c # q) c = [] # split_char q c"
  by (simp add: split_char_def)

lemma split_loop_char:
  assumes "start \<le> i" "i \<le> length s" "c \<notin> set (take (i - start) (drop start s))"
  shows "split_loop s [c] start i result = Ok (result @ split_char (drop start s) c)"
  using assms
proof (induction "length s - i" arbitrary: i start result)
  case 0
  then have i: "i = length s" by simp
  then have p: "c \<notin> set (drop start s)" using "0.prems" by simp
  have "split_char (drop start s) c = [drop start s]"
    using split_char_append [OF p, of "[]"] by (simp add: split_char_def)
  then show ?case by (subst split_loop.simps) (simp add: i)
next
  case (Suc n)
  then have i: "i < length s" by simp
  define p where "p = take (i - start) (drop start s)"
  have at: "take 1 (drop i s) = [s ! i]" using i by (simp add: take_Suc_conv_app_nth Cons_nth_drop_Suc [symmetric])
  have d: "drop start s = p @ s ! i # drop (Suc i) s"
    using Suc.prems(1) i id_take_nth_drop [of "i - start" "drop start s"] by (simp add: p_def)
  have np: "c \<notin> set p" using Suc.prems(3) by (simp add: p_def)
  show ?case
  proof (cases "s ! i = c")
    case True
    have "split_loop s [c] start i result = split_loop s [c] (Suc i) (Suc i) (result @ [p])"
      using i Suc.prems(1) at True by (subst split_loop.simps) (simp add: p_def)
    also have "\<dots> = Ok ((result @ [p]) @ split_char (drop (Suc i) s) c)"
      using Suc.hyps(2) i by (intro Suc.hyps(1)) simp_all
    also have "\<dots> = Ok (result @ split_char (drop start s) c)"
      using True split_char_append [OF np, of "c # drop (Suc i) s"] by (simp add: d split_char_Cons)
    finally show ?thesis .
  next
    case False
    have "split_loop s [c] start i result = split_loop s [c] start (Suc i) result"
      using i at False by (subst split_loop.simps) simp
    also have "take (Suc i - start) (drop start s) = p @ [s ! i]"
      using Suc.prems(1) i by (simp add: p_def Suc_diff_le take_Suc_conv_app_nth)
    then have "split_loop s [c] start (Suc i) result = Ok (result @ split_char (drop start s) c)"
      using Suc.hyps(2) i np False Suc.prems(1) by (intro Suc.hyps(1)) auto
    finally show ?thesis .
  qed
qed

lemma splitString_char: "splitString s [c] = Ok (split_char s c)"
  using split_loop_char [of 0 0 s c "[]"] by (simp add: splitString_def)

definition cache_type :: "string \<Rightarrow> string" where
  "cache_type key = (case split_char key CHR '':'' of a # b # _ \<Rightarrow> b | _ \<Rightarrow> ''default'')"

lemma extractCacheType_split: "extractCacheType key = Ok (cache_type key)"
  by (auto simp: extractCacheType_def cache_type_def splitString_char split: list.split)

text \<open>
  The recorder's own \<^verbatim>\<open>splitString\<close> is \<^verbatim>\<open>strings.Split\<close> for every separator of one byte, the
  only ones it is called with, so that the type of a cache key is its second part between colons, and
  the lookup never panics.
\<close>

theorem split_string_is_split:
  "splitString s [c] = Ok (split_char s c) \<and>
   extractCacheType s = Ok (case split_char s CHR '':'' of a # b # _ \<Rightarrow> b | _ \<Rightarrow> ''default'')"
  by (simp add: splitString_char extractCacheType_split cache_type_def)

text \<open>With a separator that overlaps itself it panics where \<^verbatim>\<open>strings.Split\<close> does not.\<close>

lemma split_string_overlap: "splitString ''aaa'' ''aa'' = Panic"
  by code_simp

section \<open>The cache ratio, one record after the other\<close>

type_synonym cache_record = "go_ctx \<times> string \<times> bool"

fun pm_run :: "prometheus_metrics \<Rightarrow> cache_record list \<Rightarrow> prometheus_metrics" where
  "pm_run pm [] = pm"
| "pm_run pm ((ctx, key, hit) # cs) = pm_run (fst (pm_RecordCacheHit pm ctx key hit)) cs"

definition has_labels :: "string \<Rightarrow> string \<Rightarrow> cache_record \<Rightarrow> bool" where
  "has_labels t ty c = (case c of (ctx, key, hit) \<Rightarrow> pm_getTenantID ctx = t \<and> cache_type key = ty)"

definition hits_of :: "string \<Rightarrow> string \<Rightarrow> cache_record list \<Rightarrow> int" where
  "hits_of t ty cs = int (length (filter (\<lambda>c. has_labels t ty c \<and> snd (snd c)) cs))"

definition records_of :: "string \<Rightarrow> string \<Rightarrow> cache_record list \<Rightarrow> int" where
  "records_of t ty cs = int (length (filter (has_labels t ty) cs))"

definition pair_at :: "prometheus_metrics \<Rightarrow> string \<Rightarrow> cache_pair" where
  "pair_at pm k = (case pm_cacheStats pm k of None \<Rightarrow> (0, 0) | Some p \<Rightarrow> p)"

lemma filter_le_filter: "length (filter (\<lambda>x. P x \<and> Q x) xs) \<le> length (filter P xs)"
  by (induction xs) auto

lemma split_char_parts: "w \<in> set (split_char s x) \<Longrightarrow> x \<notin> set w"
  unfolding split_char_def
  by (induction s arbitrary: w) (auto split: list.splits if_splits)

lemma cache_type_no_colon: "CHR '':'' \<notin> set (cache_type key)"
  using split_char_parts [of _ key "CHR '':''"] by (auto simp: cache_type_def split: list.split)

lemma stats_key_inj:
  assumes "CHR '':'' \<notin> set a" "CHR '':'' \<notin> set b"
  shows "t @ '':'' @ a = t' @ '':'' @ b \<longleftrightarrow> t = t' \<and> a = b"
proof
  assume "t @ '':'' @ a = t' @ '':'' @ b"
  then have "rev (t @ '':'' @ a) = rev (t' @ '':'' @ b)" by (rule arg_cong)
  then have r: "rev a @ CHR '':'' # rev t = rev b @ CHR '':'' # rev t'" by simp
  have "takeWhile (\<lambda>c. c \<noteq> CHR '':'') (rev x @ CHR '':'' # y) = rev x" if "CHR '':'' \<notin> set x" for x y
    using that by (subst takeWhile_append2) auto
  from this [OF assms(1)] this [OF assms(2)] r have "rev a = rev b" by metis
  then show "t = t' \<and> a = b" using r by simp
qed simp

lemma RecordCacheHit_pair:
  "pair_at (fst (pm_RecordCacheHit pm ctx key hit)) (t @ '':'' @ ty) =
     (if pm_getTenantID ctx = t \<and> cache_type key = ty then pair_add hit (pair_at pm (t @ '':'' @ ty))
      else pair_at pm (t @ '':'' @ ty))" if "CHR '':'' \<notin> set ty"
proof -
  have k: "t @ '':'' @ ty = pm_getTenantID ctx @ '':'' @ cache_type key \<longleftrightarrow> pm_getTenantID ctx = t \<and> cache_type key = ty"
    by (simp only: stats_key_inj [OF that cache_type_no_colon]) auto
  have "fst (pm_RecordCacheHit pm ctx key hit) =
      pm\<lparr>pm_cacheStats := (pm_cacheStats pm)(pm_getTenantID ctx @ '':'' @ cache_type key \<mapsto>
        pair_add hit (pair_at pm (pm_getTenantID ctx @ '':'' @ cache_type key)))\<rparr>"
    by (simp add: pm_RecordCacheHit_def extractCacheType_split pair_at_def Let_def)
  then have "pair_at (fst (pm_RecordCacheHit pm ctx key hit)) (t @ '':'' @ ty) =
      (if t @ '':'' @ ty = pm_getTenantID ctx @ '':'' @ cache_type key
       then pair_add hit (pair_at pm (pm_getTenantID ctx @ '':'' @ cache_type key)) else pair_at pm (t @ '':'' @ ty))"
    by (simp only: pair_at_def prometheus_metrics.simps fun_upd_apply split: if_split) simp
  then show ?thesis unfolding k by auto
qed

lemma pm_run_pair:
  assumes "CHR '':'' \<notin> set ty" "0 \<le> fst (pair_at pm (t @ '':'' @ ty))" "0 \<le> snd (pair_at pm (t @ '':'' @ ty))"
    "fst (pair_at pm (t @ '':'' @ ty)) + snd (pair_at pm (t @ '':'' @ ty)) + int (length cs) < 2 ^ 63"
  shows "pair_at (pm_run pm cs) (t @ '':'' @ ty) =
    (fst (pair_at pm (t @ '':'' @ ty)) + hits_of t ty cs,
     snd (pair_at pm (t @ '':'' @ ty)) + (records_of t ty cs - hits_of t ty cs))"
  using assms(2-4)
proof (induction cs arbitrary: pm)
  case Nil
  then show ?case by (simp add: hits_of_def records_of_def)
next
  case (Cons c cs)
  obtain ctx key hit where c: "c = (ctx, key, hit)" by (cases c)
  let ?pm = "fst (pm_RecordCacheHit pm ctx key hit)"
  let ?p = "pair_at pm (t @ '':'' @ ty)" and ?q = "pair_at ?pm (t @ '':'' @ ty)"
  have q: "?q = (if has_labels t ty c then (fst ?p + (if hit then 1 else 0), snd ?p + (if hit then 0 else 1)) else ?p)"
    using Cons.prems RecordCacheHit_pair [OF assms(1), of pm ctx key hit t] c
    by (auto simp: pair_add_def has_labels_def i64_defs)
  have "pair_at (pm_run ?pm cs) (t @ '':'' @ ty) = (fst ?q + hits_of t ty cs, snd ?q + (records_of t ty cs - hits_of t ty cs))"
    using Cons.prems q by (intro Cons.IH) auto
  then show ?case using q c by (auto simp: hits_of_def records_of_def)
qed

text \<open>
  The cache ratio: recorded one after the other, the gauge of a tenant and a cache type is set to
  the hits among all records of that tenant and type so far, over their number, and no record of
  another tenant or type counts.
\<close>

theorem cache_ratio_exact:
  assumes "int (length cs) < 2 ^ 63 - 1" "cs' = cs @ [(ctx, key, hit)]"
    "t = pm_getTenantID ctx" "ty = cache_type key"
  shows "\<exists>calls. snd (pm_RecordCacheHit (pm_run (NewPrometheusMetrics ns sub) cs) ctx key hit) =
    Ok (calls @ [SetGauge ''cache_hit_ratio'' [t, ty] (of_int (hits_of t ty cs') / of_int (records_of t ty cs'))])"
proof -
  let ?pm = "pm_run (NewPrometheusMetrics ns sub) cs" and ?k = "t @ '':'' @ ty"
  have ty: "CHR '':'' \<notin> set ty" using assms(4) cache_type_no_colon by simp
  have p: "pair_at ?pm ?k = (hits_of t ty cs, records_of t ty cs - hits_of t ty cs)"
    using pm_run_pair [OF ty, of "NewPrometheusMetrics ns sub" t cs] assms(1)
    by (simp add: pair_at_def NewPrometheusMetrics_def NewPrometheusMetricsWithConfig_def)
  have le: "0 \<le> hits_of t ty cs" "hits_of t ty cs \<le> records_of t ty cs" "records_of t ty cs \<le> int (length cs)"
    by (auto simp: hits_of_def records_of_def filter_le_filter)
  have more: "hits_of t ty cs' = hits_of t ty cs + (if hit then 1 else 0)" "records_of t ty cs' = records_of t ty cs + 1"
    using assms(2-4) by (simp_all add: hits_of_def records_of_def has_labels_def)
  show ?thesis
    using p le more assms(1,3,4)
    by (simp add: pm_RecordCacheHit_def extractCacheType_split Let_def pair_add_def pair_total_def pair_ratio_def
        pair_at_def [symmetric] i64_defs)
qed

theorem cache_ratio_exact_witness:
  "\<exists>calls. snd (pm_RecordCacheHit (pm_run (NewPrometheusMetrics ''app'' ''db'') [(background, ''k:users:1'', False)])
      background ''k:users:2'' True) =
    Ok (calls @ [SetGauge ''cache_hit_ratio'' [pm_getTenantID background, cache_type ''k:users:2''] (1 / 2)])"
proof -
  have h: "hits_of (pm_getTenantID background) (cache_type ''k:users:2'')
      ([(background, ''k:users:1'', False)] @ [(background, ''k:users:2'', True)]) = 1"
    "records_of (pm_getTenantID background) (cache_type ''k:users:2'')
      ([(background, ''k:users:1'', False)] @ [(background, ''k:users:2'', True)]) = 2"
    by code_simp+
  show ?thesis
    using cache_ratio_exact [where cs = "[(background, ''k:users:1'', False)]" and ctx = background and
        key = "''k:users:2''" and hit = True and ns = "''app''" and sub = "''db''", OF _ refl refl refl]
    unfolding h by simp
qed

section \<open>Concurrent records\<close>

text \<open>
  Goroutines that record for the same tenant and type: each adds to the pair under its lock and takes
  the total, and later, without the lock, reads the hits again and sets the gauge.
\<close>

datatype recorder = Arrived bool | Added int | Recorded

record cache_race =
  cr_pair :: cache_pair
  cr_recorders :: "recorder list"
  cr_gauge :: "rat option"

inductive race_step :: "cache_race \<Rightarrow> cache_race \<Rightarrow> bool" where
  add: "i < length (cr_recorders s) \<Longrightarrow> cr_recorders s ! i = Arrived hit \<Longrightarrow>
    race_step s (s\<lparr>cr_pair := pair_add hit (cr_pair s),
      cr_recorders := (cr_recorders s)[i := Added (pair_total (pair_add hit (cr_pair s)))]\<rparr>)"
| set_gauge: "i < length (cr_recorders s) \<Longrightarrow> cr_recorders s ! i = Added n \<Longrightarrow>
    race_step s (s\<lparr>cr_gauge := Some (pair_ratio (fst (cr_pair s)) n),
      cr_recorders := (cr_recorders s)[i := Recorded]\<rparr>)"

definition race_start :: "bool list \<Rightarrow> cache_race" where
  "race_start hits = \<lparr>cr_pair = (0, 0), cr_recorders = map Arrived hits, cr_gauge = None\<rparr>"

text \<open>
  What holds in every interleaving of recorders of which \<open>N\<close> have a hit: the pair and those still to add
  make up all the records, a total once taken is positive, and the gauge is at most \<open>N\<close>.
\<close>

definition waiting :: "bool \<Rightarrow> cache_race \<Rightarrow> int" where
  "waiting hit s = int (length (filter (\<lambda>r. r = Arrived hit) (cr_recorders s)))"

definition race_ok :: "int \<Rightarrow> int \<Rightarrow> cache_race \<Rightarrow> bool" where
  "race_ok N M s \<longleftrightarrow>
     0 \<le> fst (cr_pair s) \<and> 0 \<le> snd (cr_pair s) \<and>
     fst (cr_pair s) + waiting True s = N \<and> snd (cr_pair s) + waiting False s = M \<and>
     (\<forall>n. Added n \<in> set (cr_recorders s) \<longrightarrow> 0 < n) \<and>
     (\<forall>g. cr_gauge s = Some g \<longrightarrow> 0 \<le> g \<and> g \<le> of_int N) \<and>
     (Recorded \<in> set (cr_recorders s) \<longrightarrow> cr_gauge s \<noteq> None)"

lemma filter_update:
  "i < length xs \<Longrightarrow> P (xs ! i) \<Longrightarrow> \<not> P y \<Longrightarrow> Suc (length (filter P (xs[i := y]))) = length (filter P xs)"
proof (induction xs arbitrary: i)
  case (Cons x xs)
  then show ?case by (cases i) auto
qed simp

lemma filter_update_same:
  "i < length xs \<Longrightarrow> \<not> P (xs ! i) \<Longrightarrow> \<not> P y \<Longrightarrow> length (filter P (xs[i := y])) = length (filter P xs)"
proof (induction xs arbitrary: i)
  case (Cons x xs)
  then show ?case by (cases i) auto
qed simp

lemma waiting_nonneg: "0 \<le> waiting hit s"
  by (simp add: waiting_def)

lemma waiting_update:
  assumes "i < length rs" "\<not> (\<exists>h. r = Arrived h)"
  shows "rs ! i = Arrived hit \<Longrightarrow> int (length (filter (\<lambda>r. r = Arrived hit) (rs[i := r]))) = int (length (filter (\<lambda>r. r = Arrived hit) rs)) - 1"
    "rs ! i \<noteq> Arrived hit \<Longrightarrow> int (length (filter (\<lambda>r. r = Arrived hit) (rs[i := r]))) = int (length (filter (\<lambda>r. r = Arrived hit) rs))"
  using assms filter_update [of i rs "\<lambda>r. r = Arrived hit" r] filter_update_same [of i rs "\<lambda>r. r = Arrived hit" r]
  by auto

lemma race_ok_step:
  assumes "race_step s s'" "race_ok N M s" "N + M < 2 ^ 63"
  shows "race_ok N M s'"
  using assms(1)
proof (cases rule: race_step.cases)
  case (add i hit)
  let ?p = "pair_add hit (cr_pair s)"
  have w: "0 < waiting hit s"
    using add nth_mem [of i "cr_recorders s"] by (auto simp: waiting_def filter_empty_conv)
  note wn = waiting_nonneg [of True s] waiting_nonneg [of False s]
  have b: "fst (cr_pair s) + snd (cr_pair s) < N + M" "0 \<le> fst (cr_pair s)" "0 \<le> snd (cr_pair s)"
    using assms(2) w wn by (cases hit; auto simp: race_ok_def)+
  then have p: "?p = (fst (cr_pair s) + (if hit then 1 else 0), snd (cr_pair s) + (if hit then 0 else 1))"
    using assms(3) by (simp add: pair_add_def i64_defs)
  then have t: "0 < pair_total ?p"
    using b assms(3) by (simp add: pair_total_def i64_defs)
  have "waiting h s' = waiting h s - (if h = hit then 1 else 0)" for h
    using add waiting_update [of i "cr_recorders s" "Added (pair_total ?p)" h] by (auto simp: waiting_def)
  then show ?thesis
    using add assms(2) b p t
    by (auto simp: race_ok_def dest!: set_update_subset_insert [THEN subsetD])
next
  case (set_gauge i n)
  then have "Added n \<in> set (cr_recorders s)" by (metis nth_mem)
  then have b: "0 < n" "0 \<le> fst (cr_pair s)" "fst (cr_pair s) \<le> N"
    using assms(2) waiting_nonneg [of True s] by (auto simp: race_ok_def)
  then have "1 \<le> (of_int n :: rat)" "(of_int (fst (cr_pair s)) :: rat) \<le> of_int N" "0 \<le> (of_int N :: rat)" by simp_all
  then have g: "0 \<le> pair_ratio (fst (cr_pair s)) n" "pair_ratio (fst (cr_pair s)) n \<le> of_int N"
    using b mult_left_mono [of 1 "of_int n :: rat" "of_int N"] by (simp_all add: pair_ratio_def divide_le_eq)
  have "waiting h s' = waiting h s" for h
    using set_gauge waiting_update(2) [of i "cr_recorders s" Recorded h] by (auto simp: waiting_def)
  then show ?thesis
    using set_gauge assms(2) g by (auto simp: race_ok_def dest!: set_update_subset_insert [THEN subsetD])
qed

lemma race_invariant:
  assumes "race_step\<^sup>*\<^sup>* (race_start hits) s" "int (length hits) < 2 ^ 63"
  shows "race_ok (int (count_list hits True)) (int (count_list hits False)) s \<and> length (cr_recorders s) = length hits"
  using assms(1)
proof (induction rule: rtranclp_induct)
  case base
  have "waiting h (race_start hits) = int (count_list hits h)" for h
    by (induction hits) (auto simp: waiting_def race_start_def)
  then show ?case by (auto simp: race_ok_def) (auto simp: race_start_def)
next
  case (step s s')
  have "count_list hits True + count_list hits False = length hits" by (induction hits) auto
  then show ?case
    using step race_ok_step [of s s'] assms(2) by (auto elim!: race_step.cases)
qed

text \<open>All add, and then all set the gauge.\<close>

lemma race_add_all:
  "\<exists>ns. race_step\<^sup>*\<^sup>* \<lparr>cr_pair = p, cr_recorders = rs @ map Arrived hs, cr_gauge = g\<rparr>
     \<lparr>cr_pair = foldl (\<lambda>p h. pair_add h p) p hs, cr_recorders = rs @ map Added ns, cr_gauge = g\<rparr>"
proof (induction hs arbitrary: p rs)
  case Nil
  show ?case by (intro exI [of _ "[]"]) simp
next
  case (Cons h hs)
  let ?n = "pair_total (pair_add h p)"
  obtain ns where "race_step\<^sup>*\<^sup>* \<lparr>cr_pair = pair_add h p, cr_recorders = (rs @ [Added ?n]) @ map Arrived hs, cr_gauge = g\<rparr>
      \<lparr>cr_pair = foldl (\<lambda>p h. pair_add h p) (pair_add h p) hs, cr_recorders = (rs @ [Added ?n]) @ map Added ns, cr_gauge = g\<rparr>"
    using Cons.IH by blast
  moreover have "race_step \<lparr>cr_pair = p, cr_recorders = rs @ map Arrived (h # hs), cr_gauge = g\<rparr>
      \<lparr>cr_pair = pair_add h p, cr_recorders = (rs @ [Added ?n]) @ map Arrived hs, cr_gauge = g\<rparr>"
    using race_step.add [of "length rs" "\<lparr>cr_pair = p, cr_recorders = rs @ map Arrived (h # hs), cr_gauge = g\<rparr>" h]
    by (simp add: nth_append list_update_append)
  ultimately show ?case
    by (intro exI [of _ "?n # ns"]) (auto intro: converse_rtranclp_into_rtranclp)
qed

lemma race_set_all:
  "\<exists>g'. race_step\<^sup>*\<^sup>* \<lparr>cr_pair = p, cr_recorders = rs @ map Added ns, cr_gauge = g\<rparr>
     \<lparr>cr_pair = p, cr_recorders = rs @ replicate (length ns) Recorded, cr_gauge = g'\<rparr>"
proof (induction ns arbitrary: rs g)
  case Nil
  show ?case by (intro exI [of _ g]) simp
next
  case (Cons n ns)
  let ?g = "Some (pair_ratio (fst p) n)"
  have "race_step \<lparr>cr_pair = p, cr_recorders = rs @ map Added (n # ns), cr_gauge = g\<rparr>
      \<lparr>cr_pair = p, cr_recorders = (rs @ [Recorded]) @ map Added ns, cr_gauge = ?g\<rparr>"
    using race_step.set_gauge [of "length rs" "\<lparr>cr_pair = p, cr_recorders = rs @ map Added (n # ns), cr_gauge = g\<rparr>" n]
    by (simp add: nth_append list_update_append)
  then show ?case
    using Cons.IH [of "rs @ [Recorded]" ?g] by (auto intro: converse_rtranclp_into_rtranclp)
qed

text \<open>The recorder that added first sets the gauge last.\<close>

lemma race_worst:
  assumes "hits = h # hs" "int (length hits) < 2 ^ 63"
  shows "\<exists>s. race_step\<^sup>*\<^sup>* (race_start hits) s \<and> set (cr_recorders s) = {Recorded} \<and>
    cr_gauge s = Some (of_int (int (count_list hits True)))"
proof -
  let ?p = "pair_add h (0, 0)"
  have n: "pair_total ?p = 1" by (simp add: pair_add_def pair_total_def i64_defs)
  have s1: "race_step (race_start hits) \<lparr>cr_pair = ?p, cr_recorders = [Added 1] @ map Arrived hs, cr_gauge = None\<rparr>"
    using race_step.add [of 0 "race_start hits" h] n by (simp add: race_start_def assms(1))
  obtain ns where s2: "race_step\<^sup>*\<^sup>* \<lparr>cr_pair = ?p, cr_recorders = [Added 1] @ map Arrived hs, cr_gauge = None\<rparr>
      \<lparr>cr_pair = foldl (\<lambda>p h. pair_add h p) ?p hs, cr_recorders = [Added 1] @ map Added ns, cr_gauge = None\<rparr>"
    using race_add_all by blast
  let ?q = "foldl (\<lambda>p h. pair_add h p) ?p hs"
  obtain g where s3: "race_step\<^sup>*\<^sup>* \<lparr>cr_pair = ?q, cr_recorders = [Added 1] @ map Added ns, cr_gauge = None\<rparr>
      \<lparr>cr_pair = ?q, cr_recorders = [Added 1] @ replicate (length ns) Recorded, cr_gauge = g\<rparr>"
    using race_set_all by blast
  let ?s = "\<lparr>cr_pair = ?q, cr_recorders = Recorded # replicate (length ns) Recorded, cr_gauge = Some (pair_ratio (fst ?q) 1)\<rparr>"
  have "race_step \<lparr>cr_pair = ?q, cr_recorders = [Added 1] @ replicate (length ns) Recorded, cr_gauge = g\<rparr> ?s"
    using race_step.set_gauge [of 0 "\<lparr>cr_pair = ?q, cr_recorders = [Added 1] @ replicate (length ns) Recorded, cr_gauge = g\<rparr>" 1]
    by simp
  then have r: "race_step\<^sup>*\<^sup>* (race_start hits) ?s"
    using s1 s2 s3 by (meson converse_rtranclp_into_rtranclp rtranclp.rtrancl_into_rtrancl rtranclp_trans)
  have "fst ?q = int (count_list hits True)"
    using race_invariant [OF r assms(2)] by (auto simp: race_ok_def waiting_def filter_replicate)
  then show ?thesis
    using r by (intro exI [of _ ?s]) (auto simp: pair_ratio_def set_replicate_conv_if)
qed

text \<open>
  C35. The cache ratio under concurrency, for any number of goroutines that record hits and misses of
  one tenant and cache type, in any interleaving: no record is lost, the pair ends as the number of
  hits and of misses. The gauge ends between 0 and the number of hits, and no better bound holds: for
  every list of records there is an interleaving that leaves it at the number of hits, since the hits are
  read after the lock is released and the total is from before. With two hits it is no ratio.
\<close>

theorem cache_ratio_race:
  assumes "int (length hits) < 2 ^ 63" "hits \<noteq> []"
  shows "(\<forall>s. race_step\<^sup>*\<^sup>* (race_start hits) s \<longrightarrow> set (cr_recorders s) = {Recorded} \<longrightarrow>
      cr_pair s = (int (count_list hits True), int (count_list hits False)) \<and>
      (\<exists>g. cr_gauge s = Some g \<and> 0 \<le> g \<and> g \<le> of_int (int (count_list hits True)))) \<and>
    (\<exists>s. race_step\<^sup>*\<^sup>* (race_start hits) s \<and> set (cr_recorders s) = {Recorded} \<and>
      cr_gauge s = Some (of_int (int (count_list hits True))))"
proof -
  have "cr_pair s = (int (count_list hits True), int (count_list hits False)) \<and>
      (\<exists>g. cr_gauge s = Some g \<and> 0 \<le> g \<and> g \<le> of_int (int (count_list hits True)))"
    if "race_step\<^sup>*\<^sup>* (race_start hits) s" "set (cr_recorders s) = {Recorded}" for s
  proof -
    have "waiting h s = 0" for h using that(2) by (auto simp: waiting_def filter_empty_conv)
    then show ?thesis
      using race_invariant [OF that(1) assms(1)] that(2) by (cases "cr_pair s") (auto simp: race_ok_def)
  qed
  moreover obtain h hs where "hits = h # hs" using assms(2) by (cases hits) auto
  ultimately show ?thesis using race_worst assms(1) by blast
qed

lemma cache_ratio_race_witness:
  "\<exists>s. race_step\<^sup>*\<^sup>* (race_start [True, False, True, True]) s \<and> set (cr_recorders s) = {Recorded} \<and> cr_gauge s = Some 3"
  using cache_ratio_race [of "[True, False, True, True]"] by simp

section \<open>The tenant of a metric\<close>

text \<open>
  The metrics do not know the library's own tenants: whatever tenant is put into a context, by
  the domain or by \<^verbatim>\<open>WithTenant\<close>, the label of the tenant is what it was before, unknown in a context
  without a value under the plain key.
\<close>

theorem metrics_tenant_unknown:
  "pm_getTenantID (ToGoContext tc ctx) = pm_getTenantID ctx \<and>
   pm_getTenantID (Tenant_Context.WithTenant ctx t) = pm_getTenantID ctx \<and> pm_getTenantID background = ''unknown''"
  by (auto simp: pm_getTenantID_def ToGoContext_def WithTenant_def WithValue_def TenantContextKey_def tenantIDKey_def
      background_def)

end
