(* ===== verification/Gorm_Adapter.thy ===== *)
theory Gorm_Adapter
  imports Tenant_Domain
begin

text \<open>
  adapters/gorm: the plugin that scopes GORM's operations to the tenant of the context (plugin.go),
  the scopes (scopes.go) and the migration helpers (callbacks.go). GORM itself is not modelled: a
  \<^verbatim>\<open>*gorm.DB\<close> is a record of what the plugin reads and writes of it, \<open>set_column\<close> is
  \<^verbatim>\<open>Statement.SetColumn\<close>, and a migration works on a record of GORM's operations.
\<close>

section \<open>What the plugin sees of GORM\<close>

text \<open>
  The value an operation works on, as reflection shows it; a field, promoted ones included, has its name,
  whether it can be set and, if it is a string, its value.
\<close>

datatype go_field = StringField bool string | OtherField bool

datatype reflect_value =
    RStruct "(string \<times> go_field) list"
  | RPtr "reflect_value option"
  | RSlice "reflect_value list"
  | ROther

datatype setting = SettingBool bool | SettingOther

record gorm_db =
  gd_Context :: "go_ctx option"
  gd_Settings :: "string \<rightharpoonup> setting"
  gd_Table :: string
  gd_Where :: "(string \<times> string) list"
  gd_Value :: reflect_value
  gd_Errors :: "go_error list"

definition AddError :: "gorm_db \<Rightarrow> go_error \<Rightarrow> gorm_db" where
  "AddError db e = db\<lparr>gd_Errors := gd_Errors db @ [e]\<rparr>"

definition stmt_Where :: "gorm_db \<Rightarrow> string \<Rightarrow> string \<Rightarrow> gorm_db" where
  "stmt_Where db cond arg = db\<lparr>gd_Where := gd_Where db @ [(cond, arg)]\<rparr>"

section \<open>The plugin (plugin.go)\<close>

record plugin_config =
  pcf_TenantColumn :: string
  pcf_SkipTables :: "string list"

record tenant_plugin =
  tp_tenantColumn :: string
  tp_skipTables :: "string list"

definition NewTenantPlugin :: "plugin_config option \<Rightarrow> tenant_plugin" where
  "NewTenantPlugin config =
     (let config = (case config of None \<Rightarrow> \<lparr>pcf_TenantColumn = [], pcf_SkipTables = []\<rparr> | Some c \<Rightarrow> c)
      in \<lparr>tp_tenantColumn = (if pcf_TenantColumn config = [] then ''tenant_id'' else pcf_TenantColumn config),
          tp_skipTables = pcf_SkipTables config\<rparr>)"

definition gorm_Name :: string where
  "gorm_Name = ''tenantkit:gorm''"

definition gorm_getTenantID :: "go_ctx option \<Rightarrow> string res" where
  "gorm_getTenantID ctx =
     (case ctx of
        None \<Rightarrow> Err (NewErr ''context is nil'')
      | Some _ \<Rightarrow> res_bind (FromGoContext ctx) (\<lambda>tc. Ok (tid_value (dc_tenantID tc))))"

text \<open>A setting that is no bool fails the type assertion, which is a panic.\<close>

definition gorm_shouldSkip :: "tenant_plugin \<Rightarrow> gorm_db \<Rightarrow> bool res" where
  "gorm_shouldSkip p db =
     (case gd_Settings db ''tenantkit:skip'' of
        Some SettingOther \<Rightarrow> Panic
      | Some (SettingBool True) \<Rightarrow> Ok True
      | _ \<Rightarrow> Ok (gd_Table db \<in> set (tp_skipTables p)))"

text \<open>
  The tenant of one element of a batch: only a field called \<^verbatim>\<open>TenantID\<close> that can be set; setting a
  field that is no string is a panic.
\<close>

definition set_tenant_field :: "string \<Rightarrow> (string \<times> go_field) list \<Rightarrow> (string \<times> go_field) list res" where
  "set_tenant_field tenantID fs =
     (case map_of fs ''TenantID'' of
        Some (StringField True _) \<Rightarrow> Ok (AList.update ''TenantID'' (StringField True tenantID) fs)
      | Some (OtherField True) \<Rightarrow> Panic
      | _ \<Rightarrow> Ok fs)"

definition set_tenant_item :: "string \<Rightarrow> reflect_value \<Rightarrow> reflect_value res" where
  "set_tenant_item tenantID item =
     (case item of
        RStruct fs \<Rightarrow> res_bind (set_tenant_field tenantID fs) (\<lambda>fs. Ok (RStruct fs))
      | RPtr (Some (RStruct fs)) \<Rightarrow> res_bind (set_tenant_field tenantID fs) (\<lambda>fs. Ok (RPtr (Some (RStruct fs))))
      | _ \<Rightarrow> Ok item)"

fun set_tenant_items :: "string \<Rightarrow> reflect_value list \<Rightarrow> reflect_value list res" where
  "set_tenant_items tenantID [] = Ok []"
| "set_tenant_items tenantID (item # items) =
     res_bind (set_tenant_item tenantID item) (\<lambda>x.
     res_bind (set_tenant_items tenantID items) (\<lambda>xs. Ok (x # xs)))"

definition beforeCreate ::
  "(string \<Rightarrow> string \<Rightarrow> gorm_db \<Rightarrow> gorm_db res) \<Rightarrow> tenant_plugin \<Rightarrow> gorm_db \<Rightarrow> gorm_db res" where
  "beforeCreate set_column p db =
     res_bind (gorm_shouldSkip p db) (\<lambda>skip.
       if skip then Ok db
       else case gorm_getTenantID (gd_Context db) of
         Err e \<Rightarrow> Ok (AddError db (WrapErr ''tenant context required for create: '' e []))
       | Panic \<Rightarrow> Panic
       | Ok tenantID \<Rightarrow>
           (case gd_Value db of
              RSlice items \<Rightarrow> res_bind (set_tenant_items tenantID items) (\<lambda>items. Ok (db\<lparr>gd_Value := RSlice items\<rparr>))
            | RStruct _ \<Rightarrow> set_column (tp_tenantColumn p) tenantID db
            | RPtr (Some (RStruct _)) \<Rightarrow> set_column (tp_tenantColumn p) tenantID db
            | _ \<Rightarrow> Ok db))"

text \<open>The callbacks of the other three operations differ in the word of the error.\<close>

definition before_scoped :: "string \<Rightarrow> tenant_plugin \<Rightarrow> gorm_db \<Rightarrow> gorm_db res" where
  "before_scoped what p db =
     res_bind (gorm_shouldSkip p db) (\<lambda>skip.
       if skip then Ok db
       else case gorm_getTenantID (gd_Context db) of
         Err e \<Rightarrow> Ok (AddError db (WrapErr (''tenant context required for '' @ what @ '': '') e []))
       | Panic \<Rightarrow> Panic
       | Ok tenantID \<Rightarrow> Ok (stmt_Where db (tp_tenantColumn p @ '' = ?'') tenantID))"

definition beforeQuery :: "tenant_plugin \<Rightarrow> gorm_db \<Rightarrow> gorm_db res" where
  "beforeQuery = before_scoped ''query''"

definition beforeUpdate :: "tenant_plugin \<Rightarrow> gorm_db \<Rightarrow> gorm_db res" where
  "beforeUpdate = before_scoped ''update''"

definition beforeDelete :: "tenant_plugin \<Rightarrow> gorm_db \<Rightarrow> gorm_db res" where
  "beforeDelete = before_scoped ''delete''"

text \<open>Registering: the processor, the callback it goes before, and the name; the first error ends it.\<close>

definition Initialize ::
  "(string \<Rightarrow> string \<Rightarrow> string \<Rightarrow> 'd \<Rightarrow> 'd \<times> unit res) \<Rightarrow> 'd \<Rightarrow> 'd \<times> unit res" where
  "Initialize register d =
     (case register ''create'' ''gorm:create'' ''tenantkit:before_create'' d of
        (d, Err e) \<Rightarrow> (d, Err (WrapErr ''failed to register create callbacks: '' e []))
      | (d, Panic) \<Rightarrow> (d, Panic)
      | (d, Ok _) \<Rightarrow>
     (case register ''query'' ''gorm:query'' ''tenantkit:before_query'' d of
        (d, Err e) \<Rightarrow> (d, Err (WrapErr ''failed to register query callbacks: '' e []))
      | (d, Panic) \<Rightarrow> (d, Panic)
      | (d, Ok _) \<Rightarrow>
     (case register ''update'' ''gorm:update'' ''tenantkit:before_update'' d of
        (d, Err e) \<Rightarrow> (d, Err (WrapErr ''failed to register update callbacks: '' e []))
      | (d, Panic) \<Rightarrow> (d, Panic)
      | (d, Ok _) \<Rightarrow>
     (case register ''delete'' ''gorm:delete'' ''tenantkit:before_delete'' d of
        (d, Err e) \<Rightarrow> (d, Err (WrapErr ''failed to register delete callbacks: '' e []))
      | (d, Panic) \<Rightarrow> (d, Panic)
      | (d, Ok _) \<Rightarrow> (d, Ok ())))))"

section \<open>Scopes (scopes.go)\<close>

definition gorm_SkipTenant :: "gorm_db \<Rightarrow> gorm_db" where
  "gorm_SkipTenant db = db\<lparr>gd_Settings := (gd_Settings db)(''tenantkit:skip'' \<mapsto> SettingBool True)\<rparr>"

definition AllTenants :: "gorm_db \<Rightarrow> gorm_db" where
  "AllTenants db = gorm_SkipTenant db"

definition TenantOnly :: "gorm_db \<Rightarrow> gorm_db" where
  "TenantOnly db = db"

text \<open>\<^verbatim>\<open>ToGoContext\<close> of a nil context is a panic, so that the check for nil after it never applies.\<close>

definition gorm_with_ctx :: "dcontext \<Rightarrow> gorm_db \<Rightarrow> gorm_db res" where
  "gorm_with_ctx tc db =
     (case gd_Context db of
        None \<Rightarrow> Panic
      | Some ctx \<Rightarrow> Ok (db\<lparr>gd_Context := Some (ToGoContext tc ctx)\<rparr>))"

definition gorm_WithTenant :: "string \<Rightarrow> int \<Rightarrow> gorm_db \<Rightarrow> gorm_db res" where
  "gorm_WithTenant tenantID now db =
     (case NewTenantID tenantID of
        Err e \<Rightarrow> Ok (AddError db e)
      | Panic \<Rightarrow> Panic
      | Ok tid \<Rightarrow>
     (case NewContext tenantID ''system'' ''explicit-scope'' now of
        Err e \<Rightarrow> Ok (AddError db e)
      | Panic \<Rightarrow> Panic
      | Ok tc \<Rightarrow> res_bind (gorm_with_ctx tc db) (\<lambda>db. Ok (stmt_Where db ''tenant_id = ?'' (tid_value tid)))))"

definition ForTenant :: "tenant_id \<Rightarrow> int \<Rightarrow> gorm_db \<Rightarrow> gorm_db res" where
  "ForTenant tid now db = gorm_WithTenant (tid_value tid) now db"

definition gorm_WithContext :: "gorm_db \<Rightarrow> dcontext \<Rightarrow> gorm_db res" where
  "gorm_WithContext db tc = gorm_with_ctx tc db"

section \<open>Migration helpers (callbacks.go)\<close>

text \<open>What a migration uses of GORM, on the state \<open>'d\<close> of the database; \<open>'m\<close> is a model.\<close>

record ('d, 'm) migrator =
  mg_HasColumn :: "'d \<Rightarrow> string \<Rightarrow> string \<Rightarrow> bool"
  mg_Exec :: "'d \<Rightarrow> string \<Rightarrow> 'd \<times> unit res"
  mg_Parse :: "'m \<Rightarrow> string res"
  mg_AutoMigrate :: "'d \<Rightarrow> 'm list \<Rightarrow> 'd \<times> unit res"

definition NewCallbackHelper :: "string \<Rightarrow> string" where
  "NewCallbackHelper tenantColumn = (if tenantColumn = [] then ''tenant_id'' else tenantColumn)"

definition EnsureTenantColumn :: "('d, 'm) migrator \<Rightarrow> string \<Rightarrow> 'd \<Rightarrow> string \<Rightarrow> string \<Rightarrow> 'd \<times> unit res" where
  "EnsureTenantColumn m tenantColumn d tableName columnType =
     (let columnType = (if columnType = [] then ''VARCHAR(255)'' else columnType)
      in if mg_HasColumn m d tableName tenantColumn then (d, Ok ())
         else mg_Exec m d (''ALTER TABLE '' @ tableName @ '' ADD COLUMN '' @ tenantColumn @ '' '' @ columnType))"

definition AddTenantIndex :: "('d, 'm) migrator \<Rightarrow> string \<Rightarrow> 'd \<Rightarrow> string \<Rightarrow> 'd \<times> unit res" where
  "AddTenantIndex m tenantColumn d tableName =
     mg_Exec m d (''CREATE INDEX IF NOT EXISTS idx_'' @ tableName @ ''_tenant_id ON '' @ tableName
       @ ''('' @ tenantColumn @ '')'')"

fun MigrateTenantColumn :: "('d, 'm) migrator \<Rightarrow> string \<Rightarrow> 'd \<Rightarrow> 'm list \<Rightarrow> 'd \<times> unit res" where
  "MigrateTenantColumn m tenantColumn d [] = (d, Ok ())"
| "MigrateTenantColumn m tenantColumn d (model # models) =
     (case mg_Parse m model of
        Err e \<Rightarrow> (d, Err (WrapErr ''failed to parse model: '' e []))
      | Panic \<Rightarrow> (d, Panic)
      | Ok tableName \<Rightarrow>
     (case EnsureTenantColumn m tenantColumn d tableName ''VARCHAR(255) NOT NULL'' of
        (d, Err e) \<Rightarrow> (d, Err (WrapErr (''failed to ensure tenant column for '' @ tableName @ '': '') e []))
      | (d, Panic) \<Rightarrow> (d, Panic)
      | (d, Ok _) \<Rightarrow>
     (case AddTenantIndex m tenantColumn d tableName of
        (d, Err e) \<Rightarrow> (d, Err (WrapErr (''failed to add tenant index for '' @ tableName @ '': '') e []))
      | (d, Panic) \<Rightarrow> (d, Panic)
      | (d, Ok _) \<Rightarrow> MigrateTenantColumn m tenantColumn d models)))"

definition gorm_AutoMigrate :: "('d, 'm) migrator \<Rightarrow> 'd \<Rightarrow> 'm list \<Rightarrow> 'd \<times> unit res" where
  "gorm_AutoMigrate m d models =
     (case mg_AutoMigrate m d models of
        (d, Err e) \<Rightarrow> (d, Err e)
      | (d, Panic) \<Rightarrow> (d, Panic)
      | (d, Ok _) \<Rightarrow> MigrateTenantColumn m (NewCallbackHelper ''tenant_id'') d models)"

text \<open>
  \<open>session\<close> is GORM's \<^verbatim>\<open>Session\<close> with the option \<^verbatim>\<open>SkipHooks\<close>, \<open>scopes\<close> its \<^verbatim>\<open>Scopes\<close>, which
  runs a scope when the operation is run.
\<close>

definition WithoutTenantCallbacks ::
  "(gorm_db \<Rightarrow> gorm_db) \<Rightarrow> ((gorm_db \<Rightarrow> gorm_db) \<Rightarrow> gorm_db \<Rightarrow> gorm_db) \<Rightarrow> gorm_db \<Rightarrow> gorm_db" where
  "WithoutTenantCallbacks session scopes db = scopes gorm_SkipTenant (session db)"

definition CleanCallbackName :: "string \<Rightarrow> string \<Rightarrow> string" where
  "CleanCallbackName prefix operation = prefix @ '':'' @ operation"

section \<open>Scoped operations\<close>

lemma gorm_getTenantID_Ok: "gorm_getTenantID ctx = Ok t \<longleftrightarrow> (\<exists>tc. FromGoContext ctx = Ok tc \<and> tid_value (dc_tenantID tc) = t)"
  by (cases ctx) (auto simp: gorm_getTenantID_def res_bind_Ok_iff FromGoContext_Ok_iff)

lemma gorm_getTenantID_safe: "gorm_getTenantID ctx \<noteq> Panic"
  by (auto simp: gorm_getTenantID_def FromGoContext_def split: option.split ctx_val.split)

definition not_skipped :: "tenant_plugin \<Rightarrow> gorm_db \<Rightarrow> bool" where
  "not_skipped p db \<longleftrightarrow>
     gd_Settings db ''tenantkit:skip'' \<in> {None, Some (SettingBool False)} \<and> gd_Table db \<notin> set (tp_skipTables p)"

lemma not_skipped_shouldSkip: "not_skipped p db \<Longrightarrow> gorm_shouldSkip p db = Ok False"
  by (auto simp: not_skipped_def gorm_shouldSkip_def)

text \<open>
  C36. GORM's operations are scoped: a query, update or delete of a table that is not skipped gets the
  condition of the tenant column with the tenant of the context as its argument, after the conditions
  it has, or, without a tenant, an error and no condition; a create without a tenant gets the error too.
\<close>

theorem gorm_scoped:
  assumes "not_skipped p db" "op \<in> {beforeQuery p, beforeUpdate p, beforeDelete p}"
  shows "case gorm_getTenantID (gd_Context db) of
      Ok t \<Rightarrow> op db = Ok (db\<lparr>gd_Where := gd_Where db @ [(tp_tenantColumn p @ '' = ?'', t)]\<rparr>)
    | _ \<Rightarrow> (\<exists>e. op db = Ok (db\<lparr>gd_Errors := gd_Errors db @ [e]\<rparr>)) \<and>
        (\<exists>e. beforeCreate set_column p db = Ok (db\<lparr>gd_Errors := gd_Errors db @ [e]\<rparr>))"
  using assms(2) not_skipped_shouldSkip [OF assms(1)] gorm_getTenantID_safe [of "gd_Context db"]
  by (auto simp: beforeQuery_def beforeUpdate_def beforeDelete_def before_scoped_def beforeCreate_def
      stmt_Where_def AddError_def split: res.split)

text \<open>Once the scope of such a session has run, the plugin leaves every operation alone.\<close>

lemma WithoutTenantCallbacks_unscoped:
  assumes "WithoutTenantCallbacks session (\<lambda>scope db. scope db) db = db'" "op \<in> {beforeQuery p, beforeUpdate p, beforeDelete p, beforeCreate set_column p}"
  shows "op db' = Ok db'"
proof -
  have "gorm_shouldSkip p db' = Ok True"
    using assms(1) by (auto simp: WithoutTenantCallbacks_def gorm_SkipTenant_def gorm_shouldSkip_def)
  then show ?thesis
    using assms(2) by (auto simp: beforeQuery_def beforeUpdate_def beforeDelete_def before_scoped_def beforeCreate_def)
qed

text \<open>The value of the tenant field of an element of a batch, if it has one.\<close>

fun item_fields :: "reflect_value \<Rightarrow> (string \<times> go_field) list option" where
  "item_fields (RStruct fs) = Some fs"
| "item_fields (RPtr (Some (RStruct fs))) = Some fs"
| "item_fields _ = None"

lemma set_tenant_field_cases:
  assumes "set_tenant_field t fs = Ok fs'"
  shows "(\<exists>v. map_of fs ''TenantID'' = Some (StringField True v)) \<and> map_of fs' ''TenantID'' = Some (StringField True t) \<and>
      (\<forall>f. f \<noteq> ''TenantID'' \<longrightarrow> map_of fs' f = map_of fs f) \<or>
    (\<nexists>v. map_of fs ''TenantID'' = Some (StringField True v)) \<and> fs' = fs"
  using assms
  by (auto simp: set_tenant_field_def map_of_AList_update split: option.splits go_field.splits bool.splits)

definition item_scoped :: "string \<Rightarrow> reflect_value \<Rightarrow> reflect_value \<Rightarrow> bool" where
  "item_scoped t item item' \<longleftrightarrow>
     (case (item_fields item, item_fields item') of
        (Some fs, Some fs') \<Rightarrow>
          if \<exists>v. map_of fs ''TenantID'' = Some (StringField True v)
          then map_of fs' ''TenantID'' = Some (StringField True t) \<and> (\<forall>f. f \<noteq> ''TenantID'' \<longrightarrow> map_of fs' f = map_of fs f)
          else fs' = fs
      | _ \<Rightarrow> item' = item)"

lemma set_tenant_item_scoped: "set_tenant_item t item = Ok item' \<Longrightarrow> item_scoped t item item'"
  by (cases item rule: item_fields.cases)
    (auto simp: set_tenant_item_def res_bind_Ok_iff item_scoped_def dest: set_tenant_field_cases)

lemma set_tenant_items_scoped: "set_tenant_items t items = Ok items' \<Longrightarrow> list_all2 (item_scoped t) items items'"
  by (induction items arbitrary: items') (auto simp: res_bind_Ok_iff dest: set_tenant_item_scoped)

text \<open>
  A batch is created for the tenant, as far as the plugin sees its fields: of every element that is
  a struct, or a pointer to one, with a string field TenantID that can be set, that field becomes the
  tenant of the context, whatever it was, and nothing else changes; an element without such a field is
  created as it is, with no error, whatever the configured column.
\<close>

theorem gorm_batch_scoped:
  assumes "not_skipped p db" "gd_Value db = RSlice items" "gorm_getTenantID (gd_Context db) = Ok t"
    "beforeCreate set_column p db = Ok db'"
  shows "\<exists>items'. gd_Value db' = RSlice items' \<and> list_all2 (item_scoped t) items items' \<and> gd_Errors db' = gd_Errors db"
  using assms not_skipped_shouldSkip [OF assms(1)]
  by (auto simp: beforeCreate_def res_bind_Ok_iff dest: set_tenant_items_scoped)

definition users_db :: gorm_db where
  "users_db = \<lparr>gd_Context = Some (ToGoContext \<lparr>dc_tenantID = \<lparr>tid_value = ''acme''\<rparr>, dc_userID = ''u'', dc_requestID = ''r'',
       dc_timestamp = 0\<rparr> background),
     gd_Settings = Map.empty, gd_Table = ''users'', gd_Where = [(''id = ?'', ''7'')],
     gd_Value = RSlice [RStruct [(''TenantID'', StringField True ''evil'')], RStruct [(''OrgID'', StringField True ''evil'')]],
     gd_Errors = []\<rparr>"

lemma users_db: "not_skipped (NewTenantPlugin None) users_db" "gorm_getTenantID (gd_Context users_db) = Ok ''acme''"
  by (simp_all add: not_skipped_def NewTenantPlugin_def users_db_def gorm_getTenantID_Ok ToGoContext_def WithValue_def
      FromGoContext_def)

theorem gorm_scoped_witness:
  "beforeDelete (NewTenantPlugin None) users_db =
     Ok (users_db\<lparr>gd_Where := gd_Where users_db @ [(''tenant_id'' @ '' = ?'', ''acme'')]\<rparr>)"
  using gorm_scoped [OF users_db(1), of "beforeDelete (NewTenantPlugin None)"] users_db(2)
  by (simp add: NewTenantPlugin_def)

theorem gorm_batch_scoped_witness:
  "\<exists>db' items'. beforeCreate (\<lambda>c t db. Ok db) (NewTenantPlugin None) users_db = Ok db' \<and> gd_Value db' = RSlice items' \<and>
     list_all2 (item_scoped ''acme'') [RStruct [(''TenantID'', StringField True ''evil'')], RStruct [(''OrgID'', StringField True ''evil'')]] items'"
proof -
  have "case beforeCreate (\<lambda>c t db. Ok db) (NewTenantPlugin None) users_db of Ok _ \<Rightarrow> True | _ \<Rightarrow> False"
    by code_simp
  then obtain db' where c: "beforeCreate (\<lambda>c t db. Ok db) (NewTenantPlugin None) users_db = Ok db'"
    by (cases "beforeCreate (\<lambda>c t db. Ok db) (NewTenantPlugin None) users_db") auto
  from gorm_batch_scoped [OF users_db(1) _ users_db(2) c] c show ?thesis by (auto simp: users_db_def)
qed

end
