(* ===== verification/Postgres_RLS.thy ===== *)
theory Postgres_RLS
  imports Tenant_Domain
begin

text \<open>
  adapters/postgres/rls.go: row level security of PostgreSQL. The statements are built as text, so
  what the server reads in them matters: a reader of its string literals and identifiers is part of
  this theory. The connection is a parameter, \<open>exec\<close>, which takes a statement to its error, with
  the code of PostgreSQL if it has one.
\<close>

section \<open>The manager\<close>

record rls_config =
  rls_TenantIDColumn :: string
  rls_RLSPolicyName :: string

record rls_manager =
  rm_config :: rls_config
  rm_policies :: "string list"

definition NewRLSManager :: "rls_config \<Rightarrow> rls_manager" where
  "NewRLSManager config =
     (let config = (if rls_TenantIDColumn config = [] then config\<lparr>rls_TenantIDColumn := ''tenant_id''\<rparr> else config);
          config = (if rls_RLSPolicyName config = [] then config\<lparr>rls_RLSPolicyName := ''tenant_rls''\<rparr> else config)
      in \<lparr>rm_config = config, rm_policies = []\<rparr>)"

datatype pg_error = PgError string go_error | PlainError go_error

fun pg_cause :: "pg_error \<Rightarrow> go_error" where
  "pg_cause (PgError pg_code e) = e"
| "pg_cause (PlainError e) = e"

text \<open>A connection: the state of the server, changed by a statement.\<close>

type_synonym 'd pg_exec = "'d \<Rightarrow> string \<Rightarrow> 'd \<times> pg_error option"

section \<open>Statements\<close>

definition quoted :: "string \<Rightarrow> string" where
  "quoted s = [CHR 0x27] @ s @ [CHR 0x27]"

definition enable_sql :: "string \<Rightarrow> string" where
  "enable_sql tableName = ''ALTER TABLE '' @ tableName @ '' ENABLE ROW LEVEL SECURITY;''"

definition force_sql :: "string \<Rightarrow> string" where
  "force_sql tableName = ''ALTER TABLE '' @ tableName @ '' FORCE ROW LEVEL SECURITY;''"

definition policy_sql :: "rls_config \<Rightarrow> string \<Rightarrow> string \<Rightarrow> string" where
  "policy_sql config policyName tableName =
     newline_tabs 2 @ ''CREATE POLICY '' @ policyName @ '' ON '' @ tableName
     @ newline_tabs 2 @ ''USING ('' @ rls_TenantIDColumn config @ '' = current_setting('' @ quoted ''app.current_tenant_id'' @ '', true))''
     @ newline_tabs 2 @ ''WITH CHECK ('' @ rls_TenantIDColumn config @ '' = current_setting('' @ quoted ''app.current_tenant_id'' @ '', true));''
     @ newline_tabs 1"

definition tenant_sql :: "string \<Rightarrow> string" where
  "tenant_sql tenantID =
     ''SELECT set_config('' @ quoted ''app.current_tenant_id'' @ '', '' @ quoted tenantID @ '', false);''"

definition partition_sql :: "string \<Rightarrow> string \<Rightarrow> string" where
  "partition_sql baseTable tenantID =
     newline_tabs 2 @ ''CREATE TABLE '' @ (baseTable @ ''_'' @ tenantID) @ '' PARTITION OF '' @ baseTable
     @ newline_tabs 2 @ ''FOR VALUES IN ('' @ quoted tenantID @ '');'' @ newline_tabs 1"

section \<open>Operations\<close>

definition EnableRLS :: "'d pg_exec \<Rightarrow> 'd \<Rightarrow> string \<Rightarrow> 'd \<times> unit res" where
  "EnableRLS exec d tableName =
     (case exec d (enable_sql tableName) of
        (d, Some e) \<Rightarrow> (d, Err (WrapErr (''failed to enable RLS on table '' @ tableName @ '': '') (pg_cause e) []))
      | (d, None) \<Rightarrow> (d, Ok ()))"

definition ForceRLS :: "'d pg_exec \<Rightarrow> 'd \<Rightarrow> string \<Rightarrow> 'd \<times> unit res" where
  "ForceRLS exec d tableName =
     (case exec d (force_sql tableName) of
        (d, Some e) \<Rightarrow> (d, Err (WrapErr (''failed to force RLS on table '' @ tableName @ '': '') (pg_cause e) []))
      | (d, None) \<Rightarrow> (d, Ok ()))"

definition CreateTenantPolicy :: "'d pg_exec \<Rightarrow> rls_manager \<Rightarrow> 'd \<Rightarrow> string \<Rightarrow> rls_manager \<times> 'd \<times> unit res" where
  "CreateTenantPolicy exec r d tableName =
     (let policyName = rls_RLSPolicyName (rm_config r) @ ''_'' @ tableName;
          installed = r\<lparr>rm_policies := List.insert policyName (rm_policies r)\<rparr>
      in case exec d (policy_sql (rm_config r) policyName tableName) of
           (d, None) \<Rightarrow> (installed, d, Ok ())
         | (d, Some (PgError pg_code e)) \<Rightarrow>
             if pg_code = ''42710'' then (installed, d, Ok ())
             else (r, d, Err (WrapErr (''failed to create RLS policy on table '' @ tableName @ '': '') e []))
         | (d, Some (PlainError e)) \<Rightarrow>
             (r, d, Err (WrapErr (''failed to create RLS policy on table '' @ tableName @ '': '') e [])))"

definition SetTenantContext :: "'d pg_exec \<Rightarrow> 'd \<Rightarrow> string \<Rightarrow> 'd \<times> unit res" where
  "SetTenantContext exec d tenantID =
     (case exec d (tenant_sql tenantID) of
        (d, Some e) \<Rightarrow> (d, Err (WrapErr ''failed to set tenant context: '' (pg_cause e) []))
      | (d, None) \<Rightarrow> (d, Ok ()))"

definition CreatePartition :: "'d pg_exec \<Rightarrow> 'd \<Rightarrow> string \<Rightarrow> string \<Rightarrow> 'd \<times> unit res" where
  "CreatePartition exec d baseTable tenantID =
     (let failed = (\<lambda>e. Err (WrapErr (''failed to create partition '' @ (baseTable @ ''_'' @ tenantID) @ '': '') e []))
      in case exec d (partition_sql baseTable tenantID) of
           (d, None) \<Rightarrow> (d, Ok ())
         | (d, Some (PgError pg_code e)) \<Rightarrow> (d, if pg_code = ''42710'' then Ok () else failed e)
         | (d, Some (PlainError e)) \<Rightarrow> (d, failed e))"

text \<open>\<open>query\<close> is the row or rows a statement reads.\<close>

definition rls_VerifyTenantIsolation :: "(string \<Rightarrow> bool res) \<Rightarrow> string \<Rightarrow> bool res" where
  "rls_VerifyTenantIsolation query tableName =
     (case query (newline_tabs 2 @ ''SELECT relrowsecurity FROM pg_class'' @ newline_tabs 2
              @ ''WHERE relname = '' @ quoted tableName @ '';'' @ newline_tabs 1) of
        Err e \<Rightarrow> Err (WrapErr ''failed to verify RLS status: '' e [])
      | x \<Rightarrow> x)"

definition scan_policy :: "string res \<Rightarrow> string res" where
  "scan_policy row = (case row of Err e \<Rightarrow> Err (WrapErr ''failed to scan policy: '' e []) | x \<Rightarrow> x)"

fun scan_policies :: "string res list \<Rightarrow> string list res" where
  "scan_policies [] = Ok []"
| "scan_policies (row # rows) = res_bind (scan_policy row) (\<lambda>p. res_bind (scan_policies rows) (\<lambda>ps. Ok (p # ps)))"

definition GetActivePolicies :: "(string \<Rightarrow> string res list res) \<Rightarrow> string \<Rightarrow> string list res" where
  "GetActivePolicies query tableName =
     (case query (newline_tabs 2 @ ''SELECT policyname FROM pg_policies'' @ newline_tabs 2
              @ ''WHERE tablename = '' @ quoted tableName @ '';'' @ newline_tabs 1) of
        Err e \<Rightarrow> Err (WrapErr ''failed to get policies: '' e [])
      | Panic \<Rightarrow> Panic
      | Ok rows \<Rightarrow> scan_policies rows)"

section \<open>What the server reads\<close>

text \<open>
  A string literal up to its closing quote, two quotes standing for one, and the text behind it; and
  an identifier without quotes.
\<close>

fun literal_body :: "string \<Rightarrow> (string \<times> string) option" where
  "literal_body [] = None"
| "literal_body (c # s) =
     (if c \<noteq> CHR 0x27 then map_option (\<lambda>(v, rest). (c # v, rest)) (literal_body s)
      else case s of
        [] \<Rightarrow> Some ([], [])
      | c' # s' \<Rightarrow> if c' = CHR 0x27 then map_option (\<lambda>(v, rest). (CHR 0x27 # v, rest)) (literal_body s')
                  else Some ([], s))"

definition read_literal :: "string \<Rightarrow> (string \<times> string) option" where
  "read_literal s = (case s of [] \<Rightarrow> None | c # s \<Rightarrow> if c = CHR 0x27 then literal_body s else None)"

definition ident_char :: "char \<Rightarrow> bool" where
  "ident_char c \<longleftrightarrow> is_lower c \<or> is_upper c \<or> is_digit c \<or> c = CHR ''_'' \<or> c = CHR ''$''"

definition read_ident :: "string \<Rightarrow> string \<times> string" where
  "read_ident s = (takeWhile ident_char s, dropWhile ident_char s)"

lemma read_quoted:
  "CHR 0x27 \<notin> set s \<Longrightarrow> rest = [] \<or> hd rest \<noteq> CHR 0x27 \<Longrightarrow> read_literal (quoted s @ rest) = Some (s, rest)"
proof -
  assume s: "CHR 0x27 \<notin> set s" and r: "rest = [] \<or> hd rest \<noteq> CHR 0x27"
  have "literal_body (s @ CHR 0x27 # rest) = Some (s, rest)"
    using s r by (induction s) (auto split: list.split)
  then show ?thesis by (simp add: read_literal_def quoted_def)
qed

lemma valid_id_no_quote: "valid_id t \<Longrightarrow> CHR 0x27 \<notin> set t"
proof -
  have "\<not> id_char (CHR 0x27)" by (simp add: id_char_def is_lower_def is_upper_def is_digit_def)
  then show "valid_id t \<Longrightarrow> CHR 0x27 \<notin> set t" by (auto simp: valid_id_def list_all_iff)
qed

lemma read_quoted_at_quote:
  assumes "CHR 0x27 \<notin> set a" "b = [] \<or> hd b \<noteq> CHR 0x27"
  shows "read_literal (quoted (a @ CHR 0x27 # b) @ rest) = Some (a, b @ CHR 0x27 # rest) \<or> b = []"
proof (cases b)
  case (Cons c b')
  have "read_literal (quoted a @ b @ CHR 0x27 # rest) = Some (a, b @ CHR 0x27 # rest)"
    using assms Cons by (intro read_quoted) simp_all
  then show ?thesis by (simp add: quoted_def)
qed simp

definition tenant_prefix :: string where
  "tenant_prefix = ''SELECT set_config('' @ quoted ''app.current_tenant_id'' @ '', ''"

text \<open>
  C37. The statement that sets the tenant of a connection carries it: for a valid identifier the server
  reads back that identifier as the value, and the rest of the statement as it was meant. But the
  method checks nothing: for a tenant that contains a quote, not doubled, with more behind it, the
  value ends there, and what comes behind is read as SQL.
\<close>

theorem rls_tenant_literal:
  "(if CHR 0x27 \<notin> set t then read_literal (drop (length tenant_prefix) (tenant_sql t)) = Some (t, '', false);'')
    else \<exists>a b. t = a @ CHR 0x27 # b \<and> CHR 0x27 \<notin> set a \<and>
      (b \<noteq> [] \<and> hd b \<noteq> CHR 0x27 \<longrightarrow>
        read_literal (drop (length tenant_prefix) (tenant_sql t)) = Some (a, b @ CHR 0x27 # '', false);''))) \<and>
   (valid_id t \<longrightarrow> CHR 0x27 \<notin> set t)"
proof -
  have d: "drop (length tenant_prefix) (tenant_sql t) = quoted t @ '', false);''"
    by (simp add: tenant_sql_def tenant_prefix_def)
  show ?thesis
  proof (cases "CHR 0x27 \<in> set t")
    case True
    then obtain a b where ab: "t = a @ CHR 0x27 # b" "CHR 0x27 \<notin> set a" by (meson split_list_first)
    then show ?thesis
      using True d read_quoted_at_quote [OF ab(2), of b "'', false);''"] valid_id_no_quote by fastforce
  next
    case False
    then show ?thesis using d read_quoted [OF False, of "'', false);''"] by simp
  qed
qed

theorem rls_tenant_literal_witness:
  "read_literal (drop (length tenant_prefix) (tenant_sql ''acme'')) = Some (''acme'', '', false);'')"
proof -
  have "CHR 0x27 \<notin> set ''acme''" by code_simp
  then show ?thesis using rls_tenant_literal [of "''acme''"] by simp
qed

text \<open>
  Partitions fail for tenants with a hyphen: the name of the partition is not quoted, so that the
  server reads it only up to the first hyphen of a valid identifier that has one.
\<close>

theorem rls_partition_name_cut:
  assumes "list_all ident_char baseTable" "CHR ''-'' \<in> set t"
  shows "fst (read_ident (drop (length (newline_tabs 2 @ ''CREATE TABLE '')) (partition_sql baseTable t))) \<noteq> baseTable @ ''_'' @ t"
proof -
  have "drop (length (newline_tabs 2 @ ''CREATE TABLE '')) (partition_sql baseTable t) =
      (baseTable @ ''_'' @ t) @ '' PARTITION OF '' @ baseTable @ newline_tabs 2 @ ''FOR VALUES IN ('' @ quoted t @ '');'' @ newline_tabs 1"
    by (simp add: partition_sql_def newline_tabs_def)
  then have "fst (read_ident (drop (length (newline_tabs 2 @ ''CREATE TABLE '')) (partition_sql baseTable t))) =
      takeWhile ident_char ((baseTable @ ''_'' @ t) @ '' PARTITION OF '' @ baseTable @ newline_tabs 2 @ ''FOR VALUES IN ('' @ quoted t @ '');'' @ newline_tabs 1)"
    by (simp only: read_ident_def fst_conv)
  moreover have "\<forall>c \<in> set (takeWhile ident_char s). ident_char c" for s by (auto dest: set_takeWhileD)
  moreover have "\<not> ident_char CHR ''-''" by (simp add: ident_char_def is_lower_def is_upper_def is_digit_def)
  ultimately show ?thesis using assms(2) by (metis Un_iff set_append)
qed

theorem rls_partition_name_cut_witness:
  "valid_id ''eu-west'' \<and>
   fst (read_ident (drop (length (newline_tabs 2 @ ''CREATE TABLE '')) (partition_sql ''users'' ''eu-west''))) \<noteq> ''users'' @ ''_'' @ ''eu-west''"
proof
  show "valid_id ''eu-west''" by code_simp
  show "fst (read_ident (drop (length (newline_tabs 2 @ ''CREATE TABLE '')) (partition_sql ''users'' ''eu-west''))) \<noteq> ''users'' @ ''_'' @ ''eu-west''"
    by (rule rls_partition_name_cut) (simp_all add: ident_char_def is_lower_def is_upper_def is_digit_def)
qed

end
