(* ===== verification/Concurrent_DB.thy ===== *)
theory Concurrent_DB
  imports DB_Isolation Args_Pool
begin

text \<open>
  Calls of a \<^verbatim>\<open>DB\<close> from many goroutines at once. What they share is the query cache, behind its
  mutex (\<open>Cache_Locks\<close> has the locks: its operations are atomic steps here), and the pool of argument slices; everything else is local to a call or never written. A
  call is cut into the steps between which others can run: the decision, the lookup under the read
  lock, the atomic counter, the rewriting, the store under the lock, and the moment the driver reads
  the arguments. A schedule is any sequence of such steps. The appends of one call to its slice are
  one step: until they are done no other call owns the array. A call of a \<^verbatim>\<open>Tx\<close> takes the same
  steps on the \<^verbatim>\<open>DB\<close> it was begun on.
\<close>

section \<open>A call in progress\<close>

type_synonym db_call = "go_ctx \<times> string \<times> gval list"

text \<open>Arguments are a slice of their own, or one whose array is already back in the pool.\<close>

datatype args_ref = Held "gval list" | Pooled args_slice

fun ref_args :: "pool_state \<Rightarrow> args_ref \<Rightarrow> gval list" where
  "ref_args p (Held args) = args"
| "ref_args p (Pooled s) = read_slice p s"

datatype stage =
    Called
  | Looking string
  | Counting string "cache_entry option"
  | Hit string cache_entry
  | Missed string
  | Storing string args_ref nat
  | Sending string args_ref
  | Sent string "gval list"
  | Failed go_error
  | Crashed

fun finished :: "stage \<Rightarrow> bool" where
  "finished (Sent q args) = True"
| "finished (Failed e) = True"
| "finished Crashed = True"
| "finished _ = False"

text \<open>\<^verbatim>\<open>Get\<close> counts after it has released the lock.\<close>

definition qc_count :: "bool \<Rightarrow> query_cache \<Rightarrow> query_cache" where
  "qc_count found qc = (if found then qc\<lparr>hits := hits qc + 1\<rparr> else qc\<lparr>misses := misses qc + 1\<rparr>)"

lemma qc_Get_two_steps:
  "qc_Get qc q = (qc_count (map_of (entries qc) (hashQuery q) \<noteq> None) qc,
     map_option (\<lambda>e. (transformedQuery e, argCount e, isTenantQuery e)) (map_of (entries qc) (hashQuery q)))"
  by (simp add: qc_Get_def qc_count_def split: option.split)

text \<open>The appends of a rewriting that builds its arguments in a pooled slice.\<close>

definition args_plan ::
  "config \<Rightarrow> placeholder_style \<Rightarrow> string \<Rightarrow> string \<Rightarrow> gval list \<Rightarrow> gval list list option" where
  "args_plan cfg st query tenantID args =
     (let upper = to_upper query
      in if has_prefix upper ''SELECT'' then
           (case extractAllTables query of
              Ok ts \<Rightarrow>
                let fs = filterTenantTables cfg ts
                in if fs = [] then None else Some (select_args st (length fs) tenantID args)
            | _ \<Rightarrow> None)
         else if has_prefix upper ''UPDATE'' then
           Some (case update_args st query tenantID args of Ok xss \<Rightarrow> xss | _ \<Rightarrow> [])
         else if has_prefix upper ''DELETE'' then Some (delete_args st tenantID args)
         else None)"

definition build_ref ::
  "nat option \<Rightarrow> nat \<Rightarrow> pool_state \<Rightarrow> gval list list option \<Rightarrow> gval list \<Rightarrow> pool_state \<times> args_ref" where
  "build_ref choice spare p xss newArgs =
     (case xss of
        None \<Rightarrow> (p, Held newArgs)
      | Some xss \<Rightarrow> (let (p', s) = build_args choice spare p xss in (p', Pooled s)))"

section \<open>One step of a call\<close>

text \<open>
  \<^verbatim>\<open>ShouldFilter\<close>, \<^verbatim>\<open>injectTenantFilter\<close> and the call of the driver, up to the next point where
  another goroutine can come in; \<open>choice\<close> and \<open>spare\<close> are those of the pool.
\<close>

fun advance ::
  "(64 word list \<Rightarrow> 64 word list) \<Rightarrow> db_call \<Rightarrow> nat option \<Rightarrow> nat \<Rightarrow> 'h db \<Rightarrow> pool_state \<Rightarrow> stage
     \<Rightarrow> 'h db \<times> pool_state \<times> stage" where
  "advance ord (ctx, query, args) choice spare db p Called =
     (db, p, case ShouldFilter (db_interceptor db) ctx query of
        Err e \<Rightarrow> Failed e
      | Panic \<Rightarrow> Crashed
      | Ok d \<Rightarrow> if RequiresFiltering d then Looking (TenantID d) else Sending query (Held args))"
| "advance ord (ctx, query, args) choice spare db p (Looking tenantID) =
     (db, p, Counting tenantID (map_of (entries (queryCache db)) (hashQuery (trim_space query))))"
| "advance ord c choice spare db p (Counting tenantID found) =
     (db\<lparr>queryCache := qc_count (found \<noteq> None) (queryCache db)\<rparr>, p,
      case found of
        Some e \<Rightarrow> if isTenantQuery e then Hit tenantID e else Missed tenantID
      | None \<Rightarrow> Missed tenantID)"
| "advance ord (ctx, query, args) choice spare db p (Hit tenantID e) =
     (db, p, case cached_args (placeholderStyle db) (trim_space query) tenantID args (argCount e) of
        Ok newArgs \<Rightarrow> Sending (transformedQuery e) (Held newArgs)
      | Err e \<Rightarrow> Failed (inject_error e)
      | Panic \<Rightarrow> Crashed)"
| "advance ord (ctx, query, args) choice spare db p (Missed tenantID) =
     (let query = trim_space query;
          xss = args_plan (db_config db) (placeholderStyle db) query tenantID args
      in case inject_miss (db_config db) (placeholderStyle db) query tenantID args of
           None \<Rightarrow> (db, p, Sending query (Held args))
         | Some (Err e) \<Rightarrow> (db, fst (build_ref choice spare p xss []), Failed (inject_error e))
         | Some Panic \<Rightarrow> (db, fst (build_ref choice spare p xss []), Crashed)
         | Some (Ok (result, newArgs)) \<Rightarrow>
             (let (p', ref) = build_ref choice spare p xss newArgs
              in (db, p', Storing result ref (length newArgs - length args))))"
| "advance ord (ctx, query, args) choice spare db p (Storing result ref n) =
     (db\<lparr>queryCache := qc_Put ord (queryCache db) (trim_space query) result n True\<rparr>, p, Sending result ref)"
| "advance ord c choice spare db p (Sending query ref) = (db, p, Sent query (ref_args p ref))"
| "advance ord c choice spare db p (Sent q a) = (db, p, Sent q a)"
| "advance ord c choice spare db p (Failed e) = (db, p, Failed e)"
| "advance ord c choice spare db p Crashed = (db, p, Crashed)"

section \<open>Schedules\<close>

record 'h db_system =
  sy_db :: "'h db"
  sy_pool :: pool_state
  sy_calls :: "(db_call \<times> stage) list"

datatype event = Go nat "nat option" nat | Clear

definition all_called :: "'h db \<Rightarrow> pool_state \<Rightarrow> db_call list \<Rightarrow> 'h db_system" where
  "all_called db p cs = \<lparr>sy_db = db, sy_pool = p, sy_calls = map (\<lambda>c. (c, Called)) cs\<rparr>"

fun perform :: "(64 word list \<Rightarrow> 64 word list) \<Rightarrow> event \<Rightarrow> 'h db_system \<Rightarrow> 'h db_system" where
  "perform ord (Go i choice spare) sys =
     (if i < length (sy_calls sys)
      then let (c, st) = sy_calls sys ! i;
               (db, p, st') = advance ord c choice spare (sy_db sys) (sy_pool sys) st
           in \<lparr>sy_db = db, sy_pool = p, sy_calls = (sy_calls sys)[i := (c, st')]\<rparr>
      else sys)"
| "perform ord Clear sys = sys\<lparr>sy_db := ClearQueryCache (sy_db sys)\<rparr>"

fun run_schedule :: "(64 word list \<Rightarrow> 64 word list) \<Rightarrow> event list \<Rightarrow> 'h db_system \<Rightarrow> 'h db_system" where
  "run_schedule ord [] sys = sys"
| "run_schedule ord (ev # evs) sys = run_schedule ord evs (perform ord ev sys)"

text \<open>The array whose arguments a call still has to be read from.\<close>

fun unread :: "stage \<Rightarrow> nat option" where
  "unread (Storing q (Pooled s) n) = Some (fst s)"
| "unread (Sending q (Pooled s)) = Some (fst s)"
| "unread _ = None"

text \<open>The pool gives no array away from which the arguments of another call are still to be read.\<close>

fun allowed :: "event \<Rightarrow> 'h db_system \<Rightarrow> bool" where
  "allowed (Go i choice spare) sys \<longleftrightarrow>
     list_all (\<lambda>(c, st). unread st \<noteq> Some (snd (getArgsSlice choice (sy_pool sys)))) (sy_calls sys)"
| "allowed Clear sys \<longleftrightarrow> True"

fun exclusive :: "(64 word list \<Rightarrow> 64 word list) \<Rightarrow> event list \<Rightarrow> 'h db_system \<Rightarrow> bool" where
  "exclusive ord [] sys \<longleftrightarrow> True"
| "exclusive ord (ev # evs) sys \<longleftrightarrow> allowed ev sys \<and> exclusive ord evs (perform ord ev sys)"


section \<open>Rewriting and appends agree\<close>

lemma args_plan_concat:
  assumes "inject_miss cfg st q t args = Some (Ok (q', new))" "args_plan cfg st q t args = Some xss"
  shows "concat xss = new"
  using assms
  by (auto simp: inject_miss_def args_plan_def delete_args_def update_args_def select_args_def
      injectDeleteFilter_def injectUpdateFilter_def injectSelectFilter_def split_args_def res_bind_Ok_iff Let_def
      split: if_splits res.splits)

text \<open>
  A reference reads as the arguments meant: always while the pool gives no unread array away, and
  else at least its array exists.
\<close>

fun ref_ok :: "bool \<Rightarrow> pool_state \<Rightarrow> gval list \<Rightarrow> args_ref \<Rightarrow> bool" where
  "ref_ok excl p new (Held args) \<longleftrightarrow> args = new"
| "ref_ok excl p new (Pooled s) \<longleftrightarrow> slice_ok p s \<and> (excl \<longrightarrow> read_slice p s = new)"

lemma ref_ok_read: "ref_ok True p new r \<Longrightarrow> ref_args p r = new"
  by (cases r) simp_all

lemma build_ref_ok:
  assumes "pool_ok p" "build_ref choice spare p (args_plan cfg st q t args) new = (p', r)"
    "inject_miss cfg st q t args = Some (Ok (q', new))"
  shows "ref_ok excl p' new r"
proof (cases "args_plan cfg st q t args")
  case None
  then show ?thesis using assms(2) by (auto simp: build_ref_def)
next
  case (Some xss)
  then obtain s where b: "build_args choice spare p xss = (p', s)" "r = Pooled s"
    using assms(2) by (auto simp: build_ref_def split: prod.splits)
  show ?thesis
    using build_args_facts [OF assms(1) b(1)] args_plan_concat [OF assms(3) Some] b(2) by simp
qed

lemma build_ref_pool_ok: "pool_ok p \<Longrightarrow> pool_ok (fst (build_ref choice spare p xss new))"
  using build_args_facts(2) [of p choice spare "the xss"]
  by (cases "build_args choice spare p (the xss)") (auto simp: build_ref_def split: option.split)

text \<open>What a rewriting does to the arguments of another call.\<close>

lemma build_ref_other:
  assumes "pool_ok p" "ref_ok excl p new r"
    "excl \<Longrightarrow> \<forall>s. r = Pooled s \<longrightarrow> fst s \<noteq> snd (getArgsSlice choice p)"
  shows "ref_ok excl (fst (build_ref choice spare p xss new')) new r"
proof (cases xss)
  case None
  then show ?thesis using assms(2) by (simp add: build_ref_def)
next
  case (Some ys)
  obtain p' s' where b: "build_args choice spare p ys = (p', s')" by (cases "build_args choice spare p ys")
  show ?thesis
    using assms build_args_slice_ok [OF assms(1), of _ choice spare ys] build_args_frame [OF assms(1) b] b
    by (cases r) (auto simp: build_ref_def Some)
qed

section \<open>The shared cache\<close>

definition cache_from :: "string set \<Rightarrow> query_cache \<Rightarrow> bool" where
  "cache_from Q qc \<longleftrightarrow> (\<forall>h e. map_of (entries qc) h = Some e \<longrightarrow> originalQuery e \<in> Q)"

lemma qc_count_frame [simp]:
  "entries (qc_count b qc) = entries qc" "maxSize (qc_count b qc) = maxSize qc"
  by (simp_all add: qc_count_def)

lemma qc_count_lookup [simp]: "qc_lookup (qc_count b qc) = qc_lookup qc" "qc_ok (qc_count b qc) = qc_ok qc"
  "qc_distinct (qc_count b qc) = qc_distinct qc" "cache_from Q (qc_count b qc) = cache_from Q qc"
  by (simp_all add: fun_eq_iff qc_lookup_def qc_ok_def qc_distinct_def cache_from_def)

lemma db_ok_count [simp]: "db_ok (db\<lparr>queryCache := qc_count b (queryCache db)\<rparr>) = db_ok db"
  by (simp add: db_ok_def db_sound_def qc.sound_def)

lemma db_ok_put:
  assumes "map_order ord" "db_ok db" "plan (db_config db) (placeholderStyle db) q = Some (q1, n)"
  shows "db_ok (db\<lparr>queryCache := qc_Put ord (queryCache db) q q1 n True\<rparr>)"
proof -
  let ?f = "plan3 (db_config db) (placeholderStyle db)" and ?c = "queryCache db"
  have "qc_distinct ?c" "qc.sound ?f ?c" "?f q = Some (q1, n, True)"
    using assms(2,3) by (simp_all add: db_ok_def db_sound_def plan3_def)
  then show ?thesis
    using qc.sound_put [of ?c ?f q "(q1, n, True)" ord] qc.inv_put [of ?c ord q "(q1, n, True)"]
      assms(2) qc_ok_Put [OF assms(1), of ?c q q1 n True]
    by (simp add: db_ok_def db_sound_def qc_put3_def)
qed

lemma cache_from_put:
  assumes "qc_ok qc" "cache_from Q qc" "q \<in> Q"
  shows "cache_from Q (qc_Put ord qc q q1 n b)"
  using assms
  by (auto simp: cache_from_def qc_Put_entries map_of_AList_update dest: qc_room_sub split: if_splits)

lemma cache_from_clear [simp]: "cache_from Q (qc_Clear qc)"
  by (simp add: cache_from_def qc_Clear_def)

text \<open>What a lookup finds, when no two of the statements have the same hash.\<close>

definition entry_right :: "'h db \<Rightarrow> string \<Rightarrow> cache_entry \<Rightarrow> bool" where
  "entry_right db q e \<longleftrightarrow> isTenantQuery e \<and>
     plan (db_config db) (placeholderStyle db) q = Some (transformedQuery e, argCount e)"

lemma lookup_right:
  assumes "db_ok db" "cache_from Q (queryCache db)" "inj_on hashQuery Q" "q \<in> Q"
    "map_of (entries (queryCache db)) (hashQuery q) = Some e"
  shows "entry_right db q e"
proof -
  have "hashQuery (originalQuery e) = hashQuery q"
    using assms(1) map_of_SomeD [OF assms(5)] by (auto simp: db_ok_def qc_ok_def)
  then have "originalQuery e = q"
    using assms(2-5) by (meson cache_from_def inj_onD)
  then have "qc_lookup (queryCache db) q = Some (q, transformedQuery e, argCount e, isTenantQuery e)"
    using assms(5) by (simp add: qc_lookup_def)
  then have "plan3 (db_config db) (placeholderStyle db) q = Some (transformedQuery e, argCount e, isTenantQuery e)"
    using assms(1) unfolding db_ok_def db_sound_def by (blast intro: qc.sound_hit)
  then show ?thesis by (auto simp: entry_right_def plan3_def)
qed


section \<open>What holds of a call at each stage\<close>

text \<open>The outcome of a call that has the \<^verbatim>\<open>DB\<close> to itself and finds nothing in the cache.\<close>

definition alone :: "'h db \<Rightarrow> db_call \<Rightarrow> (string \<times> gval list) res" where
  "alone db c =
     (case c of (ctx, query, args) \<Rightarrow>
        (case ShouldFilter (db_interceptor db) ctx query of
           Err e \<Rightarrow> Err e
         | Panic \<Rightarrow> Panic
         | Ok d \<Rightarrow>
             if RequiresFiltering d
             then (case uncached db query (TenantID d) args of Err e \<Rightarrow> Err (inject_error e) | r \<Rightarrow> r)
             else Ok (query, args)))"

definition required :: "'h db \<Rightarrow> db_call \<Rightarrow> string \<Rightarrow> bool" where
  "required db c t \<longleftrightarrow> (case c of (ctx, query, args) \<Rightarrow>
     \<exists>d. ShouldFilter (db_interceptor db) ctx query = Ok d \<and> RequiresFiltering d \<and> TenantID d = t)"

definition statement :: "db_call \<Rightarrow> string" where
  "statement c = trim_space (fst (snd c))"

fun stage_ok :: "bool \<Rightarrow> 'h db \<Rightarrow> pool_state \<Rightarrow> db_call \<Rightarrow> stage \<Rightarrow> bool" where
  "stage_ok excl db p c Called \<longleftrightarrow> True"
| "stage_ok excl db p c (Looking t) \<longleftrightarrow> required db c t"
| "stage_ok excl db p c (Counting t found) \<longleftrightarrow>
     required db c t \<and> (\<forall>e. found = Some e \<longrightarrow> entry_right db (statement c) e)"
| "stage_ok excl db p c (Hit t e) \<longleftrightarrow> required db c t \<and> entry_right db (statement c) e"
| "stage_ok excl db p c (Missed t) \<longleftrightarrow> required db c t"
| "stage_ok excl db p c (Storing q ref n) \<longleftrightarrow>
     plan (db_config db) (placeholderStyle db) (statement c) = Some (q, n) \<and>
     (\<exists>new. alone db c = Ok (q, new) \<and> ref_ok excl p new ref)"
| "stage_ok excl db p c (Sending q ref) \<longleftrightarrow> (\<exists>new. alone db c = Ok (q, new) \<and> ref_ok excl p new ref)"
| "stage_ok excl db p c (Sent q args) \<longleftrightarrow> (\<exists>new. alone db c = Ok (q, new) \<and> (excl \<longrightarrow> args = new))"
| "stage_ok excl db p c (Failed e) \<longleftrightarrow> alone db c = Err e"
| "stage_ok excl db p c Crashed \<longleftrightarrow> alone db c = Panic"

text \<open>The statements a cache hit gets right: all in the \<^verbatim>\<open>?\<close> style, else all but INSERT.\<close>

definition cacheable :: "placeholder_style \<Rightarrow> db_call \<Rightarrow> bool" where
  "cacheable st c \<longleftrightarrow> st = PlaceholderQuestion \<or> \<not> has_prefix (to_upper (statement c)) ''INSERT''"

lemma alone_required:
  "required db (ctx, q, args) t \<Longrightarrow>
     alone db (ctx, q, args) = (case uncached db q t args of Err e \<Rightarrow> Err (inject_error e) | r \<Rightarrow> r)"
  by (auto simp: required_def alone_def)

lemma uncached_queryCache [simp]: "uncached (db\<lparr>queryCache := qc\<rparr>) = uncached db"
  by (simp add: fun_eq_iff uncached_def)

lemma alone_queryCache [simp]:
  "alone (db\<lparr>queryCache := qc\<rparr>) = alone db" "required (db\<lparr>queryCache := qc\<rparr>) = required db"
  "entry_right (db\<lparr>queryCache := qc\<rparr>) = entry_right db"
  by (simp_all add: fun_eq_iff alone_def required_def entry_right_def cong: res.case_cong if_cong)

lemma cached_args_cases: "cached_args st q t args n \<noteq> Err e"
  by (simp add: cached_args_def split_args_cases)

text \<open>A hit answers like a rewriting.\<close>

lemma hit_alone:
  assumes "required db (ctx, q, args) t" "entry_right db (trim_space q) e" "cacheable (placeholderStyle db) (ctx, q, args)"
  shows "alone db (ctx, q, args) =
    (case cached_args (placeholderStyle db) (trim_space q) t args (argCount e) of
       Ok new \<Rightarrow> Ok (transformedQuery e, new) | Err e \<Rightarrow> Err e | Panic \<Rightarrow> Panic)"
proof -
  have "inject_miss (db_config db) (placeholderStyle db) (trim_space q) t args =
      Some (res_bind (cached_args (placeholderStyle db) (trim_space q) t args (argCount e)) (\<lambda>new. Ok (transformedQuery e, new)))"
    using assms(2,3) by (intro plan_inject_miss) (auto simp: entry_right_def cacheable_def statement_def)
  then show ?thesis
    using alone_required [OF assms(1)] cached_args_cases
    by (cases "cached_args (placeholderStyle db) (trim_space q) t args (argCount e)") (auto simp: uncached_def)
qed

section \<open>One step keeps it\<close>

text \<open>The static part of a \<^verbatim>\<open>DB\<close> never changes.\<close>

definition same_db :: "'h db \<Rightarrow> 'h db \<Rightarrow> bool" where
  "same_db db db' \<longleftrightarrow> (\<exists>qc. db' = db\<lparr>queryCache := qc\<rparr>)"

lemma same_db_put: "same_db db db' \<Longrightarrow> same_db db (db'\<lparr>queryCache := qc\<rparr>)"
  by (auto simp: same_db_def)

definition shared_ok :: "string set \<Rightarrow> 'h db \<Rightarrow> 'h db \<Rightarrow> pool_state \<Rightarrow> bool" where
  "shared_ok Q db0 db p \<longleftrightarrow> db_ok db \<and> same_db db0 db \<and> cache_from Q (queryCache db) \<and> pool_ok p"

lemma advance_shared:
  assumes "map_order ord" "shared_ok Q db0 db p" "stage_ok excl db0 p c st" "statement c \<in> Q"
    "advance ord c choice spare db p st = (db', p', st')"
  shows "shared_ok Q db0 db' p'"
proof -
  obtain ctx q args where c: "c = (ctx, q, args)" by (cases c)
  obtain qc where db: "db = db0\<lparr>queryCache := qc\<rparr>" using assms(2) by (auto simp: shared_ok_def same_db_def)
  have k: "qc_ok (queryCache db)" using assms(2) by (simp add: shared_ok_def db_ok_def)
  show ?thesis
  proof (cases st)
    case (Missed t)
    then show ?thesis
      using assms(2,5) build_ref_pool_ok [of p]
      by (auto simp: c shared_ok_def Let_def split: option.splits res.splits prod.splits)
        (metis fst_conv)
  next
    case (Counting t found)
    then show ?thesis using assms(2,5) by (auto simp: c shared_ok_def intro: same_db_put)
  next
    case (Storing r ref n)
    then have "plan (db_config db) (placeholderStyle db) (statement c) = Some (r, n)" using assms(3) db by simp
    from db_ok_put [OF assms(1) _ this] cache_from_put [OF k _ assms(4)] show ?thesis
      using assms(2,5) Storing by (auto simp: c statement_def shared_ok_def intro: same_db_put)
  qed (use assms(2,5) c in auto)
qed

lemma advance_own:
  assumes "shared_ok Q db0 db p" "inj_on hashQuery Q" "stage_ok excl db0 p c st" "statement c \<in> Q"
    "cacheable (placeholderStyle db0) c" "advance ord c choice spare db p st = (db', p', st')"
  shows "stage_ok excl db0 p' c st'"
proof -
  obtain ctx q args where c: "c = (ctx, q, args)" by (cases c)
  obtain qc where db: "db = db0\<lparr>queryCache := qc\<rparr>" using assms(1) by (auto simp: shared_ok_def same_db_def)
  have s: "statement c = trim_space q" by (simp add: c statement_def)
  show ?thesis
  proof (cases st)
    case Called
    then show ?thesis
      using assms(6) by (auto simp: c db alone_def required_def split: res.splits if_splits)
  next
    case (Looking t)
    have "entry_right db0 (statement c) e" if "map_of (entries (queryCache db)) (hashQuery (trim_space q)) = Some e" for e
      using lookup_right [of db Q "statement c" e] assms(1,2,4) that db s by (simp add: shared_ok_def)
    then show ?thesis using assms(3,6) Looking by (auto simp: c)
  next
    case (Counting t found)
    then show ?thesis
      using assms(3,6) by (auto simp: c entry_right_def split: option.splits if_splits)
  next
    case (Hit t e)
    then show ?thesis
      using assms(3,5,6) hit_alone [of db0 ctx q args t e] cached_args_cases s
      by (auto simp: c db split: res.splits)
  next
    case (Missed t)
    note a = alone_required [of db0 ctx q args t]
    show ?thesis
    proof (cases "inject_miss (db_config db0) (placeholderStyle db0) (trim_space q) t args")
      case None
      then show ?thesis using assms(3,6) Missed a by (auto simp: c db uncached_def)
    next
      case (Some r)
      then show ?thesis
        using assms(1,3,6) Missed a inject_miss_plan [of "db_config db0" "placeholderStyle db0" "trim_space q" t args]
        by (auto simp: c db uncached_def s [unfolded c] shared_ok_def Let_def dest: build_ref_ok
            split: res.splits prod.splits)
    qed
  next
    case (Sending r ref)
    then show ?thesis using assms(3,6) ref_ok_read by (cases excl) (auto simp: c)
  qed (use assms(3,6) c in auto)
qed

lemma advance_other:
  assumes "pool_ok p" "stage_ok excl db0 p c2 st2" "excl \<Longrightarrow> unread st2 \<noteq> Some (snd (getArgsSlice choice p))"
    "advance ord c choice spare db p st = (db', p', st')"
  shows "stage_ok excl db0 p' c2 st2"
proof -
  obtain ctx q args where c: "c = (ctx, q, args)" by (cases c)
  have p: "p' = p \<or> (\<exists>xss new. p' = fst (build_ref choice spare p xss new))"
    using assms(4)
    by (cases st) (auto simp: c Let_def split: option.splits res.splits prod.splits, (metis fst_conv)+)
  have r: "ref_ok excl p' new ref"
    if "ref_ok excl p new ref" "excl \<longrightarrow> (\<forall>s. ref = Pooled s \<longrightarrow> fst s \<noteq> snd (getArgsSlice choice p))" for new ref
    using p build_ref_other [OF assms(1) that(1)] that by auto
  show ?thesis
  proof (cases st2)
    case (Storing q ref n)
    then show ?thesis using assms(2,3) by (cases ref) (auto intro: r simp del: ref_ok.simps)
  next
    case (Sending q ref)
    then show ?thesis using assms(2,3) by (cases ref) (auto intro: r simp del: ref_ok.simps)
  qed (use assms(2) in auto)
qed


section \<open>All schedules\<close>

definition sys_ok :: "bool \<Rightarrow> string set \<Rightarrow> 'h db \<Rightarrow> 'h db_system \<Rightarrow> bool" where
  "sys_ok excl Q db0 sys \<longleftrightarrow> shared_ok Q db0 (sy_db sys) (sy_pool sys) \<and>
     (\<forall>(c, st) \<in> set (sy_calls sys). statement c \<in> Q \<and> cacheable (placeholderStyle db0) c \<and>
        stage_ok excl db0 (sy_pool sys) c st)"

lemma sys_ok_call:
  "sys_ok excl Q db0 sys \<Longrightarrow> (c, st) \<in> set (sy_calls sys) \<Longrightarrow>
     statement c \<in> Q \<and> cacheable (placeholderStyle db0) c \<and> stage_ok excl db0 (sy_pool sys) c st"
  by (auto simp: sys_ok_def)

lemma perform_ok:
  assumes "map_order ord" "inj_on hashQuery Q" "sys_ok excl Q db0 sys" "excl \<Longrightarrow> allowed ev sys"
  shows "sys_ok excl Q db0 (perform ord ev sys)"
proof (cases ev)
  case Clear
  then show ?thesis
    using assms(3) db_ok_clear [of "sy_db sys"]
    by (auto simp: sys_ok_def shared_ok_def ClearQueryCache_def intro: same_db_put)
next
  case (Go i choice spare)
  show ?thesis
  proof (cases "i < length (sy_calls sys)")
    case True
    obtain c st where c: "sy_calls sys ! i = (c, st)" by (cases "sy_calls sys ! i")
    obtain db p st' where a: "advance ord c choice spare (sy_db sys) (sy_pool sys) st = (db, p, st')"
      by (cases "advance ord c choice spare (sy_db sys) (sy_pool sys) st")
    have m: "(c, st) \<in> set (sy_calls sys)" using True c by (metis nth_mem)
    note i = sys_ok_call [OF assms(3) m]
    have sh: "shared_ok Q db0 (sy_db sys) (sy_pool sys)" using assms(3) by (simp add: sys_ok_def)
    have own: "stage_ok excl db0 p c st'"
      using advance_own [OF sh assms(2) _ _ _ a, of excl] i by blast
    have other: "stage_ok excl db0 p c2 st2" if "(c2, st2) \<in> set (sy_calls sys)" for c2 st2
      using advance_other [of "sy_pool sys" excl db0 c2 st2 choice ord c spare "sy_db sys" st db p st'] a sh
        sys_ok_call [OF assms(3) that] assms(4) that Go
      by (auto simp: shared_ok_def list_all_iff)
    have "\<forall>(c2, st2) \<in> set ((sy_calls sys)[i := (c, st')]).
        statement c2 \<in> Q \<and> cacheable (placeholderStyle db0) c2 \<and> stage_ok excl db0 p c2 st2"
      using own other i sys_ok_call [OF assms(3)] set_update_subset_insert [of "sy_calls sys" i "(c, st')"] by blast
    then show ?thesis
      using advance_shared [OF assms(1) sh _ _ a, of excl] i True
      by (simp add: sys_ok_def Go c a)
  next
    case False
    then show ?thesis using assms(3) Go by simp
  qed
qed

lemma run_schedule_ok:
  "map_order ord \<Longrightarrow> inj_on hashQuery Q \<Longrightarrow> sys_ok excl Q db0 sys \<Longrightarrow> (excl \<Longrightarrow> exclusive ord evs sys) \<Longrightarrow>
     sys_ok excl Q db0 (run_schedule ord evs sys)"
  by (induction evs arbitrary: sys) (auto intro: perform_ok)

lemma all_called_ok:
  assumes "WrapWithStyle h cfg ps = Ok db" "pool_ok p" "\<forall>c \<in> set cs. cacheable ps c"
  shows "sys_ok excl (statement ` set cs) db (all_called db p cs)"
proof -
  have "placeholderStyle db = ps" "queryCache db = NewQueryCache 1000"
    using WrapWithStyle_Ok [OF assms(1)] by auto
  moreover have "same_db db db" unfolding same_db_def by (rule exI [of _ "queryCache db"]) simp
  ultimately show ?thesis
    using assms(2,3) db_ok_wrap [OF assms(1)]
    by (auto simp: sys_ok_def shared_ok_def all_called_def cache_from_def NewQueryCache_def)
qed

lemma perform_calls:
  "map fst (sy_calls (perform ord ev sys)) = map fst (sy_calls sys)"
proof (cases ev)
  case (Go i choice spare)
  obtain c st where "sy_calls sys ! i = (c, st)" by (cases "sy_calls sys ! i")
  then show ?thesis
    using Go by (auto simp: map_update list_update_same_conv Let_def split: prod.splits)
qed simp

lemma run_schedule_calls:
  "map fst (sy_calls (run_schedule ord evs sys)) = map fst (sy_calls sys)"
  by (induction evs arbitrary: sys) (simp_all add: perform_calls)

section \<open>Outcomes\<close>

fun outcome :: "stage \<Rightarrow> (string \<times> gval list) res option" where
  "outcome (Sent q args) = Some (Ok (q, args))"
| "outcome (Failed e) = Some (Err e)"
| "outcome Crashed = Some Panic"
| "outcome _ = None"

lemma outcome_alone: "stage_ok True db p c st \<Longrightarrow> finished st \<Longrightarrow> outcome st = Some (alone db c)"
  by (cases st) auto

text \<open>The world and the answer of a call with that outcome.\<close>

definition answer where
  "answer exec h call r w =
     (case r of Ok (q', args') \<Rightarrow> exec h (call q' args') w | Err e \<Rightarrow> (w, Err e) | Panic \<Rightarrow> (w, Panic))"

lemma alone_methods:
  assumes "WrapWithStyle h cfg ps = Ok db"
  shows "snd (db_Exec ord exec db w ctx q args) = answer exec (db_db db) (ExecContext ctx) (alone db (ctx, q, args)) w"
    "snd (db_Query ord exec db w ctx q args) = answer exec (db_db db) (QueryContext ctx) (alone db (ctx, q, args)) w"
proof -
  have "qc_lookup (queryCache db) s = None" for s
    using WrapWithStyle_Ok [OF assms] by (auto simp: qc_lookup_def NewQueryCache_def)
  then have ad: "\<exists>db'. apply_decision ord db d q args =
      (db', if RequiresFiltering d then uncached db q (TenantID d) args else Ok (q, args))" for d
    by (cases "injectTenantFilter ord db q (TenantID d) args")
      (use injectTenantFilter_miss [of db q ord "TenantID d" args] in \<open>auto simp: apply_decision_def\<close>)
  show "snd (db_Exec ord exec db w ctx q args) = answer exec (db_db db) (ExecContext ctx) (alone db (ctx, q, args)) w"
    "snd (db_Query ord exec db w ctx q args) = answer exec (db_db db) (QueryContext ctx) (alone db (ctx, q, args)) w"
  proof (atomize (full), cases "ShouldFilter (db_interceptor db) ctx q")
    case (Ok d)
    obtain db' where "apply_decision ord db d q args =
        (db', if RequiresFiltering d then uncached db q (TenantID d) args else Ok (q, args))"
      using ad by blast
    then show "snd (db_Exec ord exec db w ctx q args) = answer exec (db_db db) (ExecContext ctx) (alone db (ctx, q, args)) w \<and>
        snd (db_Query ord exec db w ctx q args) = answer exec (db_db db) (QueryContext ctx) (alone db (ctx, q, args)) w"
      using Ok by (cases "uncached db q (TenantID d) args")
        (auto simp: db_Exec_def db_Query_def alone_def answer_def)
  qed (simp_all add: db_Exec_def db_Query_def alone_def answer_def)
qed


section \<open>A call takes at most six steps\<close>

fun steps_left :: "stage \<Rightarrow> nat" where
  "steps_left Called = 6"
| "steps_left (Looking t) = 5"
| "steps_left (Counting t found) = 4"
| "steps_left (Missed t) = 3"
| "steps_left (Hit t e) = 2"
| "steps_left (Storing q ref n) = 2"
| "steps_left (Sending q ref) = 1"
| "steps_left _ = 0"

lemma finished_iff: "finished st \<longleftrightarrow> steps_left st = 0"
  by (cases st) auto

lemma advance_steps:
  assumes "advance ord c choice spare db p st = (db', p', st')"
  shows "steps_left st' \<le> steps_left st - 1"
proof -
  obtain ctx q args where "c = (ctx, q, args)" by (cases c)
  then show ?thesis
    using assms by (cases st) (auto simp: Let_def split: res.splits option.splits prod.splits if_splits)
qed

definition turns :: "nat \<Rightarrow> event list \<Rightarrow> nat" where
  "turns i evs = length (filter (\<lambda>ev. case ev of Go j choice spare \<Rightarrow> j = i | Clear \<Rightarrow> False) evs)"

lemma turns_simps [simp]:
  "turns i [] = 0" "turns i (Clear # evs) = turns i evs"
  "turns i (Go j choice spare # evs) = (if j = i then Suc (turns i evs) else turns i evs)"
  by (simp_all add: turns_def)

lemma perform_steps:
  assumes "i < length (sy_calls sys)"
  shows "steps_left (snd (sy_calls (perform ord ev sys) ! i)) \<le>
    steps_left (snd (sy_calls sys ! i)) - turns i [ev]"
proof (cases ev)
  case (Go j choice spare)
  obtain c st where c: "sy_calls sys ! j = (c, st)" by (cases "sy_calls sys ! j")
  obtain db p st' where a: "advance ord c choice spare (sy_db sys) (sy_pool sys) st = (db, p, st')"
    by (cases "advance ord c choice spare (sy_db sys) (sy_pool sys) st")
  show ?thesis
    using assms advance_steps [OF a] c a by (cases "j = i") (auto simp: Go nth_list_update)
qed simp

lemma run_schedule_steps:
  "i < length (sy_calls sys) \<Longrightarrow>
     steps_left (snd (sy_calls (run_schedule ord evs sys) ! i)) \<le> steps_left (snd (sy_calls sys ! i)) - turns i evs"
proof (induction evs arbitrary: sys)
  case (Cons ev evs)
  have "length (sy_calls (perform ord ev sys)) = length (sy_calls sys)"
    using perform_calls [of ord ev sys] map_eq_imp_length_eq by blast
  then show ?case
    using Cons.IH [of "perform ord ev sys"] Cons.prems perform_steps [OF Cons.prems, of ord ev]
    by (cases ev) (auto split: if_splits)
qed simp

lemma run_finished:
  assumes "i < length cs" "6 \<le> turns i evs"
  shows "finished (snd (sy_calls (run_schedule ord evs (all_called db p cs)) ! i))"
  using run_schedule_steps [of i "all_called db p cs" ord evs] assms by (simp add: all_called_def finished_iff)

text \<open>A pool that is always empty is one way to give no unread array away.\<close>

lemma unread_old:
  assumes "stage_ok excl db p c st" "unread st = Some a"
  shows "a < length (ps_arrays p)"
proof (cases st)
  case (Storing q ref n)
  then show ?thesis using assms by (cases ref) (auto simp: slice_ok_def)
next
  case (Sending q ref)
  then show ?thesis using assms by (cases ref) (auto simp: slice_ok_def)
qed (use assms in auto)

lemma allowed_fresh:
  assumes "sys_ok excl Q db0 sys"
  shows "allowed (Go i None spare) sys"
  using sys_ok_call [OF assms] unread_old by (fastforce simp: list_all_iff getArgsSlice_def new_array_def)

lemma exclusive_fresh:
  assumes "map_order ord" "inj_on hashQuery Q" "sys_ok True Q db0 sys" "\<forall>ev \<in> set evs. \<exists>i spare. ev = Go i None spare"
  shows "exclusive ord evs sys"
  using assms(3,4)
proof (induction evs arbitrary: sys)
  case (Cons ev evs)
  then have a: "allowed ev sys" using allowed_fresh by auto
  then show ?case using Cons perform_ok [OF assms(1,2) Cons.prems(1)] by auto
qed simp

lemma alone_tx:
  assumes "WrapWithStyle h cfg ps = Ok db" "db_Begin beginTx db w1 ctx1 opts = (w2, Ok tx)"
  shows "snd (tx_Exec ord exec tx db w ctx q args) = answer exec (tx_tx tx) (ExecContext ctx) (alone db (ctx, q, args)) w"
    "snd (tx_Query ord exec tx db w ctx q args) = answer exec (tx_tx tx) (QueryContext ctx) (alone db (ctx, q, args)) w"
proof -
  have d: "db = db\<lparr>queryCache := queryCache db\<rparr>" by simp
  show "snd (tx_Exec ord exec tx db w ctx q args) = answer exec (tx_tx tx) (ExecContext ctx) (alone db (ctx, q, args)) w"
    "snd (tx_Query ord exec tx db w ctx q args) = answer exec (tx_tx tx) (QueryContext ctx) (alone db (ctx, q, args)) w"
    unfolding tx_methods [OF assms(2) d] alone_methods [OF assms(1)] by (simp_all add: answer_def)
qed

section \<open>What the pool can do\<close>

lemma delete_plan:
  assumes "has_prefix (to_upper s) ''DELETE''"
  shows "inject_miss cfg ps s t args =
      Some (Ok (where_text cfg s (placeholder ps (add64 (countPlaceholders ps s) 1)), concat (delete_args ps t args)))"
    "args_plan cfg ps s t args = Some (delete_args ps t args)"
proof -
  have "\<not> has_prefix (to_upper s) ''SELECT''" "\<not> has_prefix (to_upper s) ''UPDATE''"
    using assms kind_disjoint [of "to_upper s"] by blast+
  then show "inject_miss cfg ps s t args =
      Some (Ok (where_text cfg s (placeholder ps (add64 (countPlaceholders ps s) 1)), concat (delete_args ps t args)))"
    "args_plan cfg ps s t args = Some (delete_args ps t args)"
    using assms by (simp_all add: inject_miss_def args_plan_def injectDeleteFilter_def delete_args_def Let_def)
qed

lemma required_needs:
  "needs_tenant (db_interceptor db) ctx q \<Longrightarrow> GetTenant ctx = (t, True) \<Longrightarrow> required db (ctx, q, args) t"
  using ShouldFilter_needs_tenant(2) [of "db_interceptor db" ctx q t] by (auto simp: required_def)

text \<open>
  Both calls find nothing in the cache, and the second builds its arguments in the array the first
  has just put back, before the first is sent.
\<close>

definition both_miss :: "event list" where
  "both_miss = [Go 0 None 0, Go 1 None 0, Go 0 None 0, Go 1 None 0, Go 0 None 0, Go 1 None 0]"

definition crossing :: "nat option \<Rightarrow> nat \<Rightarrow> nat \<Rightarrow> event list" where
  "crossing choice spare spare' =
     both_miss @ [Go 0 choice spare, Go 1 (Some 0) spare', Go 0 None 0, Go 0 None 0]"

lemma first_half:
  assumes "required db c t" "required db c' t'" "queryCache db = NewQueryCache m"
  shows "\<exists>qc. run_schedule ord both_miss (all_called db p [c, c']) =
    \<lparr>sy_db = db\<lparr>queryCache := qc\<rparr>, sy_pool = p, sy_calls = [(c, Missed t), (c', Missed t')]\<rparr>"
proof -
  obtain ctx q args ctx' q' args' where c: "c = (ctx, q, args)" "c' = (ctx', q', args')" by (cases c, cases c')
  show ?thesis
    using assms by (auto simp: c both_miss_def required_def all_called_def NewQueryCache_def qc_count_def)
qed

lemma run_schedule_append: "run_schedule ord (xs @ ys) sys = run_schedule ord ys (run_schedule ord xs sys)"
  by (induction xs arbitrary: sys) simp_all

section \<open>Properties\<close>

text \<open>
  C7. Calls of one \<^verbatim>\<open>DB\<close> do not disturb each other: whatever the order in which the steps of any
  number of calls follow each other, and however often the cache is cleared in between, each
  finished call has given its driver what it would have given as the only call of a new \<^verbatim>\<open>DB\<close>, or
  failed with the same error, for every tenant, on the \<^verbatim>\<open>DB\<close> or on a transaction begun on it. This holds as long as the pool gives no array away
  that is still to be read, no two statements have the same hash, and no INSERT is numbered.
\<close>

theorem concurrent_calls:
  assumes "map_order ord" "WrapWithStyle h cfg ps = Ok db" "pool_ok p" "inj_on hashQuery (statement ` set cs)"
    "\<forall>c \<in> set cs. cacheable ps c" "exclusive ord evs (all_called db p cs)" "i < length cs" "cs ! i = (ctx, q, args)"
    "sy_calls (run_schedule ord evs (all_called db p cs)) ! i = (c, st)" "finished st"
  shows "\<exists>r. outcome st = Some r \<and>
    snd (db_Exec ord exec db w ctx q args) = answer exec (db_db db) (ExecContext ctx) r w \<and>
    snd (db_Query ord exec db w ctx q args) = answer exec (db_db db) (QueryContext ctx) r w \<and>
    (\<forall>tx w1 w2. db_Begin beginTx db w1 ctx1 opts = (w2, Ok tx) \<longrightarrow>
       snd (tx_Exec ord tx_exec tx db v ctx q args) = answer tx_exec (tx_tx tx) (ExecContext ctx) r v \<and>
       snd (tx_Query ord tx_exec tx db v ctx q args) = answer tx_exec (tx_tx tx) (QueryContext ctx) r v)"
proof -
  let ?sys = "run_schedule ord evs (all_called db p cs)"
  have ok: "sys_ok True (statement ` set cs) db ?sys"
    by (rule run_schedule_ok [OF assms(1,4) all_called_ok [OF assms(2,3,5)] assms(6)])
  have m: "map fst (sy_calls ?sys) = cs" by (simp add: run_schedule_calls all_called_def comp_def)
  then have l: "i < length (sy_calls ?sys)" using assms(7) by (metis length_map)
  then have "c = (ctx, q, args)" using m assms(8,9) by (metis fst_conv nth_map)
  then have o: "outcome st = Some (alone db (ctx, q, args))"
    using sys_ok_call [OF ok, of c st] nth_mem [OF l] assms(9,10) outcome_alone by metis
  show ?thesis
    by (intro exI [of _ "alone db (ctx, q, args)"] conjI allI impI o alone_methods [OF assms(2)] alone_tx [OF assms(2)])
qed

definition globex :: go_ctx where
  "globex = WithTenant background ''globex''"

definition two_tenants :: "db_call list" where
  "two_tenants = [(acme, list_users, []), (globex, list_users, [])]"

definition in_turns :: "event list" where
  "in_turns = [Go 0 None 0, Go 1 None 0, Go 0 None 0, Go 1 None 0, Go 0 None 0, Go 1 None 0,
     Go 0 None 0, Go 1 None 0, Go 0 None 0, Go 1 None 0, Go 0 None 0, Go 1 None 0]"

lemma two_tenants_cacheable: "\<forall>c \<in> set two_tenants. cacheable ps c"
proof -
  have "\<not> has_prefix (to_upper (trim_space list_users)) ''INSERT''" by code_simp
  then show ?thesis by (simp add: two_tenants_def cacheable_def statement_def)
qed

lemma two_tenants_hash: "inj_on hashQuery (statement ` set two_tenants)"
  by (simp add: two_tenants_def statement_def)

lemma concurrent_calls_witness:
  "\<exists>c st r. sy_calls (run_schedule (\<lambda>ks. ks) in_turns (all_called (shop_db PlaceholderDollar) empty_pool two_tenants)) ! 1 = (c, st) \<and>
     outcome st = Some r \<and>
     snd (db_Query (\<lambda>ks. ks) record_call (shop_db PlaceholderDollar) [] globex list_users []) =
       answer record_call () (QueryContext globex) r []"
proof -
  let ?sys = "all_called (shop_db PlaceholderDollar) empty_pool two_tenants"
  obtain c st where c: "sy_calls (run_schedule (\<lambda>ks. ks) in_turns ?sys) ! 1 = (c, st)"
    by (cases "sy_calls (run_schedule (\<lambda>ks. ks) in_turns ?sys) ! 1")
  have t: "(1 :: nat) < length two_tenants" "two_tenants ! 1 = (globex, list_users, [])" "6 \<le> turns 1 in_turns"
    by (simp_all add: two_tenants_def in_turns_def)
  have f: "finished st" using run_finished [OF t(1,3)] c by (metis snd_conv)
  have e: "exclusive (\<lambda>ks. ks) in_turns ?sys"
    by (rule exclusive_fresh [OF map_order_id two_tenants_hash all_called_ok [OF shop_db_wrap empty_pool_ok two_tenants_cacheable]])
      (simp add: in_turns_def)
  obtain r where "outcome st = Some r"
    "snd (db_Query (\<lambda>ks. ks) record_call (shop_db PlaceholderDollar) [] globex list_users []) =
       answer record_call (db_db (shop_db PlaceholderDollar)) (QueryContext globex) r []"
    using concurrent_calls [OF map_order_id shop_db_wrap empty_pool_ok two_tenants_hash two_tenants_cacheable e t(1,2) c f,
        where exec = record_call and w = "[]" and beginTx = begin_tx and tx_exec = record_call and v = "[]"]
    by blast
  then show ?thesis by (intro exI [of _ c] exI [of _ st] exI [of _ r]) (simp add: c [simplified])
qed

text \<open>
  C13. Whatever the pool does with its arrays, the text is right and the cache is in order, as long as
  no two of the statements have the same hash and no INSERT is numbered: in every schedule, each
  statement that was sent is the rewriting for its call, and the cache holds at most a thousand
  entries, each the rewriting of its statement. Unlike C7 it says nothing of the arguments. With a
  collision of hashes \<^verbatim>\<open>Get\<close> returns the text of another statement (query_cache.go:47).
\<close>

theorem concurrent_texts:
  assumes "map_order ord" "WrapWithStyle h cfg ps = Ok db" "pool_ok p" "inj_on hashQuery (statement ` set cs)"
    "\<forall>c \<in> set cs. cacheable ps c" "sys = run_schedule ord evs (all_called db p cs)"
  shows "db_ok (sy_db sys) \<and> length (entries (queryCache (sy_db sys))) \<le> 1000 \<and>
    (\<forall>c q' a. (c, Sent q' a) \<in> set (sy_calls sys) \<longrightarrow> c \<in> set cs \<and> (\<exists>new. alone db c = Ok (q', new)))"
proof -
  have ok: "sys_ok False (statement ` set cs) db sys"
    unfolding assms(6) by (rule run_schedule_ok [OF assms(1,4) all_called_ok [OF assms(2,3,5)]]) simp
  have "map fst (sy_calls sys) = cs" by (simp add: assms(6) run_schedule_calls all_called_def comp_def)
  then have "c \<in> set cs" if "(c, st) \<in> set (sy_calls sys)" for c st
    using that by (metis fst_conv image_eqI list.set_map)
  moreover have "\<exists>new. alone db c = Ok (q', new)" if "(c, Sent q' a) \<in> set (sy_calls sys)" for c q' a
    using sys_ok_call [OF ok that] by simp
  moreover have k: "db_ok (sy_db sys)" using ok by (simp add: sys_ok_def shared_ok_def)
  moreover have "length (entries (queryCache (sy_db sys))) \<le> 1000"
    using k by (simp add: db_ok_def qc_ok_def)
  ultimately show ?thesis by blast
qed

lemma concurrent_texts_witness:
  "length (entries (queryCache (sy_db (run_schedule (\<lambda>ks. ks) [Go 0 None 0, Clear, Go 1 (Some 0) 0]
     (all_called (shop_db PlaceholderDollar) empty_pool two_tenants))))) \<le> 1000"
  using concurrent_texts [OF map_order_id shop_db_wrap empty_pool_ok two_tenants_hash two_tenants_cacheable refl] by blast

text \<open>
  C17. Without a pool that keeps arrays until they are read, tenants mix: two DELETE statements on tenant
  tables with as many arguments, fewer than eight, by different tenants, can meet so that the first
  one's text is sent with the second one's arguments, the tenant included: the first caller deletes
  rows of the second tenant.
\<close>

theorem crossing_leaks:
  assumes "WrapWithStyle h cfg ps = Ok db" "pool_ok p" "needs_tenant (db_interceptor db) ctx q" "GetTenant ctx = (t, True)"
    "needs_tenant (db_interceptor db) ctx' q'" "GetTenant ctx' = (t', True)"
    "has_prefix (to_upper (trim_space q)) ''DELETE''" "has_prefix (to_upper (trim_space q')) ''DELETE''"
    "length args < 8" "length args' = length args"
  shows "\<exists>q1. snd (db_Exec ord exec db w ctx q args) = exec (db_db db) (ExecContext ctx q1 (concat (delete_args ps t args))) w \<and>
    sy_calls (run_schedule ord (crossing choice spare spare') (all_called db p [(ctx, q, args), (ctx', q', args')])) ! 0 =
      ((ctx, q, args), Sent q1 (concat (delete_args ps t' args')))"
proof -
  let ?c = "(ctx, q, args)" and ?c' = "(ctx', q', args')"
  have ps: "placeholderStyle db = ps" "queryCache db = NewQueryCache 1000"
    using WrapWithStyle_Ok [OF assms(1)] by auto
  have req: "required db ?c t" "required db ?c' t'"
    using required_needs [OF assms(3,4)] required_needs [OF assms(5,6)] by blast+
  obtain qc where h: "run_schedule ord both_miss (all_called db p [?c, ?c']) =
    \<lparr>sy_db = db\<lparr>queryCache := qc\<rparr>, sy_pool = p, sy_calls = [(?c, Missed t), (?c', Missed t')]\<rparr>"
    using first_half [OF req ps(2)] by blast
  note m = delete_plan [OF assms(7)] and m' = delete_plan [OF assms(8)]
  obtain p1 s1 where b: "build_args choice spare p (delete_args ps t args) = (p1, s1)"
    by (cases "build_args choice spare p (delete_args ps t args)")
  obtain p2 s2 where b': "build_args (Some 0) spare' p1 (delete_args ps t' args') = (p2, s2)"
    by (cases "build_args (Some 0) spare' p1 (delete_args ps t' args')")
  have r: "read_slice p2 s1 = concat (delete_args ps t' args')"
    by (rule pooled_args_race [OF assms(2) b assms(9) b' assms(10), THEN conjunct2])
  show ?thesis
    unfolding crossing_def run_schedule_append h alone_methods [OF assms(1)] alone_required [OF req(1)]
    by (simp add: m m' ps build_ref_def b b' uncached_def answer_def r Let_def)
qed

lemma crossing_leaks_witness:
  "\<exists>q1. sy_calls (run_schedule (\<lambda>ks. ks) (crossing None 0 0)
     (all_called (shop_db PlaceholderDollar) empty_pool [(acme, delete_all_users, []), (globex, delete_all_users, [])])) ! 0 =
       ((acme, delete_all_users, []), Sent q1 [GStr ''globex''])"
proof -
  have g: "GetTenant globex = (''globex'', True)" "\<not> shouldBypass globex"
    by (simp_all add: globex_def GetTenant_WithTenant) (simp add: shouldBypass_def background_def)
  have n: "needs_tenant (db_interceptor (shop_db PlaceholderDollar)) acme delete_all_users"
    "needs_tenant (db_interceptor (shop_db PlaceholderDollar)) globex delete_all_users"
    using shop_statements [OF acme_no_bypass] shop_statements [OF g(2)] by (simp_all add: shop_db_def)
  have d: "has_prefix (to_upper (trim_space delete_all_users)) ''DELETE''" by code_simp
  show ?thesis
    using crossing_leaks [OF shop_db_wrap empty_pool_ok n(1) acme_tenant n(2) g(1) d d, of "[]" "[]" "\<lambda>ks. ks" record_call "[]" None 0 0]
    by (auto simp: delete_args_def)
qed

end
