(* ===== verification/Http_Gateway.thy ===== *)
theory Http_Gateway
  imports Http_Middleware
begin

text \<open>
  The tenant middleware around the rate limit middleware around a handler, the order the library's
  documentation gives, over the in-memory limiter: which requests get to the handler, and how many
  of them for one tenant. A handler is called at most once for a request, so that it is enough to
  know with what it is called.
\<close>

section \<open>What the next handler gets\<close>

definition mw_next :: "mw_config \<Rightarrow> int \<Rightarrow> request \<Rightarrow> request option" where
  "mw_next cfg now r =
     (if shouldSkip (mc_SkipPaths cfg) (rq_Path r) then Some r
      else case (mc_Resolver cfg, mc_OnError cfg) of
        (Some resolve, Some onError) \<Rightarrow>
          (case resolve r of
             Ok tenantID \<Rightarrow>
               (case NewContext tenantID ''system'' ''http-request'' now of
                  Ok tc \<Rightarrow> Some (r\<lparr>rq_ctx := ToGoContext tc (rq_ctx r)\<rparr>)
                | _ \<Rightarrow> None)
           | _ \<Rightarrow> None)
      | _ \<Rightarrow> None)"

lemma mw_Handler_next:
  "mw_next cfg now r = Some r' \<Longrightarrow> mw_Handler cfg now next w r = next w r'"
  "mw_next cfg now r = None \<Longrightarrow> mw_Handler cfg now next w r = mw_Handler cfg now next' w r"
  by (auto simp: mw_next_def mw_Handler_def split: if_splits option.splits res.splits)

text \<open>A request that gets on, from a path that is not skipped, carries a valid tenant.\<close>

lemma mw_next_tenant:
  assumes "mw_next cfg now r = Some r'" "\<not> shouldSkip (mc_SkipPaths cfg) (rq_Path r)"
  shows "\<exists>t. GetTenantID r' = Ok t \<and> valid_id t"
proof -
  obtain ident tc where tc: "NewContext ident ''system'' ''http-request'' now = Ok tc"
    "r' = r\<lparr>rq_ctx := ToGoContext tc (rq_ctx r)\<rparr>"
    using assms by (auto simp: mw_next_def split: option.splits res.splits)
  have "NewTenantID ident = Ok (dc_tenantID tc)" using tc(1) by (auto simp: NewContext_Ok_iff)
  from NewTenantID_valid [OF this] show ?thesis
    using GetTenantID_ToGoContext [OF NewContext_tenant_nonempty [OF tc(1)]] tc(2) by auto
qed

text \<open>The limiter after a request, and whether the request gets on.\<close>

definition rl_serves :: "'l rl_config \<Rightarrow> clock \<Rightarrow> 'l \<Rightarrow> request \<Rightarrow> 'l \<times> bool" where
  "rl_serves cfg c l r =
     (if shouldSkip (rc_SkipPaths cfg) (rq_Path r) then (l, True)
      else case (rc_Limiter cfg, rc_KeyExtractor cfg) of
        (Some p, Some keyOf) \<Rightarrow>
          (case lp_Allow p l c (rq_ctx r) (keyOf r) of
             (l, Err e) \<Rightarrow> (l, True)
           | (l, Panic) \<Rightarrow> (l, False)
           | (l, Ok allowed) \<Rightarrow> (l, allowed))
      | _ \<Rightarrow> (l, False))"

lemma rl_Handler_serves:
  assumes "NewRateLimitMiddleware cfg0 = Ok cfg" "rl_serves cfg c l r = (l', b)"
  shows "b \<Longrightarrow> \<exists>w'. \<forall>next. rl_Handler cfg c now2 now3 next l w r = (l', next w' r)"
    "\<not> b \<Longrightarrow> \<exists>x. \<forall>next. rl_Handler cfg c now2 now3 next l w r = (l', x)"
proof -
  obtain p keyOf onLimit opts where cfg: "rc_Limiter cfg = Some p" "rc_KeyExtractor cfg = Some keyOf"
    "rc_OnLimitExceeded cfg = Some onLimit" "rc_Options cfg = Some opts"
    using assms(1) by (auto simp: NewRateLimitMiddleware_def or_default_def split: option.splits)
  obtain l1 x where a: "lp_Allow p l c (rq_ctx r) (keyOf r) = (l1, x)" by (cases "lp_Allow p l c (rq_ctx r) (keyOf r)")
  show "b \<Longrightarrow> \<exists>w'. \<forall>next. rl_Handler cfg c now2 now3 next l w r = (l', next w' r)"
    "\<not> b \<Longrightarrow> \<exists>x. \<forall>next. rl_Handler cfg c now2 now3 next l w r = (l', x)"
    using assms(2) a by (cases x; auto simp: rl_serves_def rl_Handler_def cfg Let_def split: if_splits)+
qed

section \<open>The two together\<close>

definition gateway ::
  "mw_config \<Rightarrow> 'l rl_config \<Rightarrow> int \<Rightarrow> clock \<Rightarrow> int \<Rightarrow> int \<Rightarrow> handler \<Rightarrow> 'l \<Rightarrow> response \<Rightarrow> request \<Rightarrow> 'l \<times> response res" where
  "gateway mc rc now c now2 now3 inner l w r =
     (case mw_next mc now r of
        None \<Rightarrow> (l, mw_Handler mc now (\<lambda>w r. Panic) w r)
      | Some r' \<Rightarrow> rl_Handler rc c now2 now3 inner l w r')"

definition gateway_next :: "mw_config \<Rightarrow> 'l rl_config \<Rightarrow> int \<Rightarrow> clock \<Rightarrow> 'l \<Rightarrow> request \<Rightarrow> 'l \<times> request option" where
  "gateway_next mc rc now c l r =
     (case mw_next mc now r of
        None \<Rightarrow> (l, None)
      | Some r' \<Rightarrow> (case rl_serves rc c l r' of (l', b) \<Rightarrow> (l', if b then Some r' else None)))"

text \<open>The response is that of the tenant middleware with the rate limiter as its next handler.\<close>

lemma gateway_response:
  "snd (gateway mc rc now c now2 now3 inner l w r) =
     mw_Handler mc now (\<lambda>w r. snd (rl_Handler rc c now2 now3 inner l w r)) w r"
  by (cases "mw_next mc now r") (auto simp: gateway_def mw_Handler_next(1) intro: mw_Handler_next(2))

lemma gateway_calls:
  assumes "NewRateLimitMiddleware rc0 = Ok rc" "gateway_next mc rc now c l r = (l', x)"
  shows "(\<forall>r'. x = Some r' \<longrightarrow> (\<exists>w'. \<forall>inner. gateway mc rc now c now2 now3 inner l w r = (l', inner w' r'))) \<and>
    (x = None \<longrightarrow> (\<exists>y. \<forall>inner. gateway mc rc now c now2 now3 inner l w r = (l', y)))"
  using assms(2) rl_Handler_serves [OF assms(1)]
  by (auto simp: gateway_next_def gateway_def split: option.splits prod.splits if_splits)

text \<open>A run of requests: the reading of \<^verbatim>\<open>NewContext\<close>, those of the limiter, the request.\<close>

type_synonym http_call = "int \<times> clock \<times> request"

fun http_clocks_ok :: "int \<Rightarrow> http_call list \<Rightarrow> bool" where
  "http_clocks_ok t [] \<longleftrightarrow> True"
| "http_clocks_ok t ((now, c, r) # cs) \<longleftrightarrow> t \<le> now \<and> clock_ok now c \<and> http_clocks_ok (c_now c) cs"

text \<open>The requests the handler gets, with the instant the limiter decided.\<close>

fun gateway_run :: "mw_config \<Rightarrow> 'l rl_config \<Rightarrow> 'l \<Rightarrow> http_call list \<Rightarrow> (int \<times> request) list" where
  "gateway_run mc rc l [] = []"
| "gateway_run mc rc l ((now, c, r) # cs) =
     (case gateway_next mc rc now c l r of
        (l', None) \<Rightarrow> gateway_run mc rc l' cs
      | (l', Some r') \<Rightarrow> (c_now c, r') # gateway_run mc rc l' cs)"

definition served_times :: "string \<Rightarrow> (int \<times> request) list \<Rightarrow> int list" where
  "served_times t xs = map fst (filter (\<lambda>(time, r). GetTenantID r = Ok t) xs)"

definition keyed_times :: "string \<Rightarrow> (int \<times> request) list \<Rightarrow> int list" where
  "keyed_times t xs = map fst (filter (\<lambda>(time, r). defaultKeyExtractor r = t) xs)"

section \<open>Counting\<close>

lemma keyed_times_simps [simp]:
  "keyed_times t [] = []"
  "keyed_times t ((time, r) # xs) = (if defaultKeyExtractor r = t then [time] else []) @ keyed_times t xs"
  by (simp_all add: keyed_times_def)

text \<open>Every request with the tenant \<open>t\<close> has the key \<open>t\<close>.\<close>

lemma served_keyed: "t \<noteq> [] \<Longrightarrow> in_span x y (served_times t xs) \<le> in_span x y (keyed_times t xs)"
proof (induction xs)
  case (Cons a xs)
  obtain time r where "a = (time, r)" by (cases a)
  then show ?case
    using Cons by (auto simp: served_times_def in_span_def defaultKeyExtractor_def)
qed (simp add: served_times_def)

lemma id_char_no_space: "id_char c \<Longrightarrow> \<not> is_space c"
  by (auto simp: id_char_def is_lower_def is_upper_def is_digit_def is_space_def)

lemma valid_id_key: "valid_id t \<Longrightarrow> validateTenantKey t = Ok ()"
proof -
  assume v: "valid_id t"
  have "trim_space t = t"
    using v id_char_no_space unfolding trim_space_def
    by (intro trim_by_id) (auto simp: valid_id_def list_all_iff hd_in_set last_in_set)
  then show ?thesis using v by (auto simp: validateTenantKey_def valid_id_def)
qed

lemma sw_hist_later: "sw_hist sw t k h \<Longrightarrow> t \<le> t' \<Longrightarrow> sw_hist sw t' k h"
  by (auto simp: sw_hist_def)

text \<open>One request through the rate limiter over a sliding window, seen from a key.\<close>

lemma rl_serves_sliding:
  assumes "rc_Limiter rc = Some (lm_port fl)" "rc_KeyExtractor rc = Some defaultKeyExtractor" "rc_SkipPaths rc = []"
    "lm_limiter l = LSliding s" "sw_ok s t" "sw_fits s 1" "clock_ok t c" "sw_hist s t k h" "valid_id k"
    "rl_serves rc c l r = (l', b)"
  shows "\<exists>s'. lm_limiter l' = LSliding s' \<and> sw_ok s' (c_now c) \<and> sw_fits s' 1 \<and>
    sw_limit s' = sw_limit s \<and> sw_windowSize s' = sw_windowSize s \<and>
    sw_hist s' (c_now c) k (h @ (if b \<and> defaultKeyExtractor r = k then [c_now c] else []))"
proof (cases "validateTenantKey (defaultKeyExtractor r)")
  case (Ok u)
  let ?a = "sw_AllowN s c (defaultKeyExtractor r) 1"
  have "l' = l\<lparr>lm_limiter := LSliding (fst ?a)\<rparr>" "b = snd ?a"
    using assms(1-4,10) Ok
    by (auto simp: rl_serves_def shouldSkip_def lm_port_def lm_Allow_AllowN lm_AllowN_def split_beta Let_def)
  then show ?thesis
    using sw_ok_AllowN [OF assms(5,7,6)] sw_hist_step [OF assms(5,7,6,8) refl, of "defaultKeyExtractor r"] assms(6)
    by (intro exI [of _ "fst ?a"]) (simp add: sw_fits_def cong: if_cong)
next
  case (Err e)
  then have "l' = l" "defaultKeyExtractor r \<noteq> k"
    using assms(1-3,9,10) valid_id_key
    by (auto simp: rl_serves_def shouldSkip_def lm_port_def lm_Allow_def)
  then show ?thesis
    using assms(4-8) sw_ok_later [OF assms(5)] sw_hist_later [OF assms(8)] clock_ok_now [OF assms(7)] by simp
next
  case Panic
  then show ?thesis by (auto simp: validateTenantKey_def split: if_splits)
qed

lemma gateway_run_sliding:
  assumes "rc_Limiter rc = Some (lm_port fl)" "rc_KeyExtractor rc = Some defaultKeyExtractor" "rc_SkipPaths rc = []"
    "lm_limiter l = LSliding s" "sw_ok s t" "sw_fits s 1" "http_clocks_ok t cs" "sw_hist s t k h" "valid_id k"
  shows "in_span (u - sw_windowSize s) u (h @ keyed_times k (gateway_run mc rc l cs)) \<le> sw_limit s"
  using assms(4-8)
proof (induction cs arbitrary: l s t h)
  case Nil
  then show ?case by (simp add: sw_hist_def)
next
  case (Cons a cs)
  obtain now c r where a: "a = (now, c, r)" by (cases a)
  have cl: "t \<le> now" "clock_ok now c" "http_clocks_ok (c_now c) cs" using Cons.prems(4) a by simp_all
  show ?case
  proof (cases "mw_next mc now r")
    case None
    have "t \<le> c_now c" using cl(1) clock_ok_now [OF cl(2)] by simp
    then show ?thesis
      using Cons.IH [OF Cons.prems(1) _ Cons.prems(3) cl(3), of h] sw_ok_later [OF Cons.prems(2)]
        sw_hist_later [OF Cons.prems(5)] None
      by (simp add: a gateway_next_def)
  next
    case (Some r')
    obtain l' b where s: "rl_serves rc c l r' = (l', b)" by (cases "rl_serves rc c l r'")
    from rl_serves_sliding [OF assms(1-3) Cons.prems(1) sw_ok_later [OF Cons.prems(2) cl(1)] Cons.prems(3) cl(2)
        sw_hist_later [OF Cons.prems(5) cl(1)] assms(9) s]
    obtain s' where s': "lm_limiter l' = LSliding s'" "sw_ok s' (c_now c)" "sw_fits s' 1"
      "sw_limit s' = sw_limit s" "sw_windowSize s' = sw_windowSize s"
      "sw_hist s' (c_now c) k (h @ (if b \<and> defaultKeyExtractor r' = k then [c_now c] else []))" by blast
    show ?thesis
      using Cons.IH [OF s'(1-3) cl(3) s'(6)] s'(4,5) s Some
      by (cases "b \<and> defaultKeyExtractor r' = k") (auto simp: a gateway_next_def in_span_def [of _ _ "[]"])
  qed
qed

lemma gateway_run_tenant:
  assumes "mc_SkipPaths mc = []" "(time, r') \<in> set (gateway_run mc rc l cs)"
  shows "\<exists>t. GetTenantID r' = Ok t \<and> valid_id t"
  using assms(2)
proof (induction cs arbitrary: l)
  case (Cons a cs)
  obtain now c r where a: "a = (now, c, r)" by (cases a)
  obtain l' x where g: "gateway_next mc rc now c l r = (l', x)" by (cases "gateway_next mc rc now c l r")
  have "\<not> shouldSkip (mc_SkipPaths mc) (rq_Path r)" using assms(1) by (simp add: shouldSkip_def)
  from mw_next_tenant [OF _ this] g Cons show ?case
    by (auto simp: a gateway_next_def split: option.splits prod.splits if_splits)
qed simp

section \<open>Properties\<close>

text \<open>
  C15. The HTTP stack bounds every tenant: with the tenant middleware in front of the rate limit
  middleware, neither with skip paths, over a new sliding window of the in-memory limiter, whatever
  requests come in, each that gets to the handler carries a valid tenant, and in no stretch of time as
  long as the window does the handler get more requests of one tenant than the limit. The window is
  between a second and 24 hours, and the limit positive and below the largest \<^verbatim>\<open>int64\<close>: in a window of more
  than a day a tenant can get twice the limit (C20), and a path that is skipped gets to the handler
  without a tenant and without a limit.
\<close>

theorem gateway_bounds:
  assumes "NewRateLimitMiddleware (memory_rl fl [] opts) = Ok rc" "NewLimiterMemory fl cfg t0 = Ok l"
    "lc_Algorithm cfg = AlgorithmSlidingWindow" "0 < lc_Limit cfg" "lc_Limit cfg < max_i64"
    "second \<le> lc_WindowSize cfg" "lc_WindowSize cfg \<le> 24 * hour"
    "mc_SkipPaths mc = []" "http_clocks_ok t0 cs" "valid_id t"
  shows "in_span (u - lc_WindowSize cfg) u (served_times t (gateway_run mc rc l cs)) \<le> lc_Limit cfg \<and>
    (\<forall>(time, r) \<in> set (gateway_run mc rc l cs). \<exists>t'. GetTenantID r = Ok t' \<and> valid_id t')"
proof -
  let ?s = "NewSlidingWindow (lc_Limit cfg) (lc_WindowSize cfg) t0"
  have rc: "rc_Limiter rc = Some (lm_port fl)" "rc_KeyExtractor rc = Some defaultKeyExtractor" "rc_SkipPaths rc = []"
    using assms(1) by (auto simp: memory_rl_new)
  have l: "lm_limiter l = LSliding ?s"
    using assms(2-4,6) by (auto simp: NewLimiterMemory_def AlgorithmSlidingWindow_def AlgorithmTokenBucket_def go_time
        split: if_splits)
  have s: "sw_limit ?s = lc_Limit cfg" "sw_windowSize ?s = lc_WindowSize cfg" "sw_fits ?s 1"
    using assms(4-6) by (simp_all add: NewSlidingWindow_def sw_fits_def Let_def)
  have "in_span (u - sw_windowSize ?s) u ([] @ keyed_times t (gateway_run mc rc l cs)) \<le> sw_limit ?s"
    using assms(5,7) by (intro gateway_run_sliding [OF rc l _ s(3) assms(9) _ assms(10)] sw_ok_New sw_hist_New) simp_all
  moreover have "t \<noteq> []" using assms(10) by (auto simp: valid_id_def)
  ultimately show ?thesis
    using served_keyed [of t "u - lc_WindowSize cfg" u "gateway_run mc rc l cs"] gateway_run_tenant [OF assms(8)] s(1,2)
    by fastforce
qed

definition three_per_second :: limiter_config where
  "three_per_second = \<lparr>lc_Algorithm = AlgorithmSlidingWindow, lc_RequestsPerSecond = 0, lc_BurstSize = 0,
     lc_Limit = 3, lc_WindowSize = second\<rparr>"

definition no_skip_middleware :: mw_config where
  "no_skip_middleware = \<lparr>mc_Resolver = Some (Resolve (NewHeaderResolver [])), mc_OnError = Some DefaultErrorHandler,
     mc_SkipPaths = []\<rparr>"

lemma gateway_bounds_witness:
  "\<exists>rc l. NewRateLimitMiddleware (memory_rl (\<lambda>x. x) [] None) = Ok rc \<and>
     NewLimiterMemory (\<lambda>x. x) three_per_second 0 = Ok l \<and>
     in_span (7 - second) 7 (served_times ''acme'' (gateway_run no_skip_middleware rc l
       (map (\<lambda>i. (i, tick i, sample_request\<lparr>rq_Header := [(''X-Tenant-Id'', [''acme''])]\<rparr>)) [1, 2, 3, 4, 5]))) \<le> 3"
proof -
  obtain rc where rc: "NewRateLimitMiddleware (memory_rl (\<lambda>x. x) [] None) = Ok rc" by (simp add: memory_rl_new)
  obtain l where l: "NewLimiterMemory (\<lambda>x. x) three_per_second 0 = Ok l"
    by (simp add: NewLimiterMemory_def three_per_second_def AlgorithmSlidingWindow_def AlgorithmTokenBucket_def Let_def)
  have v: "valid_id ''acme''" by code_simp
  show ?thesis
    using gateway_bounds [OF rc l _ _ _ _ _ _ _ v, of no_skip_middleware
        "map (\<lambda>i. (i, tick i, sample_request\<lparr>rq_Header := [(''X-Tenant-Id'', [''acme''])]\<rparr>)) [1, 2, 3, 4, 5]" 7] rc l
    by (simp add: three_per_second_def no_skip_middleware_def go_time max_i64_def)
qed

end
