(* ===== verification/Redis_Gateway.thy ===== *)
theory Redis_Gateway
  imports Http_Gateway Limiter_Redis
begin

text \<open>
  Several servers over one Redis server: each has its tenant middleware and, behind it, the rate limit
  middleware over a token bucket of adapters/limiter-redis. A connection may fail for any call, and
  then the middleware lets the request through; what the limiter guarantees is stated with that.
\<close>

section \<open>The limiter as the port of the middleware\<close>

text \<open>
  The outcomes of the connection are those of \<^verbatim>\<open>Allow\<close> and of \<^verbatim>\<open>Remaining\<close>, which for a token
  bucket only reads; the error of the latter is dropped, and the number is then 0.
\<close>

definition redis_port :: "'r redis \<Rightarrow> 'c redis_limiter \<Rightarrow> link \<Rightarrow> link \<times> link \<Rightarrow> 'r rl_port" where
  "redis_port rd lr l ls =
     \<lparr>lp_Allow = (\<lambda>r c ctx key. rl_Allow rd lr l (c_now c) r key),
      lp_Remaining = (\<lambda>r now ctx key. case snd (rl_Remaining rd lr ls now r key) of Ok n \<Rightarrow> n | _ \<Rightarrow> 0)\<rparr>"

definition redis_rl ::
  "'r redis \<Rightarrow> 'c redis_limiter \<Rightarrow> rl_options option \<Rightarrow> link \<Rightarrow> link \<times> link \<Rightarrow> 'r rl_config" where
  "redis_rl rd lr opts l ls =
     \<lparr>rc_Limiter = Some (redis_port rd lr l ls), rc_KeyExtractor = Some defaultKeyExtractor,
      rc_OnLimitExceeded = Some DefaultRateLimitErrorHandler, rc_SkipPaths = [],
      rc_Options = or_default opts DefaultRateLimitOptions\<rparr>"

lemma redis_rl_new:
  "NewRateLimitMiddleware \<lparr>rc_Limiter = Some (redis_port rd lr l ls), rc_KeyExtractor = None,
     rc_OnLimitExceeded = None, rc_SkipPaths = [], rc_Options = opts\<rparr> = Ok (redis_rl rd lr opts l ls)"
  by (simp add: NewRateLimitMiddleware_def redis_rl_def or_default_def)

text \<open>Reading how much is left does not change the data of a token bucket.\<close>

lemma token_remaining_reads:
  "rl_algorithm lr = ''token_bucket'' \<Longrightarrow> fst (rl_Remaining rd lr ls now r key) = r"
  by (auto simp: rl_Remaining_def redis_call_def split: link.split res.split option.split)

section \<open>Runs of the servers\<close>

text \<open>
  A call: what happens on the Redis server before it, the server that gets it, the connection of
  \<^verbatim>\<open>Allow\<close> and of \<^verbatim>\<open>Remaining\<close>, the readings of the clock, the request. The result of a run is
  what the handlers get, \<open>None\<close> for a request that is refused.
\<close>

type_synonym 'r fleet_call = "('r \<Rightarrow> 'r) \<times> nat \<times> link \<times> (link \<times> link) \<times> int \<times> clock \<times> request"

type_synonym 'c fleet = "nat \<Rightarrow> mw_config \<times> 'c redis_limiter \<times> rl_options option"

definition fleet_step :: "'r redis \<Rightarrow> 'c fleet \<Rightarrow> 'r \<Rightarrow> 'r fleet_call \<Rightarrow> 'r \<times> request option" where
  "fleet_step rd fleet r call =
     (case call of (env, s, l, ls, now, c, req) \<Rightarrow>
        case fleet s of (mc, lr, opts) \<Rightarrow> gateway_next mc (redis_rl rd lr opts l ls) now c (env r) req)"

fun fleet_run :: "'r redis \<Rightarrow> 'c fleet \<Rightarrow> 'r \<Rightarrow> 'r fleet_call list \<Rightarrow> 'r \<times> request option list" where
  "fleet_run rd fleet r [] = (r, [])"
| "fleet_run rd fleet r (call # calls) =
     (let (r, x) = fleet_step rd fleet r call; (r, xs) = fleet_run rd fleet r calls in (r, x # xs))"

definition for_tenant :: "string \<Rightarrow> request option \<Rightarrow> bool" where
  "for_tenant t x \<longleftrightarrow> (\<exists>r. x = Some r \<and> GetTenantID r = Ok t)"

text \<open>
  The requests of a tenant that get to a handler: those whose connection to Redis worked, and those
  whose connection failed.
\<close>

definition answered :: "'r fleet_call \<Rightarrow> bool" where
  "answered call \<longleftrightarrow> (case call of (env, s, l, ls, now, c, req) \<Rightarrow> l = Served)"

definition fleet_counted :: "string \<Rightarrow> 'r fleet_call list \<Rightarrow> request option list \<Rightarrow> nat" where
  "fleet_counted t calls xs = length (filter (\<lambda>(call, x). for_tenant t x \<and> answered call) (zip calls xs))"

definition call_second :: "'r fleet_call \<Rightarrow> int" where
  "call_second call = (case call of (env, s, l, ls, now, c, req) \<Rightarrow> unix (c_now c))"

text \<open>What happens to the key of a tenant in between.\<close>

definition fleet_kept :: "'r redis \<Rightarrow> string \<Rightarrow> int \<Rightarrow> 'r fleet_call \<Rightarrow> bool" where
  "fleet_kept rd t window call \<longleftrightarrow>
     (case call of (env, s, l, ls, now, c, req) \<Rightarrow> bucket_kept rd t window (env, l, c_now c, 1))"

section \<open>A call for another key\<close>

text \<open>A command on one key leaves the hashes at every other key.\<close>

definition hash_frame :: "'r redis \<Rightarrow> bool" where
  "hash_frame rd \<longleftrightarrow>
     (\<forall>r k k' f fvs. k' \<noteq> k \<longrightarrow> rd_hmget rd (fst (rd_hmset rd r k fvs)) k' f = rd_hmget rd r k' f) \<and>
     (\<forall>r k k' f n. k' \<noteq> k \<longrightarrow> rd_hmget rd (fst (rd_expire rd r k n)) k' f = rd_hmget rd r k' f)"

lemma plain_redis_frame: "hash_frame plain_redis"
  by (auto simp: hash_frame_def plain_redis_def plain_hmset_def plain_expire_def plain_hash_def split: res.split)

definition same_hash :: "'r redis \<Rightarrow> string \<Rightarrow> 'r \<Rightarrow> 'r \<Rightarrow> bool" where
  "same_hash rd k r r' \<longleftrightarrow> (\<forall>f. rd_hmget rd r' k f = rd_hmget rd r k f)"

lemma same_hash_refl [simp]: "same_hash rd k r r"
  by (simp add: same_hash_def)

lemma same_hash_command:
  assumes "hash_frame rd" "k' \<noteq> k" "same_hash rd k' r0 r"
  shows "same_hash rd k' r0 (fst (rd_hmset rd r k fvs))" "same_hash rd k' r0 (fst (rd_expire rd r k n))"
  using assms by (simp_all add: same_hash_def hash_frame_def)

lemma same_hash_bind:
  assumes "same_hash rd k r0 (fst p)" "\<And>r x. same_hash rd k r0 r \<Longrightarrow> same_hash rd k r0 (fst (f r x))"
  shows "same_hash rd k r0 (fst (script_bind p f))"
  using assms by (cases p; cases "snd p") (simp_all add: script_bind_def)

lemma token_script_frame:
  assumes "hash_frame rd" "k' \<noteq> k"
  shows "same_hash rd k' r (fst (tokenBucketScript rd k limit now window n r))"
  unfolding tokenBucketScript_def Let_def
  by (intro same_hash_bind)
    (auto intro!: same_hash_bind same_hash_command [OF assms] split: option.split)

lemma bucket_at_frame:
  assumes "hash_frame rd" "k' \<noteq> k" "rl_algorithm lr = ''token_bucket''" "bucket_at rd r k' b"
  shows "bucket_at rd (fst (rl_AllowN rd lr l now r k n)) k' b"
proof -
  obtain r' x where a: "rl_AllowN rd lr l now r k n = (r', x)" by (cases "rl_AllowN rd lr l now r k n")
  have "rl_script rd lr now k n =
      tokenBucketScript rd k (rl_limit lr) (unix now) (whole_seconds (rl_window lr)) n"
    using assms(3) by (simp add: rl_script_def)
  then have "same_hash rd k' r r'"
    using rl_AllowN_cases [OF a] assms(3) token_script_frame [OF assms(1,2)] by (auto simp: known_algorithm_def)
  then show ?thesis using assms(4) a by (auto simp: bucket_at_def same_hash_def split: option.splits)
qed

section \<open>One call\<close>

definition fleet_next :: "'c fleet \<Rightarrow> 'r fleet_call \<Rightarrow> request option" where
  "fleet_next fleet call = (case call of (env, s, l, ls, now, c, req) \<Rightarrow> mw_next (fst (fleet s)) now req)"

definition fleet_limits :: "int \<Rightarrow> int \<Rightarrow> 'c fleet \<Rightarrow> bool" where
  "fleet_limits limit window fleet \<longleftrightarrow>
     (\<forall>s. case fleet s of (mc, lr, opts) \<Rightarrow>
        rl_algorithm lr = ''token_bucket'' \<and> rl_limit lr = limit \<and> rl_window lr = window)"

lemma fleet_limitsD:
  "fleet_limits limit window fleet \<Longrightarrow> fleet s = (mc, lr, opts) \<Longrightarrow>
     rl_algorithm lr = ''token_bucket'' \<and> rl_limit lr = limit \<and> rl_window lr = window"
  unfolding fleet_limits_def by (drule spec [of _ s]) simp

lemma fleet_step_next:
  assumes "fleet s = (mc, lr, opts)"
  shows "fleet_step rd fleet r (env, s, l, ls, now, c, req) =
    (case mw_next mc now req of
       None \<Rightarrow> (env r, None)
     | Some r' \<Rightarrow>
         (case rl_AllowN rd lr l (c_now c) (env r) (defaultKeyExtractor r') 1 of
            (r1, x) \<Rightarrow> (r1, if x = Ok False \<or> x = Panic then None else Some r')))"
  using assms
  by (auto simp: fleet_step_def gateway_next_def redis_rl_def redis_port_def rl_serves_def shouldSkip_def rl_Allow_def
      split: option.split prod.split res.split)

lemma unanswered_error:
  assumes "rl_algorithm lr = ''token_bucket''" "l \<noteq> Served" "0 < n"
  shows "\<exists>r' e. rl_AllowN rd lr l now r key n = (r', Err e)"
  using assms by (cases l) (auto simp: rl_AllowN_def redis_call_def)

lemma fail_open:
  assumes "fleet_limits limit window fleet" "\<not> answered call"
  shows "snd (fleet_step rd fleet r call) = fleet_next fleet call"
proof -
  obtain env s l ls now c req where call: "call = (env, s, l, ls, now, c, req)" by (cases call) auto
  obtain mc lr opts where f: "fleet s = (mc, lr, opts)" by (cases "fleet s") auto
  have lr: "rl_algorithm lr = ''token_bucket''" using fleet_limitsD [OF assms(1) f] by simp
  have "l \<noteq> Served" using assms(2) by (simp add: call answered_def)
  show ?thesis
  proof (cases "mw_next mc now req")
    case (Some r')
    then show ?thesis
      using unanswered_error [OF lr \<open>l \<noteq> Served\<close>, of 1 rd "c_now c" "env r" "defaultKeyExtractor r'"]
      by (auto simp: call fleet_step_next [where fleet = fleet and s = s, OF f] fleet_next_def f)
  qed (simp add: call fleet_step_next [where fleet = fleet and s = s, OF f] fleet_next_def f)
qed

text \<open>A token bucket the server can read is answered with yes or no.\<close>

lemma token_answers:
  assumes "redis_hashes_ok rd" "0 < whole_seconds (rl_window lr)" "rl_algorithm lr = ''token_bucket''"
    "bucket_at rd r key b" "0 < n" "rl_AllowN rd lr Served now r key n = (r', x)"
  shows "x = Ok True \<or> x = Ok False"
  using token_script [OF assms(1,2,4), of n "rl_limit lr" "unix now"] assms(3,5,6)
  by (auto simp: rl_AllowN_def redis_call_def split: if_splits)

lemma fleet_token_step:
  assumes "redis_hashes_ok rd" "hash_frame rd" "fleet_limits limit window fleet" "0 < whole_seconds window" "0 \<le> limit" "k \<noteq> []"
    "fleet_kept rd k (whole_seconds window) call" "t \<le> call_second call" "bucket_at rd r k b" "bucket_ok t b"
    "fleet_step rd fleet r call = (r', x)"
  shows "\<exists>b'. bucket_at rd r' k b' \<and> bucket_ok (call_second call) b' \<and>
    whole_seconds window * (if for_tenant k x \<and> answered call then 1 else 0) +
      bucket_parts limit (whole_seconds window) (call_second call) b'
    \<le> bucket_parts limit (whole_seconds window) t b + (call_second call - t) * limit"
proof -
  obtain env s l ls now c req where call: "call = (env, s, l, ls, now, c, req)" by (cases call) auto
  obtain mc lr opts where f: "fleet s = (mc, lr, opts)" by (cases "fleet s") auto
  have lr: "rl_algorithm lr = ''token_bucket''" "rl_limit lr = limit" "rl_window lr = window"
    using fleet_limitsD [OF assms(3) f] by simp_all
  let ?w = "whole_seconds window" and ?t = "unix (c_now c)"
  have sec: "call_second call = ?t" by (simp add: call call_second_def)
  have "bucket_kept rd k ?w (env, l, c_now c, 1)" using assms(7) by (simp add: call fleet_kept_def)
  from token_env [OF this assms(9,10) _ assms(4,5)] assms(8) sec obtain b1 where
    b1: "bucket_at rd (env r) k b1" "bucket_ok ?t b1"
      "bucket_parts limit ?w ?t b1 \<le> bucket_parts limit ?w t b + (?t - t) * limit" by auto
  show ?thesis
  proof (cases "mw_next mc now req")
    case None
    then show ?thesis
      using assms(11) b1 sec by (auto simp: call fleet_step_next [where fleet = fleet and s = s, OF f] for_tenant_def)
  next
    case (Some q)
    let ?key = "defaultKeyExtractor q"
    obtain r1 y where a: "rl_AllowN rd lr l (c_now c) (env r) ?key 1 = (r1, y)"
      by (cases "rl_AllowN rd lr l (c_now c) (env r) ?key 1")
    have x: "r' = r1" "x = (if y = Ok False \<or> y = Panic then None else Some q)"
      using assms(11) a Some by (simp_all add: call fleet_step_next [where fleet = fleet and s = s, OF f])
    show ?thesis
    proof (cases "?key = k")
      case True
      from token_step [OF assms(1) _ lr(1) _ _ b1(2) a] b1(1) assms(4,5) lr(2,3) True
      obtain b2 where b2: "bucket_at rd r1 k b2" "bucket_ok ?t b2"
        "?w * (if y = Ok True then 1 else 0) + bucket_parts limit ?w ?t b2 \<le> bucket_parts limit ?w ?t b1" by auto
      have "y = Ok True" if "for_tenant k x" "answered call"
        using token_answers [OF assms(1) _ lr(1), of "env r" k b1 1 "c_now c" r1 y] that a x(2) True b1(1) assms(4) lr(3)
        by (auto simp: for_tenant_def answered_def call split: if_splits)
      then show ?thesis using b2 b1(3) x(1) sec assms(4) by (intro exI [of _ b2]) (auto split: if_splits)
    next
      case False
      then have "\<not> for_tenant k x" using x(2) assms(6) by (auto simp: for_tenant_def defaultKeyExtractor_def)
      moreover have "bucket_at rd r1 k b1"
        using bucket_at_frame [OF assms(2) _ lr(1) b1(1), of ?key l "c_now c" 1] False a by simp
      ultimately show ?thesis using b1(2,3) x(1) sec by auto
    qed
  qed
qed

section \<open>Runs\<close>

lemma fleet_counted_Cons [simp]:
  "fleet_counted k (call # calls) (x # xs) =
     (if for_tenant k x \<and> answered call then 1 else 0) + fleet_counted k calls xs"
  by (simp add: fleet_counted_def)

lemma fleet_token_run:
  assumes "redis_hashes_ok rd" "hash_frame rd" "fleet_limits limit window fleet" "0 < whole_seconds window" "0 \<le> limit" "k \<noteq> []"
    "\<forall>call \<in> set calls. fleet_kept rd k (whole_seconds window) call" "sorted_wrt (\<le>) (t # map call_second calls @ [T])"
    "bucket_at rd r k b" "bucket_ok t b" "fleet_run rd fleet r calls = (r', xs)"
  shows "whole_seconds window * int (fleet_counted k calls xs)
    \<le> bucket_parts limit (whole_seconds window) t b + (T - t) * limit"
  using assms(7-11)
proof (induction calls arbitrary: t r b xs)
  case Nil
  then show ?case
    using bucket_parts_nonneg [OF assms(4,5) Nil.prems(4)] mult_nonneg_nonneg [of "T - t" limit] assms(5)
    by (simp add: fleet_counted_def)
next
  case (Cons call calls)
  let ?w = "whole_seconds window" and ?t = "call_second call"
  obtain r1 x ys where s: "fleet_step rd fleet r call = (r1, x)" "fleet_run rd fleet r1 calls = (r', ys)" "xs = x # ys"
    using Cons.prems(5) by (auto split: prod.splits)
  from fleet_token_step [OF assms(1-6) _ _ Cons.prems(3,4) s(1)] Cons.prems(1,2) obtain b' where
    b': "bucket_at rd r1 k b'" "bucket_ok ?t b'"
      "?w * (if for_tenant k x \<and> answered call then 1 else 0) + bucket_parts limit ?w ?t b'
        \<le> bucket_parts limit ?w t b + (?t - t) * limit" by auto
  have "?w * int (fleet_counted k calls ys) \<le> bucket_parts limit ?w ?t b' + (T - ?t) * limit"
    using Cons.IH [OF _ _ b'(1,2) s(2)] Cons.prems(1,2) by simp
  then show ?case
    using b'(3) s(3) by (cases "for_tenant k x \<and> answered call") (auto simp: algebra_simps)
qed

lemma fleet_fail_open:
  assumes "fleet_limits limit window fleet" "fleet_run rd fleet r calls = (r', xs)" "i < length calls" "\<not> answered (calls ! i)"
  shows "xs ! i = fleet_next fleet (calls ! i)"
  using assms(2-4)
proof (induction calls arbitrary: r xs i)
  case (Cons call calls)
  obtain r1 x ys where s: "fleet_step rd fleet r call = (r1, x)" "fleet_run rd fleet r1 calls = (r', ys)" "xs = x # ys"
    using Cons.prems(1) by (auto split: prod.splits)
  show ?case
  proof (cases i)
    case 0
    then show ?thesis using fail_open [OF assms(1), of call rd r] Cons.prems(3) s by simp
  next
    case (Suc j)
    then show ?thesis using Cons.IH [OF s(2)] Cons.prems(2,3) s(3) by simp
  qed
qed simp

section \<open>Property\<close>

lemma rl_New_fields:
  assumes "rl_New ping client config = Ok lr" "rlc_Algorithm config \<in> {[], ''token_bucket''}"
  shows "rl_algorithm lr = ''token_bucket''" "rl_limit lr = rlc_Limit config" "rl_window lr = rlc_Window config"
    "0 < rlc_Limit config"
  using assms
  by (auto simp: rl_New_def check_config_def res_bind_Ok_iff Let_def split: option.splits if_splits)

text \<open>
  C16. Any number of servers over one Redis server hold a tenant to its rate together: when each has the
  tenant middleware in front of the rate limit middleware over a token bucket of the same
  configuration, the handlers of all the servers get of the requests of a valid tenant, from second \<open>t\<close> to
  second \<open>T\<close>, at most the limit and the limit for each window that passes, whatever the other tenants
  send, as far as the connection to Redis worked; and a request whose connection failed is let
  through exactly if the tenant middleware lets it through. The clocks of the servers must agree: in the
  order in which Redis runs the calls, the seconds they read do not decrease (a server whose clock is
  ahead fills the bucket too early). The window counts in whole seconds and has at least one, and between the
  calls the key of the tenant is left alone, or expires a window or more after its last update.
\<close>

theorem fleet_bounds:
  assumes "redis_hashes_ok rd" "hash_frame rd" "rlc_Algorithm config \<in> {[], ''token_bucket''}" "second \<le> rlc_Window config"
    "\<forall>s. \<exists>c opts lr mc. rl_New ping (Some c) config = Ok lr \<and> fleet s = (mc, lr, opts)" "valid_id k"
    "\<forall>call \<in> set calls. fleet_kept rd k (whole_seconds (rlc_Window config)) call"
    "sorted_wrt (\<le>) (t # map call_second calls @ [T])" "bucket_at rd r k b" "bucket_ok t b"
    "fleet_run rd fleet r calls = (r', xs)"
  shows "whole_seconds (rlc_Window config) * int (fleet_counted k calls xs)
      \<le> whole_seconds (rlc_Window config) * rlc_Limit config + (T - t) * rlc_Limit config \<and>
    (\<forall>i < length calls. \<not> answered (calls ! i) \<longrightarrow> xs ! i = fleet_next fleet (calls ! i))"
proof -
  have fl: "fleet_limits (rlc_Limit config) (rlc_Window config) fleet"
    unfolding fleet_limits_def
  proof
    fix s
    obtain c opts lr mc where "rl_New ping (Some c) config = Ok lr" "fleet s = (mc, lr, opts)" using assms(5) by blast
    then show "case fleet s of (mc, lr, opts) \<Rightarrow> rl_algorithm lr = ''token_bucket'' \<and>
        rl_limit lr = rlc_Limit config \<and> rl_window lr = rlc_Window config"
      using rl_New_fields [OF _ assms(3)] by auto
  qed
  have l: "0 \<le> rlc_Limit config" using assms(5) rl_New_fields(4) [OF _ assms(3)] by (metis less_imp_le)
  have w: "0 < whole_seconds (rlc_Window config)"
    using assms(4) by (auto simp: whole_seconds_def second_def pos_imp_zdiv_pos_iff)
  have k: "k \<noteq> []" using assms(6) by (auto simp: valid_id_def)
  have "bucket_parts (rlc_Limit config) (whole_seconds (rlc_Window config)) t b
      \<le> whole_seconds (rlc_Window config) * rlc_Limit config"
    by (simp add: bucket_parts_def split: option.split)
  then show ?thesis
    using fleet_token_run [OF assms(1,2) fl w l k assms(7-11)] fleet_fail_open [OF fl assms(11)] by force
qed

definition three_per_minute :: redis_limiter_config where
  "three_per_minute = \<lparr>rlc_RedisAddr = ''redis:6379'', rlc_Password = [], rlc_DB = 0, rlc_Algorithm = [],
     rlc_Limit = 3, rlc_Window = minute\<rparr>"

definition two_servers :: "nat fleet" where
  "two_servers s = (no_skip_middleware, (case rl_New (\<lambda>c. None) (Some s) three_per_minute of Ok lr \<Rightarrow> lr), None)"

definition acme_call :: "nat \<Rightarrow> link \<Rightarrow> int \<Rightarrow> (string \<rightharpoonup> rvalue) fleet_call" where
  "acme_call s l i = (id, s, l, (Served, Served), i * second, tick (i * second),
     sample_request\<lparr>rq_Header := [(''X-Tenant-Id'', [''acme''])]\<rparr>)"

lemma fleet_bounds_witness:
  "\<exists>r' xs. fleet_run plain_redis two_servers Map.empty
       [acme_call 0 Served 1, acme_call 1 Served 2, acme_call 0 (Unreachable (NewErr ''EOF'')) 3] = (r', xs) \<and>
     60 * int (fleet_counted ''acme'' [acme_call 0 Served 1, acme_call 1 Served 2,
         acme_call 0 (Unreachable (NewErr ''EOF'')) 3] xs) \<le> 60 * 3 + (3 - 1) * 3 \<and>
     xs ! 2 = fleet_next two_servers (acme_call 0 (Unreachable (NewErr ''EOF'')) 3)"
proof -
  let ?cs = "[acme_call 0 Served 1, acme_call 1 Served 2, acme_call 0 (Unreachable (NewErr ''EOF'')) 3]"
  obtain r' xs where run: "fleet_run plain_redis two_servers Map.empty ?cs = (r', xs)"
    by (cases "fleet_run plain_redis two_servers Map.empty ?cs")
  have a: "rlc_Algorithm three_per_minute \<in> {[], ''token_bucket''}" "second \<le> rlc_Window three_per_minute"
    by (simp_all add: three_per_minute_def go_time)
  have f: "\<forall>s. \<exists>c opts lr mc. rl_New (\<lambda>c. None) (Some c) three_per_minute = Ok lr \<and> two_servers s = (mc, lr, opts)"
    by (simp add: two_servers_def rl_New_def check_config_def three_per_minute_def go_time)
  have v: "valid_id ''acme''" by code_simp
  have k: "\<forall>call \<in> set ?cs. fleet_kept plain_redis ''acme'' (whole_seconds (rlc_Window three_per_minute)) call"
    by (simp add: acme_call_def fleet_kept_def bucket_kept_def)
  have s: "sorted_wrt (\<le>) (1 # map call_second ?cs @ [3])"
    by (simp add: acme_call_def call_second_def unix_def tick_def go_time)
  have w: "whole_seconds (rlc_Window three_per_minute) = 60" "rlc_Limit three_per_minute = 3"
    by (simp_all add: three_per_minute_def whole_seconds_def go_time)
  have "\<not> answered (?cs ! 2)" by (simp add: acme_call_def answered_def)
  then show ?thesis
    using fleet_bounds [OF plain_redis_hashes plain_redis_frame a f v k s plain_fresh(2) _ run] run w
    by (force simp: bucket_ok_def)
qed

end
