(* ===== verification/Quota_Race.thy ===== *)
theory Quota_Race
  imports Quota_Redis
begin

text \<open>
  \<^verbatim>\<open>ConsumeQuota\<close> (adapters/quota-redis/quota_manager.go) sends Redis two commands: it reads the limit
  and then runs the script. Between the two the commands of other clients can run. Here a command is
  one step, the calls that have read their limit are pending, and a run is any sequence of steps.
\<close>

section \<open>The two halves of a call\<close>

definition rq_resolve ::
  "'r redis \<Rightarrow> redis_quota_config \<Rightarrow> link \<Rightarrow> 'r \<Rightarrow> go_ctx \<Rightarrow> string \<Rightarrow> int
     \<Rightarrow> string \<times> int + (int \<times> go_error option) res" where
  "rq_resolve rd cfg l r ctx quotaType amount =
     (if amount < 0 then Inr (Ok (0, Some (NewErr ''amount must be non-negative'')))
      else case rq_getTenantIDFromContext ctx of
        Err e \<Rightarrow> Inr (Ok (0, Some e))
      | Panic \<Rightarrow> Inr Panic
      | Ok tenantID \<Rightarrow>
          (case resolveLimit rd cfg l r tenantID quotaType of
             Err e \<Rightarrow> Inr (Ok (0, Some e))
           | Panic \<Rightarrow> Inr Panic
           | Ok limit \<Rightarrow> Inl (tenantID, limit)))"

definition rq_consume_at ::
  "'r redis \<Rightarrow> redis_quota_config \<Rightarrow> link \<Rightarrow> 'r \<Rightarrow> string \<Rightarrow> string \<Rightarrow> int \<Rightarrow> int
     \<Rightarrow> 'r \<times> (int \<times> go_error option) res" where
  "rq_consume_at rd cfg l r tenantID quotaType limit amount =
     (case redis_call l
             (consumeQuotaScript rd (buildUsageKey cfg tenantID quotaType) limit amount
                (whole_seconds (rqc_ResetTTL cfg))) r of
        (r, Err e) \<Rightarrow> (r, Ok (0, Some (WrapErr ''redis error: '' e [])))
      | (r, Panic) \<Rightarrow> (r, Panic)
      | (r, Ok (allowed, remaining)) \<Rightarrow>
          if allowed = 0
          then (r, Ok (remaining, Some (NewErr (''quota exceeded for '' @ quotaType @ '': limit '' @ int_str limit))))
          else (r, Ok (remaining, None)))"

lemma rq_ConsumeQuota_halves:
  "rq_ConsumeQuota rd cfg ls r ctx ty n =
     (case rq_resolve rd cfg (fst ls) r ctx ty n of
        Inl (t, limit) \<Rightarrow> rq_consume_at rd cfg (snd ls) r t ty limit n
      | Inr x \<Rightarrow> (r, x))"
  by (simp add: rq_ConsumeQuota_def rq_resolve_def rq_consume_at_def split: res.split)

section \<open>Runs of commands\<close>

text \<open>
  A pending call has its tenant, type, limit and amount; a grant has tenant, type and amount. A call
  is named by a number. The other operations of the manager that write are one command each;
  \<open>Elsewhere\<close> is whatever else happens on the server.
\<close>

record 'r quota_state =
  qs_redis :: 'r
  qs_pending :: "nat \<rightharpoonup> string \<times> string \<times> int \<times> int"
  qs_grants :: "(string \<times> string \<times> int) list"

datatype 'r quota_event =
    ReadLimit nat link go_ctx string int
  | RunScript nat link
  | ChangeLimit link go_ctx string int
  | ResetUsage link go_ctx string
  | Elsewhere "'r \<Rightarrow> 'r"

fun quota_step :: "'r redis \<Rightarrow> redis_quota_config \<Rightarrow> 'r quota_state \<Rightarrow> 'r quota_event \<Rightarrow> 'r quota_state" where
  "quota_step rd cfg s (ReadLimit i l ctx ty n) =
     (case (qs_pending s i, rq_resolve rd cfg l (qs_redis s) ctx ty n) of
        (None, Inl (t, limit)) \<Rightarrow> s\<lparr>qs_pending := (qs_pending s)(i \<mapsto> (t, ty, limit, n))\<rparr>
      | _ \<Rightarrow> s)"
| "quota_step rd cfg s (RunScript i l) =
     (case qs_pending s i of
        None \<Rightarrow> s
      | Some (t, ty, limit, n) \<Rightarrow>
          (case rq_consume_at rd cfg l (qs_redis s) t ty limit n of
             (r, x) \<Rightarrow>
               \<lparr>qs_redis = r, qs_pending = (qs_pending s)(i := None),
                qs_grants = qs_grants s @ (if is_granted x then [(t, ty, n)] else [])\<rparr>))"
| "quota_step rd cfg s (ChangeLimit l ctx ty limit) =
     s\<lparr>qs_redis := fst (rq_SetLimit rd cfg l (qs_redis s) ctx ty limit)\<rparr>"
| "quota_step rd cfg s (ResetUsage l ctx ty) = s\<lparr>qs_redis := fst (rq_ResetQuota rd cfg l (qs_redis s) ctx ty)\<rparr>"
| "quota_step rd cfg s (Elsewhere f) = s\<lparr>qs_redis := f (qs_redis s)\<rparr>"

abbreviation quota_steps :: "'r redis \<Rightarrow> redis_quota_config \<Rightarrow> 'r quota_state \<Rightarrow> 'r quota_event list \<Rightarrow> 'r quota_state" where
  "quota_steps rd cfg s evs \<equiv> foldl (quota_step rd cfg) s evs"

text \<open>A call whose two commands are not interrupted is \<^verbatim>\<open>ConsumeQuota\<close>.\<close>

lemma uninterrupted_call:
  assumes "qs_pending s i = None"
  shows "qs_redis (quota_steps rd cfg s [ReadLimit i (fst ls) ctx ty n, RunScript i (snd ls)]) =
      fst (rq_ConsumeQuota rd cfg ls (qs_redis s) ctx ty n) \<and>
    qs_pending (quota_steps rd cfg s [ReadLimit i (fst ls) ctx ty n, RunScript i (snd ls)]) = qs_pending s"
  using assms
  by (auto simp: rq_ConsumeQuota_halves split: sum.split prod.split)

definition granted_to :: "string \<Rightarrow> string \<Rightarrow> (string \<times> string \<times> int) list \<Rightarrow> int" where
  "granted_to t ty gs = sum_list (map (\<lambda>(t', ty', n). if t' = t \<and> ty' = ty then n else 0) gs)"

lemma granted_to_append [simp]:
  "granted_to t ty [] = 0"
  "granted_to t ty (gs @ [(t', ty', n)]) = granted_to t ty gs + (if t' = t \<and> ty' = ty then n else 0)"
  by (simp_all add: granted_to_def)

section \<open>One period\<close>

text \<open>
  The events of one period of a tenant's quota of a type: tenants are valid, nobody resets the usage
  and nothing else touches its keys, and the limits it is set to are at most \<open>B\<close>.
\<close>

definition tenant_named :: "go_ctx \<Rightarrow> bool" where
  "tenant_named ctx \<longleftrightarrow> (\<forall>t. rq_getTenantIDFromContext ctx = Ok t \<longrightarrow> valid_id t \<and> t \<noteq> ''limit'')"

fun in_period :: "'r redis \<Rightarrow> redis_quota_config \<Rightarrow> string \<Rightarrow> string \<Rightarrow> int \<Rightarrow> 'r quota_event \<Rightarrow> bool" where
  "in_period rd cfg t ty B (ReadLimit i l ctx ty' n) \<longleftrightarrow> tenant_named ctx \<and> lua_exact n"
| "in_period rd cfg t ty B (RunScript i l) \<longleftrightarrow> True"
| "in_period rd cfg t ty B (ChangeLimit l ctx ty' limit) \<longleftrightarrow>
     tenant_named ctx \<and> (rq_getTenantIDFromContext ctx = Ok t \<and> ty' = ty \<longrightarrow> limit \<le> B)"
| "in_period rd cfg t ty B (ResetUsage l ctx ty') \<longleftrightarrow>
     tenant_named ctx \<and> \<not> (rq_getTenantIDFromContext ctx = Ok t \<and> ty' = ty)"
| "in_period rd cfg t ty B (Elsewhere f) \<longleftrightarrow>
     (\<forall>r. rd_get rd (f r) (buildUsageKey cfg t ty) = rd_get rd r (buildUsageKey cfg t ty) \<and>
          rd_get rd (f r) (buildLimitKey cfg t ty) = rd_get rd r (buildLimitKey cfg t ty))"

text \<open>The links over which the limit of the tenant is read.\<close>

definition reads :: "string \<Rightarrow> string \<Rightarrow> 'r quota_event list \<Rightarrow> link set" where
  "reads t ty evs = {l. \<exists>i ctx n. ReadLimit i l ctx ty n \<in> set evs \<and> rq_getTenantIDFromContext ctx = Ok t}"

definition limits_below :: "'r redis \<Rightarrow> redis_quota_config \<Rightarrow> string \<Rightarrow> string \<Rightarrow> int \<Rightarrow> link set \<Rightarrow> 'r \<Rightarrow> bool" where
  "limits_below rd cfg t ty B ls r \<longleftrightarrow>
     (\<forall>l \<in> ls. \<forall>limit. resolveLimit rd cfg l r t ty = Ok limit \<longrightarrow> limit \<le> B)"

text \<open>What holds in between: the usage covers the grants, and no pending call has a larger limit.\<close>

definition quota_inv ::
  "'r redis \<Rightarrow> redis_quota_config \<Rightarrow> string \<Rightarrow> string \<Rightarrow> int \<Rightarrow> link set \<Rightarrow> int \<Rightarrow> 'r quota_state \<Rightarrow> bool" where
  "quota_inv rd cfg t ty B ls u0 s \<longleftrightarrow>
     limits_below rd cfg t ty B ls (qs_redis s) \<and>
     (\<exists>u. get_number rd (qs_redis s) (buildUsageKey cfg t ty) = Ok u \<and>
        u0 + granted_to t ty (qs_grants s) \<le> u \<and> 0 \<le> u \<and> u \<le> max u0 B) \<and>
     (\<forall>i t' ty' limit n. qs_pending s i = Some (t', ty', limit, n) \<longrightarrow>
        valid_id t' \<and> t' \<noteq> ''limit'' \<and> 0 \<le> n \<and> (t' = t \<and> ty' = ty \<longrightarrow> limit \<le> B))"

section \<open>The steps\<close>

lemma limits_below_cong:
  "rd_get rd r' (buildLimitKey cfg t ty) = rd_get rd r (buildLimitKey cfg t ty) \<Longrightarrow>
     limits_below rd cfg t ty B ls r' = limits_below rd cfg t ty B ls r"
  by (simp add: limits_below_def resolveLimit_def redis_call_def split: link.split)

lemma parse_int_str: "in_i64 n \<Longrightarrow> parse_int64 (int_str n) = Some n"
proof -
  assume "in_i64 n"
  moreover have "\<not> has_prefix (int_str n) ''+''"
    using nat_str_digits [of "hd (nat_str (nat n))" "nat n"]
    by (cases "nat_str (nat n)") (auto simp: int_str_def is_digit_def)
  ultimately show ?thesis by (simp add: parse_int64_def)
qed

text \<open>A limit that was set is read back, and an unread one is the fallback as before.\<close>

lemma limits_below_set:
  assumes "redis_strings_ok rd" "limits_below rd cfg t ty B ls r" "limit \<le> B" "0 \<le> limit" "in_i64 B"
  shows "limits_below rd cfg t ty B ls (fst (redis_call l (setLimitScript rd (buildLimitKey cfg t ty) limit) r))"
proof -
  obtain r1 where r1: "rd_set rd r (buildLimitKey cfg t ty) (int_str limit) = (r1, Ok ())"
    "rd_get rd r1 (buildLimitKey cfg t ty) = Ok (Some (int_str limit))"
    using redis_set [OF assms(1), of r "buildLimitKey cfg t ty" "int_str limit"] by auto
  have "in_i64 limit" using assms(3-5) by (simp add: i64_defs)
  then have "resolveLimit rd cfg l' r1 t ty = (if l' = Served then Ok limit else resolveLimit rd cfg l' r t ty)" for l'
    by (cases l') (simp_all add: resolveLimit_def redis_call_def r1(2) parse_int_str)
  then have "limits_below rd cfg t ty B ls r1" using assms(2,3) by (auto simp: limits_below_def)
  then show ?thesis using assms(2) r1(1) by (cases l) (simp_all add: redis_call_def setLimitScript_def)
qed

lemma consume_at_only_key:
  assumes "redis_strings_ok rd"
  shows "only_key rd (buildUsageKey cfg t ty) r (fst (rq_consume_at rd cfg l r t ty limit n))"
proof -
  have "only_key rd (buildUsageKey cfg t ty) r
      (fst (redis_call l (consumeQuotaScript rd (buildUsageKey cfg t ty) limit n (whole_seconds (rqc_ResetTTL cfg))) r))"
    by (rule redis_call_only) (rule consume_script_only_key [OF assms])
  then show ?thesis by (auto simp: rq_consume_at_def split: res.split prod.split)
qed

lemma consume_at_usage:
  assumes "redis_strings_ok rd" "0 < whole_seconds (rqc_ResetTTL cfg)" "get_number rd r (buildUsageKey cfg t ty) = Ok u"
    "0 \<le> u" "0 \<le> n" "limit \<le> B" "in_i64 B" "rq_consume_at rd cfg l r t ty limit n = (r', x)"
  shows "\<exists>u'. get_number rd r' (buildUsageKey cfg t ty) = Ok u' \<and> u + (if is_granted x then n else 0) \<le> u' \<and>
    u' \<le> max u B"
proof (cases "limit < u + n")
  case True
  from consume_script_refuses [OF assms(3) True] have "r' = r \<and> \<not> is_granted x"
    using assms(8) by (cases l) (auto simp: rq_consume_at_def redis_call_def is_granted_def)
  then show ?thesis using assms(3) by auto
next
  case False
  then have "u + n \<le> limit" "in_i64 limit" using assms(4-7) by (simp_all add: i64_defs)
  from consume_script [OF assms(1,3-5) this assms(2)] obtain r1 where
    s: "consumeQuotaScript rd (buildUsageKey cfg t ty) limit n (whole_seconds (rqc_ResetTTL cfg)) r =
        (r1, Ok (1, limit - (u + n)))" "get_number rd r1 (buildUsageKey cfg t ty) = Ok (u + n)" by blast
  have "r' = r1 \<or> r' = r \<and> \<not> is_granted x"
    using assms(8) s(1) by (cases l) (auto simp: rq_consume_at_def redis_call_def is_granted_def)
  then show ?thesis using s(2) assms(3,5,6) \<open>u + n \<le> limit\<close> by auto
qed

text \<open>What a step does to the keys it is not about changes nothing for the tenant.\<close>

lemma quota_inv_data:
  assumes "quota_inv rd cfg t ty B ls u0 s"
    "rd_get rd r' (buildUsageKey cfg t ty) = rd_get rd (qs_redis s) (buildUsageKey cfg t ty)"
    "rd_get rd r' (buildLimitKey cfg t ty) = rd_get rd (qs_redis s) (buildLimitKey cfg t ty)"
  shows "quota_inv rd cfg t ty B ls u0 (s\<lparr>qs_redis := r'\<rparr>)"
  using assms(1) get_number_cong [OF assms(2)] limits_below_cong [OF assms(3)] by (simp add: quota_inv_def)

lemma only_usage_keys:
  assumes "only_key rd (buildUsageKey cfg t' ty') r r'" "valid_id t" "valid_id t'" "t' \<noteq> ''limit''"
    "\<not> (t' = t \<and> ty' = ty)"
  shows "rd_get rd r' (buildUsageKey cfg t ty) = rd_get rd r (buildUsageKey cfg t ty)"
    "rd_get rd r' (buildLimitKey cfg t ty) = rd_get rd r (buildLimitKey cfg t ty)"
  using assms(1,5) usage_keys(1) [OF assms(2,3), of cfg ty ty'] usage_limit_key [OF assms(3,4), of cfg ty' t ty]
  by (auto simp: only_key_def)

lemma quota_inv_read:
  assumes "quota_inv rd cfg t ty B ls u0 s" "in_period rd cfg t ty B (ReadLimit i l ctx ty' n)"
    "rq_getTenantIDFromContext ctx = Ok t \<and> ty' = ty \<longrightarrow> l \<in> ls"
  shows "quota_inv rd cfg t ty B ls u0 (quota_step rd cfg s (ReadLimit i l ctx ty' n))"
proof (cases "(qs_pending s i, rq_resolve rd cfg l (qs_redis s) ctx ty' n)")
  case (Pair p x)
  show ?thesis
  proof (cases "\<exists>t' limit. p = None \<and> x = Inl (t', limit)")
    case True
    then obtain t' limit where x: "p = None" "x = Inl (t', limit)" by blast
    then have "0 \<le> n" "rq_getTenantIDFromContext ctx = Ok t'" "resolveLimit rd cfg l (qs_redis s) t' ty' = Ok limit"
      using Pair by (auto simp: rq_resolve_def split: if_splits res.splits)
    then show ?thesis
      using assms Pair x by (auto simp: quota_inv_def tenant_named_def limits_below_def)
  next
    case False
    then have "quota_step rd cfg s (ReadLimit i l ctx ty' n) = s"
      using Pair by (cases p; cases x) auto
    then show ?thesis using assms(1) by simp
  qed
qed

lemma quota_inv_run:
  assumes "redis_strings_ok rd" "0 < whole_seconds (rqc_ResetTTL cfg)" "valid_id t" "t \<noteq> ''limit''" "in_i64 B"
    "quota_inv rd cfg t ty B ls u0 s"
  shows "quota_inv rd cfg t ty B ls u0 (quota_step rd cfg s (RunScript i l))"
proof (cases "qs_pending s i")
  case (Some p)
  obtain t' ty' limit n where p: "p = (t', ty', limit, n)" by (cases p) auto
  obtain r' x where c: "rq_consume_at rd cfg l (qs_redis s) t' ty' limit n = (r', x)"
    by (cases "rq_consume_at rd cfg l (qs_redis s) t' ty' limit n")
  have v: "valid_id t'" "t' \<noteq> ''limit''" "0 \<le> n" "t' = t \<and> ty' = ty \<longrightarrow> limit \<le> B"
    using assms(6) Some p by (simp_all add: quota_inv_def)
  obtain u where u: "get_number rd (qs_redis s) (buildUsageKey cfg t ty) = Ok u"
    "u0 + granted_to t ty (qs_grants s) \<le> u" "0 \<le> u" "u \<le> max u0 B" and
    lb: "limits_below rd cfg t ty B ls (qs_redis s)" using assms(6) by (auto simp: quota_inv_def)
  have only: "only_key rd (buildUsageKey cfg t' ty') (qs_redis s) r'"
    using consume_at_only_key [OF assms(1), of cfg t' ty' "qs_redis s" l limit n] c by simp
  have st: "quota_step rd cfg s (RunScript i l) =
      \<lparr>qs_redis = r', qs_pending = (qs_pending s)(i := None),
       qs_grants = qs_grants s @ (if is_granted x then [(t', ty', n)] else [])\<rparr>"
    using Some p c by simp
  have pend: "\<forall>j t' ty' limit n. ((qs_pending s)(i := None)) j = Some (t', ty', limit, n) \<longrightarrow>
      valid_id t' \<and> t' \<noteq> ''limit'' \<and> 0 \<le> n \<and> (t' = t \<and> ty' = ty \<longrightarrow> limit \<le> B)"
    using assms(6) by (simp add: quota_inv_def)
  show ?thesis
  proof (cases "t' = t \<and> ty' = ty")
    case True
    from consume_at_usage [OF assms(1,2) u(1,3) v(3) _ assms(5)] v(4) c True obtain u' where
      u': "get_number rd r' (buildUsageKey cfg t ty) = Ok u'" "u + (if is_granted x then n else 0) \<le> u'" "u' \<le> max u B"
      by blast
    have "rd_get rd r' (buildLimitKey cfg t ty) = rd_get rd (qs_redis s) (buildLimitKey cfg t ty)"
      using only usage_limit_key [OF assms(3,4), of cfg ty t ty] True by (simp add: only_key_def)
    from limits_below_cong [OF this] have "limits_below rd cfg t ty B ls r'" using lb by blast
    then show ?thesis
      using u u' v(3) True pend unfolding quota_inv_def st by (auto split: if_splits)
  next
    case False
    note k = only_usage_keys [OF only assms(3) v(1,2) False]
    have "limits_below rd cfg t ty B ls r'" using lb limits_below_cong [OF k(2)] by blast
    moreover have "granted_to t ty (qs_grants s @ (if is_granted x then [(t', ty', n)] else [])) =
        granted_to t ty (qs_grants s)" using False by auto
    ultimately show ?thesis
      using u get_number_cong [OF k(1)] pend unfolding quota_inv_def st by simp
  qed
qed (use assms(6) in simp)

lemma quota_inv_change:
  assumes "redis_strings_ok rd" "valid_id t" "t \<noteq> ''limit''" "in_i64 B" "quota_inv rd cfg t ty B ls u0 s"
    "in_period rd cfg t ty B (ChangeLimit l ctx ty' limit)"
  shows "quota_inv rd cfg t ty B ls u0 (quota_step rd cfg s (ChangeLimit l ctx ty' limit))"
proof (cases "rq_getTenantIDFromContext ctx = Ok t \<and> ty' = ty \<and> 0 \<le> limit")
  case True
  let ?r = "fst (redis_call l (setLimitScript rd (buildLimitKey cfg t ty) limit) (qs_redis s))"
  have r: "fst (rq_SetLimit rd cfg l (qs_redis s) ctx ty' limit) = ?r"
    using True by (auto simp: rq_SetLimit_def split: res.split prod.split)
  have "only_key rd (buildLimitKey cfg t ty) (qs_redis s) ?r"
    using set_only_key [OF assms(1), of ctx t cfg ty "qs_redis s" l limit] True r by simp
  then have "rd_get rd ?r (buildUsageKey cfg t ty) = rd_get rd (qs_redis s) (buildUsageKey cfg t ty)"
    using usage_limit_key [OF assms(2,3)] by (simp add: only_key_def)
  moreover have "limits_below rd cfg t ty B ls ?r"
    using limits_below_set [OF assms(1) _ _ _ assms(4)] assms(5,6) True by (auto simp: quota_inv_def)
  ultimately show ?thesis using assms(5) get_number_cong by (fastforce simp: r quota_inv_def)
next
  case False
  have "fst (rq_SetLimit rd cfg l (qs_redis s) ctx ty' limit) = qs_redis s \<or>
      (\<exists>t'. rq_getTenantIDFromContext ctx = Ok t' \<and> \<not> (t' = t \<and> ty' = ty))"
    using False by (auto simp: rq_SetLimit_def split: res.split)
  then show ?thesis
  proof
    assume "\<exists>t'. rq_getTenantIDFromContext ctx = Ok t' \<and> \<not> (t' = t \<and> ty' = ty)"
    then obtain t' where t': "rq_getTenantIDFromContext ctx = Ok t'" "\<not> (t' = t \<and> ty' = ty)" by blast
    have v: "valid_id t'" using assms(6) t'(1) by (simp add: tenant_named_def)
    from set_only_key [OF assms(1) t'(1), of cfg ty' "qs_redis s" l limit] show ?thesis
      using assms(5) usage_keys(2) [OF assms(2) v] usage_limit_key [OF assms(2,3)] t'(2)
      by (auto intro!: quota_inv_data simp: only_key_def)
  qed (use assms(5) in \<open>simp add: quota_inv_def\<close>)
qed

lemma quota_inv_reset:
  assumes "redis_strings_ok rd" "valid_id t" "quota_inv rd cfg t ty B ls u0 s" "in_period rd cfg t ty B (ResetUsage l ctx ty')"
  shows "quota_inv rd cfg t ty B ls u0 (quota_step rd cfg s (ResetUsage l ctx ty'))"
proof (cases "rq_getTenantIDFromContext ctx")
  case (Ok t')
  have t': "valid_id t'" "t' \<noteq> ''limit''" "\<not> (t' = t \<and> ty' = ty)"
    using assms(4) Ok by (auto simp: tenant_named_def)
  from only_usage_keys [OF reset_only_key [OF assms(1) Ok] assms(2) t'] show ?thesis
    using quota_inv_data [OF assms(3)] by simp
qed (use assms(3) in \<open>simp_all add: rq_ResetQuota_def quota_inv_def\<close>)

section \<open>Property\<close>

lemma quota_inv_step:
  assumes "redis_strings_ok rd" "0 < whole_seconds (rqc_ResetTTL cfg)" "valid_id t" "t \<noteq> ''limit''" "in_i64 B"
    "in_period rd cfg t ty B e" "reads t ty [e] \<subseteq> ls" "quota_inv rd cfg t ty B ls u0 s"
  shows "quota_inv rd cfg t ty B ls u0 (quota_step rd cfg s e)"
proof (cases e)
  case (ReadLimit i l ctx ty' n)
  then show ?thesis
    using quota_inv_read [OF assms(8), of i l ctx ty' n] assms(6,7) by (simp add: reads_def subset_iff)
next
  case (RunScript i l)
  then show ?thesis using quota_inv_run [OF assms(1-5,8)] by simp
next
  case (ChangeLimit l ctx ty' limit)
  then show ?thesis using quota_inv_change [OF assms(1,3-5,8)] assms(6) by simp
next
  case (ResetUsage l ctx ty')
  then show ?thesis using quota_inv_reset [OF assms(1,3,8)] assms(6) by simp
next
  case (Elsewhere f)
  then show ?thesis using quota_inv_data [OF assms(8)] assms(6) by simp
qed

lemma quota_inv_steps:
  assumes "redis_strings_ok rd" "0 < whole_seconds (rqc_ResetTTL cfg)" "valid_id t" "t \<noteq> ''limit''" "in_i64 B"
    "\<forall>e \<in> set evs. in_period rd cfg t ty B e" "reads t ty evs \<subseteq> ls" "quota_inv rd cfg t ty B ls u0 s"
  shows "quota_inv rd cfg t ty B ls u0 (quota_steps rd cfg s evs)"
  using assms(6-8)
proof (induction evs arbitrary: s)
  case (Cons e evs)
  have "reads t ty [e] \<subseteq> ls" "reads t ty evs \<subseteq> ls" using Cons.prems(2) by (auto simp: reads_def)
  then show ?case using Cons.IH quota_inv_step [OF assms(1-5)] Cons.prems(1,3) by simp
qed simp

text \<open>
  C11. The quota on the Redis server holds command by command: however the commands of all clients
  interleave in a period, also between the two commands of a call and while the limit is changed, and
  whichever connections fail, the calls of \<^verbatim>\<open>ConsumeQuota\<close> for a tenant and a type are together
  granted at most what the largest limit that is ever in effect leaves, and the usage on the server
  covers every grant. A limit is in effect when it is stored or, where reading it may fail, when it is
  the configured one. \<^verbatim>\<open>ResetTTL\<close> is at least a second: a shorter one is passed as 0 and deletes the
  counter. The tenant is valid and is not called limit (C28).
\<close>

theorem redis_quota_interleaved:
  assumes "redis_strings_ok rd" "0 < whole_seconds (rqc_ResetTTL cfg)" "valid_id t" "t \<noteq> ''limit''" "lua_exact B"
    "\<forall>e \<in> set evs. in_period rd cfg t ty B e" "limits_below rd cfg t ty B (reads t ty evs) r"
    "get_number rd r (buildUsageKey cfg t ty) = Ok u" "0 \<le> u"
    "quota_steps rd cfg \<lparr>qs_redis = r, qs_pending = Map.empty, qs_grants = []\<rparr> evs = s"
  shows "granted_to t ty (qs_grants s) \<le> max 0 (B - u) \<and>
    (\<exists>u'. get_number rd (qs_redis s) (buildUsageKey cfg t ty) = Ok u' \<and>
       u + granted_to t ty (qs_grants s) \<le> u' \<and> u' \<le> max u B)"
proof -
  have B: "in_i64 B" using assms(5) by (auto simp: lua_exact_def i64_defs abs_le_iff)
  have "quota_inv rd cfg t ty B (reads t ty evs) u \<lparr>qs_redis = r, qs_pending = Map.empty, qs_grants = []\<rparr>"
    using assms(7-9) by (simp add: quota_inv_def)
  from quota_inv_steps [OF assms(1-4) B assms(6) subset_refl this] show ?thesis
    using assms(10) by (auto simp: quota_inv_def)
qed

text \<open>
  A call that has read its limit is not bound by a limit set since: here the tenant's limit is 5 when
  the call reads it and 2 when its script runs, and usage ends at 4.
\<close>

definition lowered_in_flight :: "(string \<rightharpoonup> rvalue) quota_event list" where
  "lowered_in_flight =
     [ReadLimit 0 Served (redis_ctx ''acme'') ''api'' 3, ChangeLimit Served (redis_ctx ''acme'') ''api'' 2, RunScript 0 Served]"

lemma redis_quota_interleaved_witness:
  "let s = quota_steps plain_redis rq_DefaultConfig \<lparr>qs_redis = shared_redis, qs_pending = Map.empty, qs_grants = []\<rparr>
         lowered_in_flight
   in granted_to ''acme'' ''api'' (qs_grants s) = 3 \<and> granted_to ''acme'' ''api'' (qs_grants s) \<le> max 0 (5 - 1) \<and>
     resolveLimit plain_redis rq_DefaultConfig Served (qs_redis s) ''acme'' ''api'' = Ok 2"
proof -
  obtain s where s: "quota_steps plain_redis rq_DefaultConfig
      \<lparr>qs_redis = shared_redis, qs_pending = Map.empty, qs_grants = []\<rparr> lowered_in_flight = s" by blast
  have p: "\<forall>e \<in> set lowered_in_flight. in_period plain_redis rq_DefaultConfig ''acme'' ''api'' 5 e"
    by (simp add: lowered_in_flight_def tenant_named_def redis_ctx acme_valid lua_exact_def)
  have "resolveLimit plain_redis rq_DefaultConfig Served shared_redis ''acme'' ''api'' = Ok 5" by code_simp
  then have l: "limits_below plain_redis rq_DefaultConfig ''acme'' ''api'' 5 (reads ''acme'' ''api'' lowered_in_flight) shared_redis"
    by (auto simp: limits_below_def reads_def lowered_in_flight_def)
  have g: "get_number plain_redis shared_redis (buildUsageKey rq_DefaultConfig ''acme'' ''api'') = Ok 1" by code_simp
  have t: "0 < whole_seconds (rqc_ResetTTL rq_DefaultConfig)" by code_simp
  have e: "granted_to ''acme'' ''api'' (qs_grants (quota_steps plain_redis rq_DefaultConfig
      \<lparr>qs_redis = shared_redis, qs_pending = Map.empty, qs_grants = []\<rparr> lowered_in_flight)) = 3 \<and>
    resolveLimit plain_redis rq_DefaultConfig Served (qs_redis (quota_steps plain_redis rq_DefaultConfig
      \<lparr>qs_redis = shared_redis, qs_pending = Map.empty, qs_grants = []\<rparr> lowered_in_flight)) ''acme'' ''api'' = Ok 2"
    by code_simp
  from redis_quota_interleaved [OF plain_redis_strings t _ _ _ p l g _ s] e s show ?thesis
    by (simp add: acme_valid lua_exact_def Let_def)
qed

end
