(* ===== verification/Example_Programs.thy ===== *)
theory Example_Programs
  imports Concurrent_DB Http_Middleware "HOL-Library.List_Lexorder" "HOL-Library.Char_ord"
begin

text \<open>
  The two programs under examples/: basic/main.go, a program of straight-line calls on a wrapped
  SQLite database, and http-middleware/main.go, a server with a tenant middleware of its own. SQLite
  and the scanning of rows are parameters; what the programs rely on is stated for the texts of the
  statements they send.
\<close>

section \<open>The statements and the configuration\<close>

definition sql_quoted :: "string \<Rightarrow> string" where
  "sql_quoted s = CHR 0x27 # s @ [CHR 0x27]"

definition insert_user :: string where
  "insert_user = ''INSERT INTO users (name, email) VALUES (?, ?)''"

definition select_emails :: string where
  "select_emails = ''SELECT name, email FROM users ORDER BY name''"

definition select_names :: string where
  "select_names = ''SELECT name FROM users ORDER BY name''"

definition count_users :: string where
  "count_users = ''SELECT COUNT(*) FROM users''"

definition create_users :: string where
  "create_users = ''CREATE TABLE users ('' @ newline_tabs 2 @ ''id INTEGER PRIMARY KEY AUTOINCREMENT,''
     @ newline_tabs 2 @ ''tenant_id TEXT NOT NULL,'' @ newline_tabs 2 @ ''name TEXT NOT NULL,''
     @ newline_tabs 2 @ ''email TEXT NOT NULL'' @ newline_tabs 1 @ '')''"

definition create_server_users :: string where
  "create_server_users = ''CREATE TABLE users (id INTEGER PRIMARY KEY, tenant_id TEXT, name TEXT)''"

definition insert_server_users :: string where
  "insert_server_users =
     ''INSERT INTO users (tenant_id, name) VALUES ('' @ sql_quoted ''acme-corp'' @ '', '' @ sql_quoted ''Alice'' @ ''), ('' @
       sql_quoted ''acme-corp'' @ '', '' @ sql_quoted ''Bob'' @ ''), ('' @ sql_quoted ''globex'' @ '', '' @ sql_quoted ''Charlie'' @ '')''"

definition example_config :: config where
  "example_config = \<lparr>TenantTables = [''users''], TenantColumn = ''tenant_id''\<rparr>"

section \<open>The program basic\<close>

datatype exit = Exited | LogFatal go_error | Panicked

text \<open>The state of a run: the \<^verbatim>\<open>DB\<close>, the world of the driver, the lines printed.\<close>

type_synonym ('h, 'w) run = "'h db \<times> 'w \<times> string list"

text \<open>A step either goes on or ends the program.\<close>

type_synonym ('h, 'w) step = "('h, 'w) run \<Rightarrow> ('h, 'w) run \<times> exit option"

fun run_steps :: "('h, 'w) step list \<Rightarrow> ('h, 'w) run \<Rightarrow> ('h, 'w) run \<times> exit" where
  "run_steps [] s = (s, Exited)"
| "run_steps (f # fs) s = (case f s of (s, None) \<Rightarrow> run_steps fs s | (s, Some e) \<Rightarrow> (s, e))"

definition print_line :: "string \<Rightarrow> ('h, 'w) step" where
  "print_line l s = (case s of (db, w, out) \<Rightarrow> ((db, w, out @ [l]), None))"

text \<open>The result of an insertion is not looked at.\<close>

definition insert_step where
  "insert_step ord exec ctx args s =
     (case s of (db, w, out) \<Rightarrow>
        (case db_Exec ord exec db w ctx insert_user args of
           (db, w, Panic) \<Rightarrow> ((db, w, out), Some Panicked)
         | (db, w, _) \<Rightarrow> ((db, w, out), None)))"

text \<open>A row is the list of the texts \<^verbatim>\<open>Scan\<close> puts into the variables.\<close>

definition user_line :: "string list \<Rightarrow> string" where
  "user_line row = ''  '' @ hd row @ '' <'' @ hd (tl row) @ ''>''"

definition print_users where
  "print_users ord exec rows_of ctx s =
     (case s of (db, w, out) \<Rightarrow>
        (case db_Query ord exec db w ctx select_emails [] of
           (db, w, Ok rows) \<Rightarrow> ((db, w, out @ map user_line (rows_of rows)), None)
         | (db, w, Err e) \<Rightarrow> ((db, w, out), Some (LogFatal e))
         | (db, w, Panic) \<Rightarrow> ((db, w, out), Some Panicked)))"

text \<open>\<^verbatim>\<open>Scan\<close> of a count: the zero row panics, an error leaves the variable 0.\<close>

definition scan_count :: "('r \<Rightarrow> int) \<Rightarrow> 'r row \<Rightarrow> int res" where
  "scan_count int_of row =
     (case row of
        ZeroRow \<Rightarrow> Panic
      | RowOf (Ok r) \<Rightarrow> Ok (int_of r)
      | RowOf (Err e) \<Rightarrow> Ok 0
      | RowOf Panic \<Rightarrow> Panic)"

definition print_count where
  "print_count ord exec int_of ctx s =
     (case s of (db, w, out) \<Rightarrow>
        (case db_QueryRow ord exec db w ctx count_users [] of
           (db, w, r) \<Rightarrow>
             (case res_bind r (scan_count int_of) of
                Ok n \<Rightarrow> ((db, w, out @ [''  Total: '' @ int_str n @ '' users'']), None)
              | _ \<Rightarrow> ((db, w, out), Some Panicked))))"

definition basic_steps where
  "basic_steps ord exec rows_of int_of =
     (let ctx1 = WithTenant background ''acme-corp'';
          ctx2 = WithTenant background ''globex-inc'';
          adminCtx = WithoutTenantFiltering background
      in [insert_step ord exec ctx1 [GStr ''Alice'', GStr ''alice@acme.com''],
          insert_step ord exec ctx1 [GStr ''Bob'', GStr ''bob@acme.com''],
          insert_step ord exec ctx2 [GStr ''Charlie'', GStr ''charlie@globex.com''],
          print_line ''=== Acme Corp users ==='',
          print_users ord exec rows_of ctx1,
          print_line ''=== Globex Inc users ==='',
          print_users ord exec rows_of ctx2,
          print_line ''=== All users (admin) ==='',
          print_count ord exec int_of adminCtx])"

text \<open>
  \<^verbatim>\<open>main\<close>, from the result of \<^verbatim>\<open>sql.Open\<close>: the world after it, the lines printed, and how it ends.
  The deferred \<^verbatim>\<open>Close\<close> does not run after \<^verbatim>\<open>log.Fatal\<close>.
\<close>

definition basic_main where
  "basic_main ord exec rows_of int_of close opened w =
     (case opened of
        Err e \<Rightarrow> (w, [], LogFatal e)
      | Panic \<Rightarrow> (w, [], Panicked)
      | Ok h \<Rightarrow>
     (case exec h (ExecContext background create_users []) w of
        (w, Err e) \<Rightarrow> (w, [], LogFatal e)
      | (w, Panic) \<Rightarrow> (close h w, [], Panicked)
      | (w, Ok _) \<Rightarrow>
     (case WrapWithStyle (Some h) example_config PlaceholderQuestion of
        Err e \<Rightarrow> (w, [], LogFatal e)
      | Panic \<Rightarrow> (close h w, [], Panicked)
      | Ok db \<Rightarrow>
     (case run_steps (basic_steps ord exec rows_of int_of) (db, w, []) of
        ((db, w, out), LogFatal e) \<Rightarrow> (w, out, LogFatal e)
      | ((db, w, out), e) \<Rightarrow> (close h w, out, e)))))"

section \<open>The program http-middleware\<close>

text \<open>
  The start of \<^verbatim>\<open>main\<close>, from the result of \<^verbatim>\<open>sql.Open\<close>; the results of the two statements are not
  looked at.
\<close>

definition server_setup where
  "server_setup exec opened w =
     (case opened of
        Err e \<Rightarrow> (w, Err e)
      | Panic \<Rightarrow> (w, Panic)
      | Ok h \<Rightarrow>
     (case exec h (ExecContext background create_server_users []) w of
        (w, Panic) \<Rightarrow> (w, Panic)
      | (w, _) \<Rightarrow>
     (case exec h (ExecContext background insert_server_users []) w of
        (w, Panic) \<Rightarrow> (w, Panic)
      | (w, _) \<Rightarrow> (w, WrapWithStyle (Some h) example_config PlaceholderQuestion))))"

text \<open>\<^verbatim>\<open>string(rune(n))\<close>: the UTF-8 encoding of a code point, or of the replacement character.\<close>

definition utf8 :: "int \<Rightarrow> string" where
  "utf8 n =
     (if n < 0 \<or> 0x10FFFF < n \<or> 0xD800 \<le> n \<and> n \<le> 0xDFFF then map char_of [0xEF, 0xBF, 0xBD :: nat]
      else if n < 0x80 then [char_of n]
      else if n < 0x800 then map char_of [0xC0 + n div 0x40, 0x80 + n mod 0x40]
      else if n < 0x10000 then map char_of [0xE0 + n div 0x1000, 0x80 + n div 0x40 mod 0x40, 0x80 + n mod 0x40]
      else map char_of [0xF0 + n div 0x40000, 0x80 + n div 0x1000 mod 0x40, 0x80 + n div 0x40 mod 0x40, 0x80 + n mod 0x40])"

text \<open>A conversion to \<^verbatim>\<open>rune\<close> keeps 32 bits, with the sign.\<close>

definition rune :: "int \<Rightarrow> int" where
  "rune n = (n + 2 ^ 31) mod 2 ^ 32 - 2 ^ 31"

definition Write :: "response \<Rightarrow> string \<Rightarrow> response" where
  "Write w s = (let w = WriteHeader 200 w in w\<lparr>rw_body := rw_body w @ s\<rparr>)"

text \<open>Handlers work on the \<^verbatim>\<open>DB\<close> and the world of the driver.\<close>

type_synonym ('h, 'w) db_handler = "'h db \<times> 'w \<Rightarrow> response \<Rightarrow> request \<Rightarrow> ('h db \<times> 'w) \<times> response res"

definition tenantMiddleware :: "('h, 'w) db_handler \<Rightarrow> ('h, 'w) db_handler" where
  "tenantMiddleware next_handler s w r =
     (let tenantID = Header_Get r ''X-Tenant-ID''
      in if tenantID = [] then (s, Ok (http_Error w ''missing X-Tenant-ID header'' 400))
         else next_handler s w (r\<lparr>rq_ctx := WithTenant (rq_ctx r) tenantID\<rparr>))"

definition usersHandler where
  "usersHandler ord exec rows_of s w r =
     (case s of (db, x) \<Rightarrow>
        (case db_Query ord exec db x (rq_ctx r) select_names [] of
           (db, x, Err e) \<Rightarrow> ((db, x), Ok (http_Error w (error_string e) 500))
         | (db, x, Panic) \<Rightarrow> ((db, x), Panic)
         | (db, x, Ok rows) \<Rightarrow>
             ((db, x), Ok (foldl (\<lambda>w row. Write w (hd row @ [CHR 0x0A]))
                (Header_Set ''Content-Type'' ''text/plain'' w) (rows_of rows)))))"

definition adminHandler where
  "adminHandler ord exec int_of s w r =
     (case s of (db, x) \<Rightarrow>
        (case db_QueryRow ord exec db x (WithoutTenantFiltering background) count_users [] of
           (db, x, row) \<Rightarrow>
             ((db, x),
              case res_bind row (scan_count int_of) of
                Ok n \<Rightarrow>
                  Ok (Write (Header_Set ''Content-Type'' ''text/plain'' w)
                    (''Total users: '' @ utf8 (rune (add64 n 48)) @ [CHR 0x0A]))
              | _ \<Rightarrow> Panic)))"

text \<open>\<^verbatim>\<open>mux\<close>; \<open>others\<close> is what it does with other paths.\<close>

definition example_mux where
  "example_mux ord exec rows_of int_of others s w r =
     (if rq_Path r = ''/users'' then tenantMiddleware (usersHandler ord exec rows_of) s w r
      else if rq_Path r = ''/admin/count'' then adminHandler ord exec int_of s w r
      else (s, others w r))"


section \<open>What the statements become\<close>

definition example_statements :: "(string \<times> string) list" where
  "example_statements =
     [(insert_user, ''INSERT INTO users (tenant_id, name, email) VALUES (?, ?, ?)''),
      (select_emails, ''SELECT name, email FROM users WHERE users.tenant_id = ? ORDER BY name''),
      (select_names, ''SELECT name FROM users WHERE users.tenant_id = ? ORDER BY name'')]"

definition example_interceptor :: interceptor where
  "example_interceptor = \<lparr>icpt_config = example_config, systemDetector = NewSystemQueryDetector,
     tenantTableMap = {''users''}\<rparr>"

definition example_db :: "'h \<Rightarrow> 'h db" where
  "example_db h = \<lparr>db_db = h, db_interceptor = example_interceptor, db_config = example_config,
     placeholderStyle = PlaceholderQuestion, queryCache = NewQueryCache 1000\<rparr>"

lemma example_db_wrap: "WrapWithStyle (Some h) example_config PlaceholderQuestion = Ok (example_db h)"
proof -
  have "to_lower ''users'' = ''users''" by code_simp
  then show ?thesis
    by (simp add: WrapWithStyle_def Wrap_def NewInterceptor_def example_config_def example_interceptor_def example_db_def)
qed

lemma example_plans:
  "list_all (\<lambda>(q, q'). trim_space q = q \<and> \<not> IsSystemQuery NewSystemQueryDetector q \<and>
     filter (\<lambda>t. to_lower t \<in> set [''users'']) (tables_of q) \<noteq> [] \<and> \<not> has_prefix (to_upper q) ''UPDATE'' \<and>
     plan example_config PlaceholderQuestion q = Some (q', 1)) example_statements"
  by code_simp

lemma example_hashes: "distinct (map (hashQuery \<circ> fst) example_statements)"
  by code_simp

lemma example_inj: "inj_on hashQuery (fst ` set example_statements)"
  using example_hashes by (fastforce simp: distinct_map inj_on_def)

lemma count_users_free: "\<not> needs_tenant example_interceptor (WithoutTenantFiltering background) count_users"
  by (simp add: needs_tenant_def)

text \<open>All that the programs do to their \<^verbatim>\<open>DB\<close> keeps this.\<close>

definition example_ok :: "'h \<Rightarrow> 'h db \<Rightarrow> bool" where
  "example_ok h db \<longleftrightarrow> db_ok db \<and> db_db db = h \<and> db_interceptor db = example_interceptor \<and>
     db_config db = example_config \<and> placeholderStyle db = PlaceholderQuestion \<and>
     cache_from (fst ` set example_statements) (queryCache db)"

lemma example_ok_new: "example_ok h (example_db h)"
  using db_ok_wrap [OF example_db_wrap, of h]
  by (simp add: example_ok_def example_db_def cache_from_def NewQueryCache_def)

lemma cache_from_inject:
  assumes "qc_ok (queryCache db)" "cache_from Q (queryCache db)" "trim_space q \<in> Q"
  shows "cache_from Q (queryCache (fst (injectTenantFilter ord db q t args)))"
proof -
  let ?qc = "fst (qc_Get (queryCache db) (trim_space q))"
  have g: "qc_ok ?qc" "cache_from Q ?qc"
    using assms(1,2) by (simp_all add: qc_Get_two_steps)
  show ?thesis
    using g cache_from_put [OF g assms(3)]
    by (auto simp: injectTenantFilter_def Let_def split: prod.splits option.splits res.splits)
qed

lemma example_call:
  assumes "map_order ord" "example_ok h db" "(q, q') \<in> set example_statements"
    "GetTenant ctx = (t, True)" "\<not> shouldBypass ctx"
  shows "\<exists>db'. example_ok h db' \<and>
    db_Exec ord exec db w ctx q args = (db', exec h (ExecContext ctx q' (GStr t # args)) w) \<and>
    db_Query ord exec db w ctx q args = (db', exec h (QueryContext ctx q' (GStr t # args)) w)"
proof -
  let ?Q = "fst ` set example_statements" and ?db' = "fst (injectTenantFilter ord db q t args)"
  note ok = assms(2) [unfolded example_ok_def]
  have q: "trim_space q = q" "\<not> IsSystemQuery NewSystemQueryDetector q"
    "filter (\<lambda>t. to_lower t \<in> set [''users'']) (tables_of q) \<noteq> []" "\<not> has_prefix (to_upper q) ''UPDATE''"
    "plan example_config PlaceholderQuestion q = Some (q', 1)"
    using example_plans assms(3) by (auto simp: list_all_iff)
  have Q: "q \<in> ?Q" using assms(3) by force
  have n: "needs_tenant (db_interceptor db) ctx q"
    using q(2,3) assms(5) ok by (simp add: needs_tenant_def touched_def example_interceptor_def)
  have c: "no_collision db q"
  proof -
    have "originalQuery e = q" if "map_of (entries (queryCache db)) (hashQuery q) = Some e" for e
    proof -
      have "hashQuery (originalQuery e) = hashQuery q" using ok map_of_SomeD [OF that] by (auto simp: db_ok_def qc_ok_def)
      moreover have "originalQuery e \<in> ?Q" using ok that unfolding cache_from_def by blast
      ultimately show ?thesis using example_inj Q by (simp add: inj_on_eq_iff)
    qed
    then show ?thesis by (auto simp: no_collision_def qc_lookup_def q(1) split: option.splits)
  qed
  have "uncached db q t args = Ok (q', GStr t # args)"
    using plan_inject_miss [OF q(5), of t args] q(1,4) ok by (simp add: uncached_def cached_args_def)
  then have s: "snd (injectTenantFilter ord db q t args) = Ok (q', GStr t # args)"
    using injectTenantFilter_uncached [of db q ord t args] c ok by (simp add: db_ok_def)
  have k: "db_ok db" "qc_ok (queryCache db)" "cache_from ?Q (queryCache db)"
    using ok unfolding db_ok_def by blast+
  have "db_ok ?db'" "cache_from ?Q (queryCache ?db')"
    using db_ok_inject [OF assms(1) k(1)] cache_from_inject [OF k(2,3), of q] q(1) Q by simp_all
  then have "example_ok h ?db'"
    using injectTenantFilter_frame [of ord db q t args] ok by (simp add: example_ok_def)
  then show ?thesis
    using methods_send(1,2) [OF n assms(4), of ord exec w args] s ok by (intro exI [of _ ?db']) (simp add: send_def)
qed

lemma example_count:
  assumes "example_ok h db"
  shows "db_QueryRow ord exec db w (WithoutTenantFiltering background) count_users [] =
    (db, fst (exec h (QueryRowContext (WithoutTenantFiltering background) count_users []) w),
     Ok (RowOf (snd (exec h (QueryRowContext (WithoutTenantFiltering background) count_users []) w))))"
  using methods_pass(3) [of db "WithoutTenantFiltering background" count_users ord exec w "[]"] count_users_free assms
  by (simp add: example_ok_def)


section \<open>What the programs rely on\<close>

text \<open>
  The driver is a parameter. What the programs use of it is what SQL says of the statements as the
  library sends them, each with the table its program creates and as long as no call fails for another
  reason: \<open>tbl\<close> gives the rows of the table \<^verbatim>\<open>users\<close> in the order they were inserted, \<open>None\<close> while there is
  no such table, and the other statements are only said to succeed where there is one. \<open>rows_of\<close> gives
  the texts of a result's rows, \<open>int_of\<close> the number of a count. Rows with the same name may come in any
  order.
\<close>

type_synonym user = "string \<times> string \<times> string"

definition users_of :: "string \<Rightarrow> user list \<Rightarrow> user list" where
  "users_of t us = filter (\<lambda>u. fst u = t) us"

definition insert_sent :: string where
  "insert_sent = ''INSERT INTO users (tenant_id, name, email) VALUES (?, ?, ?)''"

definition emails_sent :: string where
  "emails_sent = ''SELECT name, email FROM users WHERE users.tenant_id = ? ORDER BY name''"

definition names_sent :: string where
  "names_sent = ''SELECT name FROM users WHERE users.tenant_id = ? ORDER BY name''"

definition sql_basic ::
  "('h \<Rightarrow> go_ctx sql_call \<Rightarrow> 'w \<Rightarrow> 'w \<times> 'r res) \<Rightarrow> 'h \<Rightarrow> ('r \<Rightarrow> string list list) \<Rightarrow> ('r \<Rightarrow> int)
     \<Rightarrow> ('w \<Rightarrow> user list option) \<Rightarrow> bool" where
  "sql_basic exec h rows_of int_of tbl \<longleftrightarrow>
     (\<forall>ctx w. tbl w = None \<longrightarrow>
        (\<exists>w' r. exec h (ExecContext ctx create_users []) w = (w', Ok r) \<and> tbl w' = Some [])) \<and>
     (\<forall>ctx w us t name email. tbl w = Some us \<longrightarrow>
        (\<exists>w' r. exec h (ExecContext ctx insert_sent [GStr t, GStr name, GStr email]) w = (w', Ok r) \<and>
           tbl w' = Some (us @ [(t, name, email)]))) \<and>
     (\<forall>ctx w us t. tbl w = Some us \<longrightarrow>
        (\<exists>w' r vs. exec h (QueryContext ctx emails_sent [GStr t]) w = (w', Ok r) \<and> tbl w' = Some us \<and>
           mset vs = mset (users_of t us) \<and> sorted (map (\<lambda>(t, name, email). name) vs) \<and>
           rows_of r = map (\<lambda>(t, name, email). [name, email]) vs)) \<and>
     (\<forall>ctx w us. tbl w = Some us \<longrightarrow>
        (\<exists>w' r. exec h (QueryRowContext ctx count_users []) w = (w', Ok r) \<and> tbl w' = Some us \<and>
           int_of r = int (length us)))"

lemma sql_basicD:
  assumes "sql_basic exec h rows_of int_of tbl"
  shows "tbl w = None \<Longrightarrow> \<exists>w' r. exec h (ExecContext ctx create_users []) w = (w', Ok r) \<and> tbl w' = Some []"
    "tbl w = Some us \<Longrightarrow> \<exists>w' r. exec h (ExecContext ctx insert_sent [GStr t, GStr name, GStr email]) w = (w', Ok r) \<and>
      tbl w' = Some (us @ [(t, name, email)])"
    "tbl w = Some us \<Longrightarrow> \<exists>w' r vs. exec h (QueryContext ctx emails_sent [GStr t]) w = (w', Ok r) \<and> tbl w' = Some us \<and>
      mset vs = mset (users_of t us) \<and> sorted (map (\<lambda>(t, name, email). name) vs) \<and>
      rows_of r = map (\<lambda>(t, name, email). [name, email]) vs"
    "tbl w = Some us \<Longrightarrow> \<exists>w' r. exec h (QueryRowContext ctx count_users []) w = (w', Ok r) \<and> tbl w' = Some us \<and>
      int_of r = int (length us)"
  using assms unfolding sql_basic_def by blast+

text \<open>The server's table has no column \<^verbatim>\<open>email\<close>: a row is a tenant and a name.\<close>

type_synonym member = "string \<times> string"

definition names_of :: "string \<Rightarrow> member list \<Rightarrow> string list" where
  "names_of t us = sort (map snd (filter (\<lambda>u. fst u = t) us))"

definition server_users :: "member list" where
  "server_users = [(''acme-corp'', ''Alice''), (''acme-corp'', ''Bob''), (''globex'', ''Charlie'')]"

definition sql_server ::
  "('h \<Rightarrow> go_ctx sql_call \<Rightarrow> 'w \<Rightarrow> 'w \<times> 'r res) \<Rightarrow> 'h \<Rightarrow> ('r \<Rightarrow> string list list) \<Rightarrow> ('r \<Rightarrow> int)
     \<Rightarrow> ('w \<Rightarrow> member list option) \<Rightarrow> bool" where
  "sql_server exec h rows_of int_of tbl \<longleftrightarrow>
     (\<forall>ctx w. tbl w = None \<longrightarrow>
        (\<exists>w' r. exec h (ExecContext ctx create_server_users []) w = (w', Ok r) \<and> tbl w' = Some [])) \<and>
     (\<forall>ctx w us. tbl w = Some us \<longrightarrow>
        (\<exists>w' r. exec h (ExecContext ctx insert_server_users []) w = (w', Ok r) \<and> tbl w' = Some (us @ server_users))) \<and>
     (\<forall>ctx w us t. tbl w = Some us \<longrightarrow>
        (\<exists>w' r. exec h (QueryContext ctx names_sent [GStr t]) w = (w', Ok r) \<and> tbl w' = Some us \<and>
           rows_of r = map (\<lambda>name. [name]) (names_of t us))) \<and>
     (\<forall>ctx w us. tbl w = Some us \<longrightarrow>
        (\<exists>w' r. exec h (QueryRowContext ctx count_users []) w = (w', Ok r) \<and> tbl w' = Some us \<and>
           int_of r = int (length us)))"

lemma sql_serverD:
  assumes "sql_server exec h rows_of int_of tbl"
  shows "tbl w = None \<Longrightarrow> \<exists>w' r. exec h (ExecContext ctx create_server_users []) w = (w', Ok r) \<and> tbl w' = Some []"
    "tbl w = Some us \<Longrightarrow> \<exists>w' r. exec h (ExecContext ctx insert_server_users []) w = (w', Ok r) \<and> tbl w' = Some (us @ server_users)"
    "tbl w = Some us \<Longrightarrow> \<exists>w' r. exec h (QueryContext ctx names_sent [GStr t]) w = (w', Ok r) \<and> tbl w' = Some us \<and>
      rows_of r = map (\<lambda>name. [name]) (names_of t us)"
    "tbl w = Some us \<Longrightarrow> \<exists>w' r. exec h (QueryRowContext ctx count_users []) w = (w', Ok r) \<and> tbl w' = Some us \<and>
      int_of r = int (length us)"
  using assms unfolding sql_server_def by blast+

text \<open>
  In-memory drivers with these laws, one for each table: a statement on a table that does not exist, a
  second creation and any other statement are refused.
\<close>

datatype mem_result = MemRows "string list list" | MemInt int

definition mem_basic :: "unit \<Rightarrow> go_ctx sql_call \<Rightarrow> user list option \<Rightarrow> user list option \<times> mem_result res" where
  "mem_basic h c tbl =
     (case (c, tbl) of
        (ExecContext ctx q [], None) \<Rightarrow>
          if q = create_users then (Some [], Ok (MemInt 0)) else (tbl, Err (NewErr ''no such table: users''))
      | (ExecContext ctx q [GStr t, GStr name, GStr email], Some us) \<Rightarrow>
          if q = insert_sent then (Some (us @ [(t, name, email)]), Ok (MemInt 1)) else (tbl, Err (NewErr ''syntax error''))
      | (QueryContext ctx q [GStr t], Some us) \<Rightarrow>
          if q = emails_sent
          then (tbl, Ok (MemRows (map (\<lambda>(t, name, email). [name, email]) (sort_key (\<lambda>(t, name, email). name) (users_of t us)))))
          else (tbl, Err (NewErr ''syntax error''))
      | (QueryRowContext ctx q [], Some us) \<Rightarrow>
          if q = count_users then (tbl, Ok (MemInt (int (length us)))) else (tbl, Err (NewErr ''syntax error''))
      | _ \<Rightarrow> (tbl, Err (NewErr ''SQL logic error'')))"

definition mem_server :: "unit \<Rightarrow> go_ctx sql_call \<Rightarrow> member list option \<Rightarrow> member list option \<times> mem_result res" where
  "mem_server h c tbl =
     (case (c, tbl) of
        (ExecContext ctx q [], None) \<Rightarrow>
          if q = create_server_users then (Some [], Ok (MemInt 0)) else (tbl, Err (NewErr ''no such table: users''))
      | (ExecContext ctx q [], Some us) \<Rightarrow>
          if q = insert_server_users then (Some (us @ server_users), Ok (MemInt 3)) else (tbl, Err (NewErr ''syntax error''))
      | (QueryContext ctx q [GStr t], Some us) \<Rightarrow>
          if q = names_sent then (tbl, Ok (MemRows (map (\<lambda>name. [name]) (names_of t us))))
          else (tbl, Err (NewErr ''syntax error''))
      | (QueryRowContext ctx q [], Some us) \<Rightarrow>
          if q = count_users then (tbl, Ok (MemInt (int (length us)))) else (tbl, Err (NewErr ''syntax error''))
      | _ \<Rightarrow> (tbl, Err (NewErr ''SQL logic error'')))"

fun mem_rows :: "mem_result \<Rightarrow> string list list" where
  "mem_rows (MemRows rows) = rows"
| "mem_rows (MemInt n) = []"

fun mem_int :: "mem_result \<Rightarrow> int" where
  "mem_int (MemInt n) = n"
| "mem_int (MemRows rows) = 0"

lemma mem_basic_laws: "sql_basic mem_basic () mem_rows mem_int (\<lambda>tbl. tbl)"
proof -
  have "\<exists>vs. mset vs = mset us \<and> sorted (map (\<lambda>(t, name, email). name) vs) \<and>
      map (\<lambda>(t, name, email). [name, email]) (sort_key (\<lambda>(t, name, email). name) us) = map (\<lambda>(t, name, email). [name, email]) vs"
    for us :: "user list"
    by (intro exI [of _ "sort_key (\<lambda>(t, name, email). name) us"]) simp
  then show ?thesis by (simp add: sql_basic_def mem_basic_def)
qed

lemma mem_server_laws: "sql_server mem_server () mem_rows mem_int (\<lambda>tbl. tbl)"
  by (simp add: sql_server_def mem_server_def)


section \<open>The steps of basic\<close>

lemma background_free: "\<not> shouldBypass background"
  by (simp add: shouldBypass_def background_def)

lemma insert_step_users:
  assumes "map_order ord" "sql_basic exec h rows_of int_of tbl" "example_ok h db" "t \<noteq> []" "tbl w = Some us"
  shows "\<exists>db' w'. insert_step ord exec (WithTenant background t) [GStr name, GStr email] (db, w, out) = ((db', w', out), None) \<and>
    example_ok h db' \<and> tbl w' = Some (us @ [(t, name, email)])"
proof -
  let ?ctx = "WithTenant background t"
  have "(insert_user, insert_sent) \<in> set example_statements"
    by (simp add: example_statements_def insert_sent_def)
  from example_call [OF assms(1,3) this GetTenant_WithTenant [OF assms(4)], of background exec w "[GStr name, GStr email]"]
  obtain db' where "example_ok h db'" "db_Exec ord exec db w ?ctx insert_user [GStr name, GStr email] =
      (db', exec h (ExecContext ?ctx insert_sent [GStr t, GStr name, GStr email]) w)"
    using background_free by auto
  moreover obtain w' r where "exec h (ExecContext ?ctx insert_sent [GStr t, GStr name, GStr email]) w = (w', Ok r)"
    "tbl w' = Some (us @ [(t, name, email)])"
    using sql_basicD(2) [OF assms(2,5)] by blast
  ultimately show ?thesis by (simp add: insert_step_def)
qed

lemma print_users_users:
  assumes "map_order ord" "sql_basic exec h rows_of int_of tbl" "example_ok h db" "t \<noteq> []" "tbl w = Some us"
    "distinct (map (\<lambda>(t, name, email). name) (users_of t us))"
  shows "\<exists>db' w'. print_users ord exec rows_of (WithTenant background t) (db, w, out) =
      ((db', w', out @ map (\<lambda>(t, name, email). user_line [name, email]) (sort_key (\<lambda>(t, name, email). name) (users_of t us))), None) \<and>
    example_ok h db' \<and> tbl w' = Some us"
proof -
  let ?ctx = "WithTenant background t"
  have "(select_emails, emails_sent) \<in> set example_statements"
    by (simp add: example_statements_def emails_sent_def)
  from example_call [OF assms(1,3) this GetTenant_WithTenant [OF assms(4)], of background exec w "[]"]
  obtain db' where e: "example_ok h db'" "db_Query ord exec db w ?ctx select_emails [] =
      (db', exec h (QueryContext ?ctx emails_sent [GStr t]) w)"
    using background_free by auto
  obtain w' r vs where r: "exec h (QueryContext ?ctx emails_sent [GStr t]) w = (w', Ok r)" "tbl w' = Some us"
    "mset vs = mset (users_of t us)" "sorted (map (\<lambda>(t, name, email). name) vs)"
    "rows_of r = map (\<lambda>(t, name, email). [name, email]) vs"
    using sql_basicD(3) [OF assms(2,5)] by blast
  have "sort_key (\<lambda>(t, name, email). name) (users_of t us) = vs"
    using r(3,4) assms(6) by (intro sort_key_inj_key_eq) (simp_all add: distinct_map)
  then show ?thesis using e r(1,2,5) by (simp add: print_users_def split_def comp_def)
qed

lemma print_count_users:
  assumes "sql_basic exec h rows_of int_of tbl" "example_ok h db" "tbl w = Some us"
  shows "\<exists>w'. print_count ord exec int_of (WithoutTenantFiltering background) (db, w, out) =
      ((db, w', out @ [''  Total: '' @ int_str (int (length us)) @ '' users'']), None) \<and> tbl w' = Some us"
proof -
  obtain w' r where "exec h (QueryRowContext (WithoutTenantFiltering background) count_users []) w = (w', Ok r)"
    "tbl w' = Some us" "int_of r = int (length us)"
    using sql_basicD(4) [OF assms(1,3)] by blast
  then show ?thesis by (simp add: print_count_def example_count [OF assms(2)] scan_count_def)
qed

text \<open>The steps of \<^verbatim>\<open>main\<close> on an empty table.\<close>

definition basic_users :: "user list" where
  "basic_users = [(''acme-corp'', ''Alice'', ''alice@acme.com''), (''acme-corp'', ''Bob'', ''bob@acme.com''),
     (''globex-inc'', ''Charlie'', ''charlie@globex.com'')]"

lemma basic_run:
  assumes "map_order ord" "sql_basic exec h rows_of int_of tbl" "tbl w1 = Some []"
  shows "\<exists>db w. tbl w = Some basic_users \<and> run_steps (basic_steps ord exec rows_of int_of) (example_db h, w1, []) =
    ((db, w, [''=== Acme Corp users ==='', ''  Alice <alice@acme.com>'', ''  Bob <bob@acme.com>'',
        ''=== Globex Inc users ==='', ''  Charlie <charlie@globex.com>'',
        ''=== All users (admin) ==='', ''  Total: 3 users'']), Exited)"
proof -
  note ins = insert_step_users [OF assms(1,2)] and shown = print_users_users [OF assms(1,2)]
  obtain db1 w2 where 1: "insert_step ord exec (WithTenant background ''acme-corp'') [GStr ''Alice'', GStr ''alice@acme.com'']
      (example_db h, w1, [] :: string list) = ((db1, w2, []), None)" "example_ok h db1"
    "tbl w2 = Some [(''acme-corp'', ''Alice'', ''alice@acme.com'')]"
    using ins [OF example_ok_new _ assms(3), of "''acme-corp''"] by fastforce
  obtain db2 w3 where 2: "insert_step ord exec (WithTenant background ''acme-corp'') [GStr ''Bob'', GStr ''bob@acme.com'']
      (db1, w2, [] :: string list) = ((db2, w3, []), None)" "example_ok h db2"
    "tbl w3 = Some (take 2 basic_users)"
    using ins [OF 1(2) _ 1(3), of "''acme-corp''"] by (fastforce simp: basic_users_def)
  obtain db3 w4 where 3: "insert_step ord exec (WithTenant background ''globex-inc'') [GStr ''Charlie'', GStr ''charlie@globex.com'']
      (db2, w3, [] :: string list) = ((db3, w4, []), None)" "example_ok h db3"
    "tbl w4 = Some basic_users"
    using ins [OF 2(2) _ 2(3), of "''globex-inc''"] by (fastforce simp: basic_users_def)
  let ?us = basic_users
  let ?a = "[''=== Acme Corp users ==='']"
  let ?b = "?a @ [''  Alice <alice@acme.com>'', ''  Bob <bob@acme.com>'']"
  let ?c = "?b @ [''=== Globex Inc users ==='']"
  let ?d = "?c @ [''  Charlie <charlie@globex.com>'']"
  let ?e = "?d @ [''=== All users (admin) ==='']"
  have u: "map (\<lambda>(t, name, email). user_line [name, email]) (sort_key (\<lambda>(t, name, email). name) (users_of ''acme-corp'' ?us)) = drop 1 ?b"
    "map (\<lambda>(t, name, email). user_line [name, email]) (sort_key (\<lambda>(t, name, email). name) (users_of ''globex-inc'' ?us)) = drop 4 ?d"
    "''  Total: '' @ int_str (int (length ?us)) @ '' users'' = ''  Total: 3 users''"
    by code_simp+
  have d: "distinct (map (\<lambda>(t, name, email). name) (users_of ''acme-corp'' ?us))"
    "distinct (map (\<lambda>(t, name, email). name) (users_of ''globex-inc'' ?us))"
    by code_simp+
  obtain db4 w5 where 4: "print_users ord exec rows_of (WithTenant background ''acme-corp'') (db3, w4, ?a) = ((db4, w5, ?b), None)"
    "example_ok h db4" "tbl w5 = Some ?us"
    using shown [OF 3(2) _ 3(3) d(1), of ?a] u(1) by auto
  obtain db5 w6 where 5: "print_users ord exec rows_of (WithTenant background ''globex-inc'') (db4, w5, ?c) = ((db5, w6, ?d), None)"
    "example_ok h db5" "tbl w6 = Some ?us"
    using shown [OF 4(2) _ 4(3) d(2), of ?c] u(2) by auto
  obtain w7 where 6: "print_count ord exec int_of (WithoutTenantFiltering background) (db5, w6, ?e) =
      ((db5, w7, ?e @ [''  Total: 3 users'']), None)" "tbl w7 = Some ?us"
    using print_count_users [OF assms(2) 5(2,3), of ord ?e] u(3) by auto
  have "run_steps (basic_steps ord exec rows_of int_of) (example_db h, w1, []) =
      ((db5, w7, ?e @ [''  Total: 3 users'']), Exited)"
    using 1(1) 2(1) 3(1) 4(1) 5(1) 6(1) by (simp add: basic_steps_def print_line_def Let_def)
  then show ?thesis using 6(2) by auto
qed

section \<open>Properties\<close>

text \<open>
  C25. The example basic does what its comments promise, on any driver that does with the statements it
  gets what SQL says (\<open>sql_basic\<close>), opened without a table of users: each tenant is shown its own users
  and no others, the administrator the number of all, and the program ends without an error, its three
  insertions being stored for the tenants they were made for although the second and the third come
  from the query cache.
\<close>

theorem basic_example:
  assumes "map_order ord" "sql_basic exec h rows_of int_of tbl" "tbl w0 = None"
  shows "\<exists>w2. tbl w2 = Some basic_users \<and>
    basic_main ord exec rows_of int_of close (Ok h) w0 =
      (close h w2,
       [''=== Acme Corp users ==='', ''  Alice <alice@acme.com>'', ''  Bob <bob@acme.com>'',
        ''=== Globex Inc users ==='', ''  Charlie <charlie@globex.com>'',
        ''=== All users (admin) ==='', ''  Total: 3 users''], Exited)"
proof -
  obtain w1 r where c: "exec h (ExecContext background create_users []) w0 = (w1, Ok r)" "tbl w1 = Some []"
    using sql_basicD(1) [OF assms(2,3)] by blast
  show ?thesis using basic_run [OF assms(1,2) c(2)] by (auto simp: basic_main_def c(1) example_db_wrap)
qed

lemma basic_example_witness:
  "\<exists>w. basic_main (\<lambda>ks. ks) mem_basic mem_rows mem_int (\<lambda>h w. w) (Ok ()) None =
     (w, [''=== Acme Corp users ==='', ''  Alice <alice@acme.com>'', ''  Bob <bob@acme.com>'',
        ''=== Globex Inc users ==='', ''  Charlie <charlie@globex.com>'',
        ''=== All users (admin) ==='', ''  Total: 3 users''], Exited)"
  using basic_example [OF map_order_id mem_basic_laws refl, of "\<lambda>h w. w"] by blast


text \<open>The responses of the server to a sequence of requests, and what it is left with.\<close>

fun serve_all where
  "serve_all ord exec rows_of int_of others s [] = (s, [])"
| "serve_all ord exec rows_of int_of others s (r # rs) =
     (let (s, x) = example_mux ord exec rows_of int_of others s empty_response r;
          (s, xs) = serve_all ord exec rows_of int_of others s rs
      in (s, x # xs))"

definition plain_text :: "string \<Rightarrow> response" where
  "plain_text body =
     \<lparr>rw_header = [(''Content-Type'', ''text/plain'')], rw_code = (if body = [] then 0 else 200), rw_body = body\<rparr>"

text \<open>What a request is answered when the table of users is \<open>us\<close>.\<close>

definition answer_for :: "(response \<Rightarrow> request \<Rightarrow> response res) \<Rightarrow> member list \<Rightarrow> request \<Rightarrow> response res" where
  "answer_for others us r =
     (if rq_Path r = ''/users''
      then let t = Header_Get r ''X-Tenant-ID''
        in Ok (if t = [] then http_Error empty_response ''missing X-Tenant-ID header'' 400
               else plain_text (concat (map (\<lambda>name. name @ [CHR 0x0A]) (names_of t us))))
      else if rq_Path r = ''/admin/count''
      then Ok (plain_text (''Total users: '' @ utf8 (rune (add64 (int (length us)) 48)) @ [CHR 0x0A]))
      else others empty_response r)"

lemma Write_all:
  "foldl (\<lambda>w row. Write w (hd row @ [CHR 0x0A])) w rows =
     (if rows = [] then w
      else (WriteHeader 200 w)\<lparr>rw_body := rw_body w @ concat (map (\<lambda>row. hd row @ [CHR 0x0A]) rows)\<rparr>)"
  by (induction rows arbitrary: w) (auto simp: Write_def WriteHeader_def Let_def)

lemma content_type: "Header_Set ''Content-Type'' ''text/plain'' empty_response =
    \<lparr>rw_header = [(''Content-Type'', ''text/plain'')], rw_code = 0, rw_body = []\<rparr>"
  by code_simp

lemma mux_answer:
  assumes "map_order ord" "sql_server exec h rows_of int_of tbl" "example_ok h db" "\<not> shouldBypass (rq_ctx r)" "tbl w = Some us"
  shows "\<exists>db' w'. example_mux ord exec rows_of int_of others (db, w) empty_response r =
      ((db', w'), answer_for others us r) \<and> example_ok h db' \<and> tbl w' = Some us"
proof -
  let ?t = "Header_Get r ''X-Tenant-ID''" and ?ctx = "WithTenant (rq_ctx r) (Header_Get r ''X-Tenant-ID'')"
  consider "rq_Path r = ''/users''" "?t = []" | "rq_Path r = ''/users''" "?t \<noteq> []"
    | "rq_Path r = ''/admin/count''" | "rq_Path r \<noteq> ''/users''" "rq_Path r \<noteq> ''/admin/count''" by blast
  then show ?thesis
  proof cases
    case 1
    then show ?thesis
      using assms(3,5) by (auto simp: example_mux_def tenantMiddleware_def answer_for_def)
  next
    case 2
    have "(select_names, names_sent) \<in> set example_statements"
      by (simp add: example_statements_def names_sent_def)
    from example_call [OF assms(1,3) this GetTenant_WithTenant [OF 2(2)], of "rq_ctx r" exec w "[]"] assms(4)
    obtain db' where e: "example_ok h db'" "db_Query ord exec db w ?ctx select_names [] =
        (db', exec h (QueryContext ?ctx names_sent [GStr ?t]) w)"
      by auto
    obtain w' x where x:
      "exec h (QueryContext ?ctx names_sent [GStr ?t]) w = (w', Ok x)"
      "tbl w' = Some us" "rows_of x = map (\<lambda>name. [name]) (names_of ?t us)"
      using sql_serverD(3) [OF assms(2,5)] by blast
    have "concat (map (\<lambda>row. hd row @ [CHR 0x0A]) (rows_of x)) =
        concat (map (\<lambda>name. name @ [CHR 0x0A]) (names_of ?t us))"
      by (simp add: x(3) comp_def)
    moreover have "concat (map (\<lambda>name. name @ [CHR 0x0A]) ns) = [] \<longleftrightarrow> ns = []" for ns :: "string list"
      by (cases ns) auto
    ultimately show ?thesis
      using 2 e x by (auto simp: example_mux_def tenantMiddleware_def usersHandler_def answer_for_def Write_all
          content_type plain_text_def WriteHeader_def Let_def)
  next
    case 3
    obtain w' x where "exec h (QueryRowContext (WithoutTenantFiltering background) count_users []) w = (w', Ok x)"
      "tbl w' = Some us" "int_of x = int (length us)"
      using sql_serverD(4) [OF assms(2,5)] by blast
    then show ?thesis
      using 3 assms(3) by (simp add: example_mux_def adminHandler_def example_count [OF assms(3)] scan_count_def
          answer_for_def Write_def content_type plain_text_def WriteHeader_def Let_def)
  next
    case 4
    then show ?thesis using assms(3,5) by (simp add: example_mux_def answer_for_def)
  qed
qed

lemma serve_all_answers:
  assumes "map_order ord" "sql_server exec h rows_of int_of tbl" "example_ok h db" "\<forall>r \<in> set rs. \<not> shouldBypass (rq_ctx r)"
    "tbl w = Some us"
  shows "\<exists>s. serve_all ord exec rows_of int_of others (db, w) rs = (s, map (answer_for others us) rs) \<and> tbl (snd s) = Some us"
  using assms(3-5)
proof (induction rs arbitrary: db w)
  case (Cons r rs)
  from mux_answer [OF assms(1,2) Cons.prems(1) _ Cons.prems(3), of r others] Cons.prems(2)
  obtain db' w' where m: "example_mux ord exec rows_of int_of others (db, w) empty_response r =
      ((db', w'), answer_for others us r)" "example_ok h db'" "tbl w' = Some us" by auto
  from Cons.IH [OF m(2) _ m(3)] Cons.prems(2) m show ?case by (auto simp: Let_def)
qed auto

text \<open>The number the administrator is shown.\<close>

lemma utf8_digit: "0 \<le> n \<Longrightarrow> n < 10 \<Longrightarrow> utf8 (rune (add64 n 48)) = int_str n"
proof -
  assume "0 \<le> n" "n < 10"
  then have "n \<in> set [0..9]" by simp
  moreover have "\<forall>n \<in> set [0..9]. utf8 (rune (add64 n 48)) = int_str n" by code_simp
  ultimately show ?thesis by blast
qed

lemma code_char_of_int: "0 \<le> n \<Longrightarrow> n < 256 \<Longrightarrow> int (code (char_of n)) = n"
  using of_nat_of_char [where ?'a = int, of "char_of n"] of_char_of [where ?'a = int, of n] by simp

lemma no_digit_head: "128 + 64 \<le> n \<or> 58 \<le> n \<and> n < 128 \<Longrightarrow> n < 256 \<Longrightarrow> \<not> is_digit (char_of (n :: int))"
  using code_char_of_int [of n] by (auto simp: is_digit_def)

lemma utf8_no_digit:
  assumes "10 \<le> n" "n < 2 ^ 31 - 48"
  shows "utf8 (rune (add64 n 48)) \<noteq> int_str n"
proof -
  have r: "rune (add64 n 48) = n + 48" using assms by (simp add: rune_def i64_defs)
  have d: "list_all is_digit (int_str n)"
    using assms(1) nat_str_digits by (auto simp: int_str_def list_all_iff)
  have "\<not> is_digit (char_of (239 :: nat))" by code_simp
  moreover have "\<not> is_digit (char_of (n + 48))" if "n + 48 < 0x80"
    using that assms(1) by (intro no_digit_head) auto
  moreover have "\<not> is_digit (char_of (k + (n + 48) div m))"
    if "192 \<le> k" "0 < m" "n + 48 < (256 - k) * m" for k m :: int
  proof (rule no_digit_head)
    show "128 + 64 \<le> k + (n + 48) div m \<or> 58 \<le> k + (n + 48) div m \<and> k + (n + 48) div m < 128"
      using that assms(1) by (simp add: pos_imp_zdiv_nonneg_iff add_increasing2)
    show "k + (n + 48) div m < 256"
      using pos_mod_sign [OF that(2), of "n + 48"] that(3) mult_right_mono [of "256 - k" "(n + 48) div m" m] that(2)
        div_mult_mod_eq [of "n + 48" m] by linarith
  qed
  ultimately have "\<exists>c s. utf8 (n + 48) = c # s \<and> \<not> is_digit c"
    using assms(1) by (simp add: utf8_def)
  then show ?thesis using d r by (metis list.pred_inject(2))
qed

text \<open>
  C32. The server of the example http-middleware, on any driver that does with the statements it gets
  what SQL says of its table (\<open>sql_server\<close>), opened without one: the setup leaves the three users of
  \<^verbatim>\<open>main\<close>, and any sequence of requests that come one after the other, on whatever table, is answered as
  the comments say: a tenant's users and no others under /users for the tenant that the header names,
  status 400 without the header, what the mux does with other paths; the table is left as it was. Under
  /admin/count the text names the number of users exactly when there are fewer than ten, since the
  conversion of \<^verbatim>\<open>count+'0'\<close> to a rune makes one character of it.
\<close>

theorem http_example:
  assumes "map_order ord" "sql_server exec h rows_of int_of tbl" "\<forall>r \<in> set rs. \<not> shouldBypass (rq_ctx r)" "tbl w0 = None"
  shows "\<exists>w1 db. server_setup exec (Ok h) w0 = (w1, Ok db) \<and> tbl w1 = Some server_users \<and>
    (\<forall>w us. tbl w = Some us \<longrightarrow>
       (\<exists>s. serve_all ord exec rows_of int_of others (db, w) rs = (s, map (answer_for others us) rs) \<and> tbl (snd s) = Some us)) \<and>
    (\<forall>us r. rq_Path r = ''/admin/count'' \<longrightarrow> length us < 2 ^ 31 - 48 \<longrightarrow>
       (answer_for others us r =
          Ok (plain_text (''Total users: '' @ int_str (int (length us)) @ [CHR 0x0A])) \<longleftrightarrow> length us < 10))"
proof -
  obtain wc rc where c: "exec h (ExecContext background create_server_users []) w0 = (wc, Ok rc)" "tbl wc = Some []"
    using sql_serverD(1) [OF assms(2,4)] by blast
  obtain w1 r1 where i: "exec h (ExecContext background insert_server_users []) wc = (w1, Ok r1)" "tbl w1 = Some server_users"
    using sql_serverD(2) [OF assms(2) c(2)] by fastforce
  have "server_setup exec (Ok h) w0 = (w1, Ok (example_db h))"
    by (simp add: server_setup_def c(1) i(1) example_db_wrap)
  moreover have "utf8 (rune (add64 (int (length us)) 48)) = int_str (int (length us)) \<longleftrightarrow> length us < 10"
    if "length us < 2 ^ 31 - 48" for us :: "member list"
    using utf8_digit [of "int (length us)"] utf8_no_digit [of "int (length us)"] that by (cases "length us < 10") auto
  ultimately show ?thesis
    using i(2) serve_all_answers [OF assms(1,2) example_ok_new assms(3), of _ _ others]
    by (intro exI [of _ w1] exI [of _ "example_db h"]) (simp add: answer_for_def plain_text_def)
qed

definition example_requests :: "request list" where
  "example_requests =
     (let rq = (\<lambda>p hs. \<lparr>rq_Host = [], rq_Header = hs, rq_Path = p, rq_RemoteAddr = [], rq_ctx = background\<rparr>)
      in [rq ''/users'' [(''X-Tenant-Id'', [''acme-corp''])], rq ''/admin/count'' [], rq ''/users'' []])"

lemma http_example_witness:
  "\<exists>w db s. server_setup mem_server (Ok ()) None = (w, Ok db) \<and>
     serve_all (\<lambda>ks. ks) mem_server mem_rows mem_int (\<lambda>w r. Ok w) (db, w) example_requests =
      (s, [Ok (plain_text (''Alice'' @ [CHR 0x0A] @ ''Bob'' @ [CHR 0x0A])), Ok (plain_text (''Total users: 3'' @ [CHR 0x0A])),
           Ok (http_Error empty_response ''missing X-Tenant-ID header'' 400)])"
proof -
  have b: "\<forall>r \<in> set example_requests. \<not> shouldBypass (rq_ctx r)"
    by (simp add: example_requests_def background_free)
  have a: "map (answer_for (\<lambda>w r. Ok w) server_users) example_requests =
      [Ok (plain_text (''Alice'' @ [CHR 0x0A] @ ''Bob'' @ [CHR 0x0A])), Ok (plain_text (''Total users: 3'' @ [CHR 0x0A])),
       Ok (http_Error empty_response ''missing X-Tenant-ID header'' 400)]"
    by code_simp
  obtain w1 db where w1: "server_setup mem_server (Ok ()) None = (w1, Ok db)" "w1 = Some server_users"
    "\<forall>w us. w = Some us \<longrightarrow> (\<exists>s. serve_all (\<lambda>ks. ks) mem_server mem_rows mem_int (\<lambda>w r. Ok w) (db, w) example_requests =
       (s, map (answer_for (\<lambda>w r. Ok w) us) example_requests) \<and> snd s = Some us)"
    using http_example [OF map_order_id mem_server_laws b refl, of "\<lambda>w r. Ok w"] by blast
  then obtain s where "serve_all (\<lambda>ks. ks) mem_server mem_rows mem_int (\<lambda>w r. Ok w) (db, w1) example_requests =
      (s, map (answer_for (\<lambda>w r. Ok w) server_users) example_requests)" by blast
  then show ?thesis unfolding a using w1(1) by blast
qed

end
