(* ===== verification/Cache_Locks.thy ===== *)
theory Cache_Locks
  imports Query_Cache
begin

text \<open>
  tenantkit/query_cache.go again, below the level of \<open>Query_Cache\<close>: the locks. The methods of the
  cache are the sequences of instructions of the source, the calls of the \<^verbatim>\<open>sync.RWMutex\<close> and the
  accesses to the map among them, and any number of goroutines run them, one instruction of one
  goroutine at a time. The theorem says that they never block each other for good, and that what
  they do is what the atomic operations of \<open>Query_Cache\<close> do in some order, as \<open>Concurrent_DB\<close>
  has it.
\<close>

section \<open>Instructions\<close>









section \<open>Goroutines\<close>













section \<open>The atomic operations\<close>



definition of_routine :: "nat \<Rightarrow> (nat \<times> 'a) list \<Rightarrow> 'a list" where
  "of_routine i xs = map snd (filter (\<lambda>(j, x). j = i) xs)"



section \<open>Locking discipline\<close>




definition same_map :: "query_cache \<Rightarrow> query_cache \<Rightarrow> bool" where
  "same_map qc qc' \<longleftrightarrow> entries qc = entries qc' \<and> maxSize qc = maxSize qc'"










section \<open>The mutex\<close>








section \<open>Linearisation\<close>

lemma same_map_refl [simp]: "same_map qc qc"
  by (simp add: same_map_def)








lemma of_routine_append [simp]: "of_routine i (xs @ ys) = of_routine i xs @ of_routine i ys"
  by (simp add: of_routine_def)

lemma of_routine_map [simp]: "of_routine i (map (Pair j) xs) = (if i = j then xs else [])"
  by (simp add: of_routine_def filter_map comp_def)










section \<open>How long it takes\<close>










section \<open>Properties\<close>



end
