(* ===== verification/Spec2Isabelle.thy ===== *)
theory Spec2Isabelle
  imports DB_Isolation Sql_Storage Http_Middleware Quota_Memory Args_Pool Sqlx_Adapter Quota_Redis Limiter_Redis Web_Adapters
    Metrics_Prometheus Gorm_Adapter Postgres_RLS Concurrent_DB Http_Gateway
    Redis_Gateway Quota_Race Example_Programs Cache_Locks
begin

text \<open>
  A verification library for TenantKit, a Go library that keeps the tenants of a shared database
  apart. The program rewrites SQL statements so that they only touch the rows of one tenant, finds
  the tenant of an HTTP request, and limits the rate and the quota of each tenant.

  \<^bold>\<open>Parts of the program and how they interact.\<close> An HTTP middleware (adapters/http-stdlib)
  asks a resolver for the tenant of a request and stores a tenant context (domain) in the Go context
  of the request; the next handler calls a \<^verbatim>\<open>DB\<close> or a \<^verbatim>\<open>Tx\<close> (tenantkit/wrap.go) with
  that context. For every statement the interceptor (tenantkit/interceptor.go) decides by the system
  query detector, the bypass flag, the table extractor and the tenant of the context whether it is
  sent as it is, refused, or rewritten. The rewriting goes through the query cache, and the result
  goes to database/sql. The storage adapter (adapters/sql) is a second, simpler way to a database,
  with an enforcer that writes the tenant into the text; adapters/sqlx and adapters/gorm
  scope the statements of two other database libraries, and adapters/postgres sets up row level
  security in the server itself. Rate limiters (adapters/limiter-memory, adapters/limiter-redis) and
  quotas (adapters/quota-memory, adapters/quota-redis) count by tenant, in the process or on a shared
  Redis server; the rate limit middleware asks a limiter. adapters/http-chi, http-gin, http-echo and
  http-fiber are the tenant middleware for four web frameworks, and adapters/metrics-prometheus
  records what happens by tenant.

  \<^bold>\<open>Theories and code.\<close>
  \<^item> \<open>Go_Prelude\<close>, \<open>Go_Strings\<close>, \<open>Go_Regexp\<close>: Go's errors, results with panics, \<^verbatim>\<open>int64\<close>,
    durations, the package strings on ASCII texts, and regular expressions as a backtracking matcher
    with Go's leftmost-first rule.
  \<^item> \<open>Tenant_Domain\<close> (domain/): identifiers, tenant contexts, Go contexts as maps from keys.
  \<^item> \<open>Tenant_Context\<close> (tenantkit/context.go, errors.go), \<open>System_Detector\<close>
    (system_detector.go), \<open>Table_Extractor\<close> (table_extractor.go), \<open>Interceptor\<close>
    (interceptor.go), \<open>Query_Cache\<close> (query_cache.go), \<open>Rewriter\<close> and \<open>Tenant_DB\<close> (wrap.go).
    Records carry the code's fields; a method is a function of its receiver that returns the new one.
  \<^item> \<open>Sql_Driver\<close>: the calls of database/sql; the driver is a parameter \<open>exec\<close> of the methods, a
    function from handle, call and world to the new world and the result.
  \<^item> \<open>Rewrite_Spec\<close>, \<open>Rewrite_Added\<close>, \<open>Rewrite_Insert\<close>: what a rewritten statement means. A
    statement with its arguments bound is a list of characters and values (\<open>bind_q\<close> for
    \<^verbatim>\<open>?\<close>, \<open>bind_d\<close> for \<^verbatim>\<open>$1\<close>); the specifications (\<open>bound_conjoin\<close>, \<open>bound_where\<close>,
    \<open>bound_insert\<close>) are stated on bound statements, the code works on texts and argument lists.
  \<^item> \<open>DB_Isolation\<close>: the guarantees of \<^verbatim>\<open>DB\<close> and \<^verbatim>\<open>Tx\<close>; \<open>Shop_Example\<close> holds the concrete
    database and statements its witnesses run on.
  \<^item> \<open>Limiter_Port\<close>: the interface of a limiter as a locale, with the bounds on bursts every
    limiter gets from it; \<open>Fixed_Window\<close>, \<open>Sliding_Window\<close>, \<open>Token_Bucket\<close>
    and \<open>Limiter_Memory\<close> (adapters/limiter-memory) interpret it.
  \<^item> \<open>Quota_Memory\<close> (adapters/quota-memory), \<open>Sql_Enforcer\<close> and \<open>Sql_Storage\<close> (adapters/sql),
    \<open>Http_Resolver\<close> and \<open>Http_Middleware\<close> (adapters/http-stdlib).
  \<^item> \<open>Args_Pool\<close> (query_cache.go, wrap.go): the pooled slices of arguments as addresses into a
    store of arrays. \<open>Rewriter\<close> takes arguments as values; this theory shows when that is right.
  \<^item> \<open>Concurrent_DB\<close> (wrap.go, query_cache.go): calls of one \<^verbatim>\<open>DB\<close> by many goroutines. A call is
    a \<open>stage\<close>, \<open>advance\<close> takes it to its next stage on the shared cache and the shared pool, and a
    schedule is a list of such steps and of \<^verbatim>\<open>ClearQueryCache\<close>.
  \<^item> \<open>Cache_Locks\<close> (query_cache.go): the methods of the cache as sequences of instructions on its
    \<^verbatim>\<open>sync.RWMutex\<close>, its counters and its map, run by any number of goroutines.
  \<^item> \<open>Http_Gateway\<close>: the tenant middleware in front of the rate limit middleware over the sliding
    window of adapters/limiter-memory. \<open>Redis_Gateway\<close>: any number of servers with the two
    middlewares over one Redis limiter; a call is what happened on Redis before it, the server that
    gets it, the outcomes of its connections, the readings of the clock and the request.
  \<^item> \<open>Sqlx_Adapter\<close> (adapters/sqlx), \<open>Gorm_Adapter\<close> (adapters/gorm), \<open>Postgres_RLS\<close>
    (adapters/postgres/rls.go).
  \<^item> \<open>Redis_Server\<close>: the commands of a Redis server as a record of functions on its data, and
    predicates that state the documented behaviour of strings, hashes and sorted sets;
    \<open>plain_redis\<close> is a server that has it. \<open>Quota_Redis\<close> (adapters/quota-redis) and
    \<open>Limiter_Redis\<close> (adapters/limiter-redis, its three Lua scripts included) run on any such server.
    \<open>Quota_Race\<close> cuts \<^verbatim>\<open>ConsumeQuota\<close> at its two commands: a run is any sequence of commands,
    and the calls that have read their limit are pending.
  \<^item> \<open>Web_Adapters\<close> (adapters/http-chi, http-gin, http-echo, http-fiber): a framework's context is
    a record of what the code reads and writes of it; the locale \<open>web_context\<close> holds what the four
    share, and is interpreted for each of them.
  \<^item> \<open>Metrics_Prometheus\<close> (adapters/metrics-prometheus, adapters/metrics-noop): a method returns the
    calls it makes on the collectors.
  \<^item> \<open>Example_Programs\<close> (examples/): the two example programs, on the definitions above; a run of
    \<^verbatim>\<open>main\<close> is a list of steps, the server of the database is described by what it does with each
    statement before and after the table exists (\<open>sql_basic\<close>, \<open>sql_server\<close>), and a handler also
    takes the \<^verbatim>\<open>DB\<close> and the world of the driver.
  \<^item> this theory: the way of a request from the middleware to the driver.

  \<^bold>\<open>What the lemmas show.\<close> A \<^verbatim>\<open>DB\<close> in any state it can reach refuses statements on tenant
  tables without a tenant, unless they count as system queries or bypass the check, passes the others
  on unchanged, and sends for SELECT, UPDATE, DELETE and INSERT a statement that, with its arguments
  bound, is the caller's with the tenant's condition added, under the conditions each theorem names;
  the cache does not change this. Calls of one \<^verbatim>\<open>DB\<close> from many goroutines, in whatever order their
  steps come, give the driver what each of them would give alone, as long as no array of
  arguments is taken from the pool before it has been read; without that condition the texts are
  still right, but two calls can meet so that one is sent with the arguments, and the tenant, of the
  other. The locks of the cache let some goroutine go on until every call has returned, and each call
  takes effect as a whole. Limiters grant no more than their limit in the sense of
  their algorithm, a request takes what it is granted from its key only, and the quotas of tenants are
  independent. The middleware never calls the next handler without a tenant, and with the rate limit middleware
  behind it the handler gets no more requests of a tenant in a window than the limit; servers that share
  a limiter on Redis hold a tenant to its rate together, as far as their connections work. A quota bounds
  the usage of a tenant over any number of periods. Resolvers, identifiers,
  builders and transactions have their functional behaviour, with errors and panics as results.

  On a Redis server the bounds are stated for all the clients together: a history is any sequence of
  calls, each with its own clock and its own connection, which may lose the answer of a call that has
  been executed. The quota holds there even command by command, for the largest limit in effect; the
  token bucket holds its bound, and so does the sliding window as long as no two calls read the same
  millisecond; that without this it does not is a theorem too. The sqlx adapter's statements are read by the specification of \<open>Rewrite_Spec\<close>, its
  transactions keep the tenant they were begun for. The frameworks' middlewares guard their handlers
  like the one for the standard library, and resolve alike. GORM's operations get their condition or
  an error, an identifier the domain accepts is read back from the literal row level security sends,
  and the cache ratio of the metrics is exact when records do not overlap. Where the program does not
  keep what it promises (the argument pool, the count of the example server, the user context of
  fiber, the cache ratio under concurrency, windows of less than a second, the cleanup of the limiters,
  amounts near the largest \<^verbatim>\<open>int64\<close>, tenant columns with capital letters), the theorem states what happens.

  \<^bold>\<open>Bounds and conventions.\<close> Texts are lists of characters; \<^verbatim>\<open>ToUpper\<close> and the like change
  ASCII letters only, so the model speaks of ASCII statements. Every use of an \<^verbatim>\<open>int64\<close> sum that
  can wrap is written with \<open>add64\<close>; the hash of the cache is a word of 64 bits. A slice
  expression out of range and a nil dereference are \<open>Panic\<close>. Each reading of the clock is an argument
  (a \<open>clock\<close> holds those of one call), the instants being integers in nanoseconds. \<^verbatim>\<open>float64\<close> is the
  type of rationals with a rounding function as a parameter; theorems that need exact arithmetic
  instantiate it with the identity. The order in which Go walks over a map is a parameter. Loops are
  structural or have a termination proof by the length of the text; there is no fuel, except that the
  star of the regular expression matcher walks at most as often as there are characters left, and
  \<open>star_walk_fuel\<close> shows that more changes nothing, as each turn must consume one. The numbers in
  the Lua scripts are integers; those of Lua are exact below \<open>2 ^ 53\<close>, and the theorem on quotas asks
  for a limit in this range. The sliding window is followed for windows of at most 24 hours and the token
  bucket for buckets that fill within an hour, the ages at which their cleanup forgets a key; what
  happens beyond is in \<open>sw_early_cleanup\<close> and \<open>tb_early_cleanup\<close>. Amounts asked of a limiter
  or a quota stay below the largest \<^verbatim>\<open>int64\<close> less the limit, where their sums do not wrap.
  A mutex makes a method one step; what happens between methods of different
  goroutines is any sequence of such steps. \<open>Concurrent_DB\<close> cuts a call into six steps at most, one
  for each access to shared data; the appends of a call to its own slice are part of one step. Where the code reads shared data outside its
  lock, in the recorder of metrics, the steps are those of an inductive relation between the accesses.

  \<^bold>\<open>Not modelled.\<close> Database drivers, Redis, the Prometheus client, GORM, sqlx and the web
  frameworks are not part of the source: they are parameters of the definitions, and what a theorem
  relies on is a hypothesis with a concrete instance. The interfaces of tenantkit/ports have no code;
  the locales state the contracts of those that are used. The mutexes other than the cache's and the log lines have no
  counterpart, and neither have the benchmarks and the test utilities.
\<close>

section \<open>From the request to the driver\<close>

text \<open>
  C6. Components together: a request that passes the tenant middleware carries its tenant down to
  the driver, as long as nothing put a tenant into its context under the library's own key before. For every
  statement that needs a tenant, \<^verbatim>\<open>Exec\<close> and \<^verbatim>\<open>Query\<close> of a \<^verbatim>\<open>DB\<close>,
  called with the context of the request the next handler gets, send the rewriting for exactly the
  identifier that was resolved, in lower case.
\<close>

theorem request_to_driver:
  assumes "resolver_safe rs" "mc_Resolver cfg = Some (Resolve rs)" "mc_OnError cfg = Some onError"
    "\<not> shouldSkip (mc_SkipPaths cfg) (rq_Path r)" "Resolve rs r = Ok ident" "NewTenantID ident = Ok tid"
    "rq_ctx r tenantIDKey = None"
  shows "\<exists>r'. mw_Handler cfg now inner w r = inner w r' \<and> GetTenant (rq_ctx r') = (to_lower ident, True) \<and>
    (\<forall>db q args v. needs_tenant (db_interceptor db) (rq_ctx r') q \<longrightarrow>
       snd (db_Exec ord exec db v (rq_ctx r') q args) =
         send exec (db_db db) (ExecContext (rq_ctx r')) (snd (injectTenantFilter ord db q (to_lower ident) args)) v \<and>
       snd (db_Query ord exec db v (rq_ctx r') q args) =
         send exec (db_db db) (QueryContext (rq_ctx r')) (snd (injectTenantFilter ord db q (to_lower ident) args)) v)"
proof -
  obtain tc where tc: "NewContext ident ''system'' ''http-request'' now = Ok tc" "dc_tenantID tc = tid"
    using assms(6) by (simp add: NewContext_def)
  have v: "tid_value (dc_tenantID tc) = to_lower ident"
    using assms(6) tc(2) by (auto simp: NewTenantID_Ok_iff)
  have n: "tid_value (dc_tenantID tc) \<noteq> []" by (rule NewContext_tenant_nonempty [OF tc(1)])
  let ?r = "r\<lparr>rq_ctx := ToGoContext tc (rq_ctx r)\<rparr>"
  have h: "mw_Handler cfg now inner w r = inner w ?r"
    using assms(2-5) tc(1) by (simp add: mw_Handler_def)
  have g: "GetTenant (rq_ctx ?r) = (to_lower ident, True)"
    using GetTenant_ToGoContext [OF _ n, of "rq_ctx r"] assms(7) v by simp
  show ?thesis
    by (intro exI [of _ ?r] conjI allI impI h g) (simp_all only: methods_send(1,2) [OF _ g] snd_conv)
qed

definition tenant_request :: request where
  "tenant_request = sample_request\<lparr>rq_Header := [(''X-Tenant-Id'', ['' Acme ''])]\<rparr>"

lemma request_to_driver_witness:
  "\<exists>r' :: request. mw_Handler header_middleware 0 (\<lambda>w r. Ok w) empty_response tenant_request = Ok empty_response \<and>
     GetTenant (rq_ctx r') = (''acme'', True)"
proof -
  have s: "resolver_safe (NewHeaderResolver [])" by (simp add: NewHeaderResolver_def)
  have m: "mc_Resolver header_middleware = Some (Resolve (NewHeaderResolver []))"
    "mc_OnError header_middleware = Some DefaultErrorHandler" by (simp_all add: header_middleware_def)
  have p: "\<not> shouldSkip (mc_SkipPaths header_middleware) (rq_Path tenant_request)" by code_simp
  have k: "canonical_key ''X-Tenant-ID'' = ''X-Tenant-Id''" "trim_space '' Acme '' = ''Acme''" by code_simp+
  have r: "Resolve (NewHeaderResolver []) tenant_request = Ok ''Acme''"
    by (simp add: NewHeaderResolver_def resolve_header_def Header_Get_def k tenant_request_def)
  have t: "NewTenantID ''Acme'' = Ok \<lparr>tid_value = ''acme''\<rparr>" "to_lower ''Acme'' = ''acme''" by code_simp+
  have c: "rq_ctx tenant_request tenantIDKey = None"
    by (simp add: tenant_request_def sample_request_def background_def)
  show ?thesis
    using request_to_driver [OF s m p r t(1) c, where now = 0 and inner = "\<lambda>w r. Ok w" and w = empty_response
        and ord = "\<lambda>ks. ks" and exec = record_call] t(2)
    by auto
qed

end
